(* ===== verification/Prelude.thy ===== *)
theory Prelude
  imports Main "HOL-Library.Word"
begin

text \<open>
  Shared vocabulary of the development: the C integer types as words, the byte view of a
  16-bit register, facts on single bits of words, and the two small interfaces
  (an invariant kept by steps, a byte queue) that several components provide.
\<close>

unbundle bit_operations_syntax

section \<open>Integer types\<close>

text \<open>
  \<open>libspectrum_byte\<close>, \<open>libspectrum_word\<close> and \<open>libspectrum_dword\<close> are the unsigned
  8, 16 and 32-bit integers of the code; a C \<open>int\<close> is an \<open>int\<close> where the code keeps it
  far from its bounds and a word where a conversion matters.
\<close>

type_synonym u8 = "8 word"
type_synonym u16 = "16 word"
type_synonym u32 = "32 word"

named_theorems word_bits \<open>facts that read single bits of words\<close>
named_theorems preserves \<open>operations that keep an invariant\<close>
named_theorems frame_rules \<open>fields and slots an operation leaves alone\<close>

section \<open>Bits of words\<close>

lemma bit_unat_word [word_bits]:
  "bit (w :: 'a::len word) n \<longleftrightarrow> odd (unat w div 2 ^ n)"
proof -
  have "bit (unat w) n \<longleftrightarrow> odd (unat w div 2 ^ n)" by (rule bit_iff_odd)
  moreover have "bit (unat w) n \<longleftrightarrow> bit w n" by (auto simp: bit_simps dest: bit_imp_le_length)
  ultimately show ?thesis by simp
qed

lemma unat_u8_bound: "unat (w :: u8) < 256"
  using unsigned_less [of w] by simp

lemma unat_u16_bound: "unat (w :: u16) < 65536"
  using unsigned_less [of w] by simp

lemma unat_u32_bound: "unat (w :: u32) < 4294967296"
  using unsigned_less [of w] by simp

text \<open>Two bytes are equal when their eight bits are.\<close>

lemma u8_eqI:
  fixes x y :: u8
  assumes "bit x 0 = bit y 0" "bit x 1 = bit y 1" "bit x 2 = bit y 2" "bit x 3 = bit y 3"
    "bit x 4 = bit y 4" "bit x 5 = bit y 5" "bit x 6 = bit y 6" "bit x 7 = bit y 7"
  shows "x = y"
proof (rule bit_word_eqI)
  fix n assume "n < LENGTH(8)"
  then have "n \<in> {0, 1, 2, 3, 4, 5, 6, 7}" by auto
  then show "bit x n = bit y n" using assms by (elim insertE) simp_all
qed

lemma mask_bits:
  "(w :: 'a::len word) AND 0x100 = 0 \<longleftrightarrow> \<not> bit w 8" "w AND 0x10000 = 0 \<longleftrightarrow> \<not> bit w 16"
  "w AND 0x80 = 0 \<longleftrightarrow> \<not> bit w 7" 
  using and_exp_eq_0_iff_not_bit[of w 8] and_exp_eq_0_iff_not_bit[of w 16] and_exp_eq_0_iff_not_bit[of w 7] by simp_all

lemma unat_up [simp]:
  "unat (ucast (w :: u8) :: u16) = unat w" "unat (ucast (w :: u8) :: u32) = unat w"
  "unat (ucast (x :: u16) :: u32) = unat x"
  using unat_u8_bound[of w] unat_u16_bound[of x] by (simp_all add: unsigned_ucast_eq take_bit_nat_eq_self)

lemma unat_down:
  "unat (ucast (x :: u16) :: u8) = unat x mod 256" "unat (ucast (y :: u32) :: u8) = unat y mod 256"
  "unat (ucast (y :: u32) :: u16) = unat y mod 65536"
  by (simp_all add: unsigned_ucast_eq take_bit_eq_mod)

lemma word_diff_wraps:
  fixes x y z t :: "'a::len word"
  assumes "t = x - y - z"
  obtains K where "unat x + 2 ^ LENGTH('a) * K = unat y + unat t + unat z"
proof
  have "x = y + t + z" using assms by simp
  then have "unat x = (unat y + unat t + unat z) mod 2 ^ LENGTH('a)"
    by (simp add: unat_word_ariths mod_simps)
  then show "unat x + 2 ^ LENGTH('a) * ((unat y + unat t + unat z) div 2 ^ LENGTH('a)) = unat y + unat t + unat z"
    by (metis mod_mult_div_eq)
qed

lemma ucast_up_down:
  "ucast (ucast (w :: u8) :: u16) = w" "ucast (ucast (x :: u16) :: u32) = x"
  by (rule bit_word_eqI, simp add: bit_simps)+

lemma nat_mod_mod:
  "(n :: nat) mod 65536 mod 256 = n mod 256" "(n :: nat) mod 4294967296 mod 65536 = n mod 65536"
  by (simp_all add: mod_mod_cancel)

lemma ucast_down_add:
  "(ucast (x + y :: u16) :: u8) = ucast x + ucast y" "(ucast (v + w :: u32) :: u16) = ucast v + ucast w"
  by (simp_all add: word_unat_eq_iff unat_down unat_word_ariths mod_simps nat_mod_mod)

lemma ucast_down_diff:
  "(ucast (x - y :: u16) :: u8) = ucast x - ucast y" "(ucast (v - w :: u32) :: u16) = ucast v - ucast w"
  using ucast_down_add(1) [of "x - y" y] ucast_down_add(2) [of "v - w" w] by (simp_all add: algebra_simps)

section \<open>The byte view of a 16-bit register\<close>

text \<open>The union \<open>regpair\<close> of \<open>z80/z80.h\<close>: a word whose high and low bytes are lvalues.\<close>

definition hi :: "u16 \<Rightarrow> u8" where
  "hi w = ucast (drop_bit 8 w)"

definition lo :: "u16 \<Rightarrow> u8" where
  "lo w = ucast w"

definition mkw :: "u8 \<Rightarrow> u8 \<Rightarrow> u16" where
  "mkw h l = push_bit 8 (ucast h) OR ucast l"

lemma hi_mkw [simp]: "hi (mkw h l) = h"
  by (rule bit_word_eqI) (auto simp: hi_def mkw_def bit_simps dest: bit_imp_le_length)

lemma lo_mkw [simp]: "lo (mkw h l) = l"
  by (rule bit_word_eqI) (auto simp: lo_def mkw_def bit_simps)

lemma mkw_hi_lo [simp]: "mkw (hi w) (lo w) = w"
  by (rule bit_word_eqI) (auto simp: lo_def hi_def mkw_def bit_simps)

lemma hi_lo_eq_iff: "v = w \<longleftrightarrow> hi v = hi w \<and> lo v = lo w"
  by (metis mkw_hi_lo)

section \<open>Carries and borrows out of the low part of a sum\<close>

text \<open>
  The flag tables of the code recover the carry out of a bit position from the bits of the
  operands and of the result at that position. Both facts hold at any position; the
  position is given by its weight \<open>M\<close>.
\<close>

lemma split_mod: 
  fixes x M :: nat assumes "0 < M"
  obtains q b l where "x = 2 * M * q + M * b + l" "l < M" "b = 0 \<or> b = 1"
proof
  show "x = 2 * M * (x div (2*M)) + M * ((x div M) mod 2) + x mod M"
  proof -
    have "x = M * (x div M) + x mod M" by simp
    also have "x div M = 2 * (x div M div 2) + (x div M) mod 2" by simp
    also have "x div M div 2 = x div (2 * M)" by (simp add: div_mult2_eq mult.commute)
    finally show ?thesis by (metis (no_types) distrib_left mult.assoc mult.commute)
  qed
  show "x mod M < M" using assms by simp
  show "(x div M) mod 2 = 0 \<or> (x div M) mod 2 = 1" by auto
qed

lemma split_div: 
  fixes M :: nat assumes "l < M" 
  shows "(2 * M * q + M * b + l) div M = 2 * q + b" "b \<le> 1 \<Longrightarrow> (2 * M * q + M * b + l) mod (2 * M) = M * b + l"
proof -
  have M: "M \<noteq> 0" using assms by simp
  have "(2 * M * q + M * b + l) = l + M * (2 * q + b)" by (simp add: algebra_simps)
  then show "(2 * M * q + M * b + l) div M = 2 * q + b" using assms M by simp
  assume "b \<le> 1"
  then have "M * b + l < 2 * M" using assms by (cases b) auto
  then show "(2 * M * q + M * b + l) mod (2 * M) = M * b + l" 
     by (metis add.assoc mod_less mod_mult_self4)
qed

lemma carry_out:
  fixes x y c M :: nat assumes M: "0 < M" and c: "c \<le> 1"
  shows "2 * M \<le> x mod (2 * M) + y mod (2 * M) + c \<longleftrightarrow>
     (odd (x div M) \<and> odd (y div M)) \<or> ((odd (x div M) \<or> odd (y div M)) \<and> even ((x + y + c) div M))"
proof -
  obtain q b l where x: "x = 2 * M * q + M * b + l" "l < M" "b = 0 \<or> b = 1" using split_mod[OF M] .
  obtain q' b' l' where y: "y = 2 * M * q' + M * b' + l'" "l' < M" "b' = 0 \<or> b' = 1" using split_mod[OF M] .
  define k where "k = (if M \<le> l + l' + c then 1 else 0::nat)"
  have sum: "x + y + c = 2 * M * (q + q') + M * (b + b' + k) + (l + l' + c - M * k)"
    using x y by (auto simp: k_def algebra_simps)
  have low: "l + l' + c - M * k < M" using x(2) y(2) c by (auto simp: k_def)
  have d1: "x div M = 2 * q + b" unfolding x(1) by (rule split_div(1)[OF x(2)])
  have d2: "y div M = 2 * q' + b'" unfolding y(1) by (rule split_div(1)[OF y(2)])
  have d3: "(x + y + c) div M = 2 * (q + q') + (b + b' + k)" unfolding sum by (rule split_div(1)[OF low])
  have m: "x mod (2 * M) = M * b + l" "y mod (2 * M) = M * b' + l'"
    using split_div(2)[OF x(2)] split_div(2)[OF y(2)] x(1,3) y(1,3) by auto
  show ?thesis unfolding d1 d2 d3 m using x(2,3) y(2,3) c by (auto simp: k_def)
qed

lemma borrow_out:
  fixes x y c r M K :: nat assumes M: "0 < M" and c: "c \<le> 1" and eq: "x + 2 * M * K = y + r + c"
  shows "x mod (2 * M) < y mod (2 * M) + c \<longleftrightarrow>
     (even (x div M) \<and> odd (y div M)) \<or> ((even (x div M) \<or> odd (y div M)) \<and> odd (r div M))"
proof -
  have par: "even ((y + r + c) div M) \<longleftrightarrow> even (x div M)"
  proof -
    have "(x + 2 * M * K) div M = x div M + 2 * K"
    proof -
      have "x + 2 * M * K = x + M * (2 * K)" by simp
      also have "\<dots> div M = 2 * K + x div M" using M by (intro div_mult_self2) simp
      finally show ?thesis by simp
    qed
    then show ?thesis using eq by simp
  qed
  have xm: "x mod (2 * M) = (y mod (2 * M) + r mod (2 * M) + c) mod (2 * M)"
  proof -
    have "x mod (2 * M) = (x + 2 * M * K) mod (2 * M)" by simp
    also have "\<dots> = (y + r + c) mod (2 * M)" using eq by simp
    also have "\<dots> = (y mod (2 * M) + r mod (2 * M) + c) mod (2 * M)"
      by (metis mod_add_eq mod_add_left_eq)
    finally show ?thesis .
  qed
  have lt: "r mod (2 * M) < 2 * M" "y mod (2 * M) < 2 * M" using M by simp_all
  have "x mod (2 * M) < y mod (2 * M) + c \<longleftrightarrow> 2 * M \<le> y mod (2 * M) + r mod (2 * M) + c"
  proof (cases "2 * M \<le> y mod (2 * M) + r mod (2 * M) + c")
    case True
    have less: "y mod (2 * M) + r mod (2 * M) + c - 2 * M < 2 * M" using lt c by linarith
    from True have "(y mod (2 * M) + r mod (2 * M) + c) mod (2 * M) = y mod (2 * M) + r mod (2 * M) + c - 2 * M"
      using lt c by (simp add: le_mod_geq mod_less[OF less])
    then have "x mod (2 * M) < y mod (2 * M) + c" using True lt xm by linarith
    with True show ?thesis by simp
  next
    case False
    then show ?thesis using xm by simp
  qed
  also have "\<dots> \<longleftrightarrow> (odd (y div M) \<and> odd (r div M)) \<or> ((odd (y div M) \<or> odd (r div M)) \<and> even (x div M))"
    using carry_out[OF M c] par by simp
  finally show ?thesis by blast
qed

text \<open>The signed reading of an unsigned value below \<open>2 * M\<close>, and signed overflow.\<close>

lemma top_bit: fixes x M :: nat shows "x < 2 * M \<Longrightarrow> odd (x div M) \<longleftrightarrow> M \<le> x"
proof -
  assume a: "x < 2 * M"
  show ?thesis
  proof (cases "M \<le> x")
    case True
    then have "x div M = 1" using a by (intro div_nat_eqI) auto
    with True show ?thesis by simp
  next
    case False
    then show ?thesis by simp
  qed
qed

definition signed_of :: "nat \<Rightarrow> nat \<Rightarrow> int" where
  "signed_of M x = int x - (if M \<le> x then 2 * int M else 0)"

lemma overflow_add:
  fixes x y c M :: nat assumes "x < 2 * M" "y < 2 * M" "c \<le> 1"
  shows "(odd (x div M) \<and> odd (y div M) \<and> even ((x + y + c) div M)) \<or>
         (even (x div M) \<and> even (y div M) \<and> odd ((x + y + c) div M)) \<longleftrightarrow>
     signed_of M x + signed_of M y + int c \<notin> {- int M..<int M}"
proof -
  consider "x + y + c < M" | "M \<le> x + y + c" "x + y + c < 2 * M"
    | "2 * M \<le> x + y + c" "x + y + c < 3 * M" | "3 * M \<le> x + y + c" by linarith
  then show ?thesis
  proof cases
    case 1
    then have "(x + y + c) div M = 0" by simp
    with 1 show ?thesis using assms by (auto simp: top_bit signed_of_def)
  next
    case 2
    then have "(x + y + c) div M = 1" by (intro div_nat_eqI) auto
    with 2 show ?thesis using assms by (auto simp: top_bit signed_of_def)
  next
    case 3
    then have "(x + y + c) div M = 2" by (intro div_nat_eqI) auto
    with 3 show ?thesis using assms by (auto simp: top_bit signed_of_def)
  next
    case 4
    then have "(x + y + c) div M = 3" using assms by (intro div_nat_eqI) auto
    with 4 show ?thesis using assms by (auto simp: top_bit signed_of_def)
  qed
qed

lemma odd_div_mod: fixes r M :: nat shows "0 < M \<Longrightarrow> odd (r div M) \<longleftrightarrow> M \<le> r mod (2 * M)"
proof -
  assume M: "0 < M"
  obtain q b l where r: "r = 2 * M * q + M * b + l" "l < M" "b = 0 \<or> b = 1" using split_mod[OF M] .
  have "r div M = 2 * q + b" "r mod (2 * M) = M * b + l"
    unfolding r(1) using split_div[OF r(2)] r(3) by auto
  then show ?thesis using r(2,3) by auto
qed

lemma overflow_sub:
  fixes x y c r M K :: nat assumes "0 < M" "x < 2 * M" "y < 2 * M" "c \<le> 1" and eq: "x + 2 * M * K = y + r + c"
  shows "(odd (x div M) \<and> even (y div M) \<and> even (r div M)) \<or>
         (even (x div M) \<and> odd (y div M) \<and> odd (r div M)) \<longleftrightarrow>
     signed_of M x - signed_of M y - int c \<notin> {- int M..<int M}"
proof (cases "y + c \<le> x")
  case True
  have "r = x - y - c + 2 * M * K" using eq True by linarith
  then have "r mod (2 * M) = (x - y - c) mod (2 * M)" by simp
  then have rm: "r mod (2 * M) = x - y - c" using assms by simp
  have "odd (r div M) \<longleftrightarrow> M \<le> x - y - c" using odd_div_mod[OF assms(1), of r] rm by simp
  then show ?thesis using assms(2-4) True by (auto simp: top_bit signed_of_def)
next
  case False
  have "K \<noteq> 0" using eq False by (cases K) auto
  then obtain K' where K: "K = Suc K'" by (cases K) auto
  have "r = (x + 2 * M - y - c) + 2 * M * K'" using eq False assms K by (simp add: algebra_simps)
  then have "r mod (2 * M) = (x + 2 * M - y - c) mod (2 * M)" by simp
  then have rm: "r mod (2 * M) = x + 2 * M - y - c" using assms False by simp
  have "odd (r div M) \<longleftrightarrow> M \<le> x + 2 * M - y - c" using odd_div_mod[OF assms(1), of r] rm by simp
  then show ?thesis using assms(2-4) False by (auto simp: top_bit signed_of_def)
qed

lemma sint_u8: "sint (w :: u8) = signed_of 128 (unat w)"
proof -
  have t: "take_bit 8 (uint w) = uint w" using unsigned_less [of w, where ?'a = int] by (simp add: take_bit_int_eq_self)
  have b: "bit (uint w) 7 \<longleftrightarrow> 128 \<le> unat w"
    using top_bit[of "unat w" 128] unat_u8_bound[of w] by (simp add: bit_uint_iff bit_unat_word)
  show ?thesis using t b by (simp add: sint_uint signed_take_bit_eq_take_bit_minus signed_of_def)
qed

lemma sint_u16: "sint (w :: u16) = signed_of 32768 (unat w)"
proof -
  have t: "take_bit 16 (uint w) = uint w" using unsigned_less [of w, where ?'a = int] by (simp add: take_bit_int_eq_self)
  have b: "bit (uint w) 15 \<longleftrightarrow> 32768 \<le> unat w"
    using top_bit[of "unat w" 32768] unat_u16_bound[of w] by (simp add: bit_uint_iff bit_unat_word)
  show ?thesis using t b by (simp add: sint_uint signed_take_bit_eq_take_bit_minus signed_of_def)
qed

section \<open>Updating a list by index\<close>

lemma fold_update:
  "length (fold (\<lambda>k mp. mp[b + k := f k (mp ! (b + k))]) [0..<n] mp) = length mp"
  "i < length mp \<Longrightarrow> fold (\<lambda>k mp. mp[b + k := f k (mp ! (b + k))]) [0..<n] mp ! i =
     (if b \<le> i \<and> i < b + n then f (i - b) (mp ! i) else mp ! i)"
  by (induction n) (auto simp: nth_list_update less_Suc_eq)

section \<open>An invariant kept by every step\<close>

locale step_machine =
  fixes step :: "'e \<Rightarrow> 's \<Rightarrow> 's"
    and inv :: "'s \<Rightarrow> bool"
    and ok :: "'e \<Rightarrow> 's \<Rightarrow> bool"
  assumes step_inv: "inv s \<Longrightarrow> ok e s \<Longrightarrow> inv (step e s)"
begin

fun run_ok :: "'e list \<Rightarrow> 's \<Rightarrow> bool" where
  "run_ok [] s = True"
| "run_ok (e # es) s = (ok e s \<and> run_ok es (step e s))"

lemma run_inv: "inv s \<Longrightarrow> run_ok es s \<Longrightarrow> inv (fold step es s)"
  by (induction es arbitrary: s) (auto intro: step_inv)

lemma run_ok_append: "run_ok (xs @ ys) s \<longleftrightarrow> run_ok xs s \<and> run_ok ys (fold step xs s)"
  by (induction xs arbitrary: s) auto

end

end
