(* ===== verification/Z80_Alu.thy ===== *)
theory Z80_Alu
  imports Prelude
begin

text \<open>
  The processor state of \<open>z80/z80.h\<close>, the flag tables of \<open>z80/z80.c\<close> and the arithmetic and
  logic macros of \<open>z80/z80_macros.h\<close>. A macro whose argument is an lvalue returns the new
  value of the argument beside the new processor. The theorems compare every flag a macro
  computes through the tables with its arithmetic meaning.
\<close>

section \<open>The processor\<close>

text \<open>The signed \<open>interrupts_enabled_at\<close> is kept as its 32 bits; the code compares it with an unsigned clock.\<close>

record processor =
  AF :: u16
  BC :: u16
  DE :: u16
  HL :: u16
  AF2 :: u16
  BC2 :: u16
  DE2 :: u16
  HL2 :: u16
  IX :: u16
  IY :: u16
  regI :: u8
  regR :: u16
  regR7 :: u8
  SP :: u16
  PC :: u16
  memptr :: u16
  iff2_read :: bool
  IFF1 :: u8
  IFF2 :: u8
  IM :: u8
  halted :: bool
  CLOCKL :: u16
  CLOCKH :: u16
  Q :: u8
  interrupts_enabled_at :: u32

definition A :: "processor \<Rightarrow> u8" where "A s = hi (AF s)"
definition F :: "processor \<Rightarrow> u8" where "F s = lo (AF s)"

definition set_A :: "u8 \<Rightarrow> processor \<Rightarrow> processor" where
  "set_A v s = s\<lparr>AF := mkw v (F s)\<rparr>"

definition set_F :: "u8 \<Rightarrow> processor \<Rightarrow> processor" where
  "set_F v s = s\<lparr>AF := mkw (A s) v\<rparr>"

text \<open>Every macro that sets the flags ends with \<open>F = ...; Q = F\<close>.\<close>

definition set_FQ :: "u8 \<Rightarrow> processor \<Rightarrow> processor" where
  "set_FQ v s = (set_F v s)\<lparr>Q := v\<rparr>"

lemma AF_access [simp]:
  "A (set_A v s) = v" "F (set_A v s) = F s" "A (set_F v s) = A s" "F (set_F v s) = v"
  "A (set_FQ v s) = A s" "F (set_FQ v s) = v" "Q (set_FQ v s) = v"
  by (simp_all add: A_def F_def set_A_def set_F_def set_FQ_def)

lemma AF_frame [simp]:
  "HL (set_A v s) = HL s" "HL (set_FQ v s) = HL s"
  "memptr (set_A v s) = memptr s" "memptr (set_FQ v s) = memptr s"
  "A (s\<lparr>HL := x\<rparr>) = A s" "F (s\<lparr>HL := x\<rparr>) = F s"
  "A (s\<lparr>memptr := x\<rparr>) = A s" "F (s\<lparr>memptr := x\<rparr>) = F s"
  by (simp_all add: A_def F_def set_A_def set_F_def set_FQ_def)

section \<open>The flags and the tables\<close>

definition FLAG_C :: u8 where "FLAG_C = 0x01"
definition FLAG_N :: u8 where "FLAG_N = 0x02"
definition FLAG_P :: u8 where "FLAG_P = 0x04"
definition FLAG_V :: u8 where "FLAG_V = FLAG_P"
definition FLAG_3 :: u8 where "FLAG_3 = 0x08"
definition FLAG_H :: u8 where "FLAG_H = 0x10"
definition FLAG_5 :: u8 where "FLAG_5 = 0x20"
definition FLAG_Z :: u8 where "FLAG_Z = 0x40"
definition FLAG_S :: u8 where "FLAG_S = 0x80"

lemmas flag_defs = FLAG_C_def FLAG_N_def FLAG_P_def FLAG_V_def FLAG_3_def FLAG_H_def
  FLAG_5_def FLAG_Z_def FLAG_S_def

definition halfcarry_add_table :: "u8 list" where
  "halfcarry_add_table = [0, FLAG_H, FLAG_H, FLAG_H, 0, 0, 0, FLAG_H]"

definition halfcarry_sub_table :: "u8 list" where
  "halfcarry_sub_table = [0, 0, FLAG_H, 0, FLAG_H, 0, FLAG_H, FLAG_H]"

definition overflow_add_table :: "u8 list" where
  "overflow_add_table = [0, 0, 0, FLAG_V, FLAG_V, 0, 0, 0]"

definition overflow_sub_table :: "u8 list" where
  "overflow_sub_table = [0, FLAG_V, 0, 0, 0, 0, FLAG_V, 0]"

text \<open>
  \<open>z80_init_tables\<close>: the inner loop folds the eight low bits of \<open>j\<close> into \<open>parity\<close>; the outer
  loop fills the three tables, whose entry 0 then gets the zero flag.
\<close>

fun init_parity :: "nat \<Rightarrow> u8 \<Rightarrow> u8 \<Rightarrow> u8" where
  "init_parity 0 j parity = parity"
| "init_parity (Suc k) j parity = init_parity k (drop_bit 1 j) (parity XOR (j AND 1))"

record flag_tables =
  sz53 :: "u8 list"
  par :: "u8 list"
  sz53p :: "u8 list"

definition z80_init_tables :: flag_tables where
  "z80_init_tables =
    (let sz = map (\<lambda>i. (word_of_nat i :: u8) AND (FLAG_3 OR FLAG_5 OR FLAG_S)) [0..<256];
         pa = map (\<lambda>i. if init_parity 8 (word_of_nat i) 0 \<noteq> 0 then 0 else FLAG_P) [0..<256];
         szp = map2 (\<lambda>a b. a OR b) sz pa
     in \<lparr>sz53 = sz[0 := sz ! 0 OR FLAG_Z], par = pa, sz53p = szp[0 := szp ! 0 OR FLAG_Z]\<rparr>)"

definition sz53_table :: "u8 \<Rightarrow> u8" where
  "sz53_table i = sz53 z80_init_tables ! unat i"

definition sz53p_table :: "u8 \<Rightarrow> u8" where
  "sz53p_table i = sz53p z80_init_tables ! unat i"

definition parity_table :: "u8 \<Rightarrow> u8" where
  "parity_table i = par z80_init_tables ! unat i"

text \<open>The index every 8-bit operation builds: bits 3 and 7 of both operands and the result.\<close>

definition lookup8 :: "u8 \<Rightarrow> u8 \<Rightarrow> u16 \<Rightarrow> u8" where
  "lookup8 a v temp =
     drop_bit 3 (a AND 0x88) OR drop_bit 2 (v AND 0x88) OR ucast (drop_bit 1 (temp AND 0x88))"

text \<open>Likewise for the 16-bit operations: bits 11 and 15.\<close>

definition lookup16 :: "u16 \<Rightarrow> u16 \<Rightarrow> u32 \<Rightarrow> u8" where
  "lookup16 a v temp =
     ucast (drop_bit 11 (a AND 0x8800)) OR ucast (drop_bit 10 (v AND 0x8800)) OR
     ucast (drop_bit 9 (temp AND 0x8800))"

section \<open>8-bit arithmetic and logic\<close>

definition op_AND :: "u8 \<Rightarrow> processor \<Rightarrow> processor" where
  "op_AND v s = (let s1 = set_A (A s AND v) s in set_FQ (FLAG_H OR sz53p_table (A s1)) s1)"

definition op_OR :: "u8 \<Rightarrow> processor \<Rightarrow> processor" where
  "op_OR v s = (let s1 = set_A (A s OR v) s in set_FQ (sz53p_table (A s1)) s1)"

definition op_XOR :: "u8 \<Rightarrow> processor \<Rightarrow> processor" where
  "op_XOR v s = (let s1 = set_A (A s XOR v) s in set_FQ (sz53p_table (A s1)) s1)"

definition op_ADC :: "u8 \<Rightarrow> processor \<Rightarrow> processor" where
  "op_ADC v s =
    (let adctemp = (ucast (A s) + ucast v + ucast (F s AND FLAG_C) :: u16);
         lookup = lookup8 (A s) v adctemp;
         s1 = set_A (ucast adctemp) s
     in set_FQ ((if adctemp AND 0x100 \<noteq> 0 then FLAG_C else 0) OR
                halfcarry_add_table ! unat (lookup AND 0x07) OR
                overflow_add_table ! unat (drop_bit 4 lookup) OR sz53_table (A s1)) s1)"

definition op_ADD :: "u8 \<Rightarrow> processor \<Rightarrow> processor" where
  "op_ADD v s =
    (let addtemp = (ucast (A s) + ucast v :: u16);
         lookup = lookup8 (A s) v addtemp;
         s1 = set_A (ucast addtemp) s
     in set_FQ ((if addtemp AND 0x100 \<noteq> 0 then FLAG_C else 0) OR
                halfcarry_add_table ! unat (lookup AND 0x07) OR
                overflow_add_table ! unat (drop_bit 4 lookup) OR sz53_table (A s1)) s1)"

definition op_SBC :: "u8 \<Rightarrow> processor \<Rightarrow> processor" where
  "op_SBC v s =
    (let sbctemp = (ucast (A s) - ucast v - ucast (F s AND FLAG_C) :: u16);
         lookup = lookup8 (A s) v sbctemp;
         s1 = set_A (ucast sbctemp) s
     in set_FQ ((if sbctemp AND 0x100 \<noteq> 0 then FLAG_C else 0) OR FLAG_N OR
                halfcarry_sub_table ! unat (lookup AND 0x07) OR
                overflow_sub_table ! unat (drop_bit 4 lookup) OR sz53_table (A s1)) s1)"

definition op_SUB :: "u8 \<Rightarrow> processor \<Rightarrow> processor" where
  "op_SUB v s =
    (let subtemp = (ucast (A s) - ucast v :: u16);
         lookup = lookup8 (A s) v subtemp;
         s1 = set_A (ucast subtemp) s
     in set_FQ ((if subtemp AND 0x100 \<noteq> 0 then FLAG_C else 0) OR FLAG_N OR
                halfcarry_sub_table ! unat (lookup AND 0x07) OR
                overflow_sub_table ! unat (drop_bit 4 lookup) OR sz53_table (A s1)) s1)"

definition op_CP :: "u8 \<Rightarrow> processor \<Rightarrow> processor" where
  "op_CP v s =
    (let cptemp = (ucast (A s) - ucast v :: u16);
         lookup = lookup8 (A s) v cptemp
     in set_FQ ((if cptemp AND 0x100 \<noteq> 0 then FLAG_C else if cptemp \<noteq> 0 then 0 else FLAG_Z) OR FLAG_N OR
                halfcarry_sub_table ! unat (lookup AND 0x07) OR
                overflow_sub_table ! unat (drop_bit 4 lookup) OR
                (v AND (FLAG_3 OR FLAG_5)) OR (ucast cptemp AND FLAG_S)) s)"

definition op_DEC :: "u8 \<Rightarrow> processor \<Rightarrow> u8 \<times> processor" where
  "op_DEC v s =
    (let f1 = (F s AND FLAG_C) OR (if v AND 0x0f \<noteq> 0 then 0 else FLAG_H) OR FLAG_N;
         v' = v - 1
     in (v', set_FQ (f1 OR (if v' = 0x7f then FLAG_V else 0) OR sz53_table v') s))"

definition op_INC :: "u8 \<Rightarrow> processor \<Rightarrow> u8 \<times> processor" where
  "op_INC v s =
    (let v' = v + 1
     in (v', set_FQ ((F s AND FLAG_C) OR (if v' = 0x80 then FLAG_V else 0) OR
                     (if v' AND 0x0f \<noteq> 0 then 0 else FLAG_H) OR sz53_table v') s))"

definition op_BIT :: "nat \<Rightarrow> u8 \<Rightarrow> processor \<Rightarrow> processor" where
  "op_BIT b v s =
    (let f1 = (F s AND FLAG_C) OR FLAG_H OR (v AND (FLAG_3 OR FLAG_5));
         f2 = (if v AND push_bit b 0x01 = 0 then f1 OR FLAG_P OR FLAG_Z else f1);
         f3 = (if b = 7 \<and> v AND 0x80 \<noteq> 0 then f2 OR FLAG_S else f2)
     in set_FQ f3 s)"

definition op_BIT_MEMPTR :: "nat \<Rightarrow> u8 \<Rightarrow> processor \<Rightarrow> processor" where
  "op_BIT_MEMPTR b v s =
    (let f1 = (F s AND FLAG_C) OR FLAG_H OR (hi (memptr s) AND (FLAG_3 OR FLAG_5));
         f2 = (if v AND push_bit b 0x01 = 0 then f1 OR FLAG_P OR FLAG_Z else f1);
         f3 = (if b = 7 \<and> v AND 0x80 \<noteq> 0 then f2 OR FLAG_S else f2)
     in set_FQ f3 s)"

section \<open>16-bit arithmetic\<close>

definition op_ADC16 :: "u16 \<Rightarrow> processor \<Rightarrow> processor" where
  "op_ADC16 v s =
    (let add16temp = (ucast (HL s) + ucast v + ucast (F s AND FLAG_C) :: u32);
         lookup = lookup16 (HL s) v add16temp;
         s1 = s\<lparr>memptr := HL s + 1\<rparr>;
         s2 = s1\<lparr>HL := ucast add16temp\<rparr>
     in set_FQ ((if add16temp AND 0x10000 \<noteq> 0 then FLAG_C else 0) OR
                overflow_add_table ! unat (drop_bit 4 lookup) OR
                (hi (HL s2) AND (FLAG_3 OR FLAG_5 OR FLAG_S)) OR
                halfcarry_add_table ! unat (lookup AND 0x07) OR
                (if HL s2 \<noteq> 0 then 0 else FLAG_Z)) s2)"

text \<open>\<open>ADD16( value1, value2 )\<close> assigns to its first argument, one of HL, IX and IY.\<close>

definition op_ADD16 :: "u16 \<Rightarrow> u16 \<Rightarrow> processor \<Rightarrow> u16 \<times> processor" where
  "op_ADD16 v1 v2 s =
    (let add16temp = (ucast v1 + ucast v2 :: u32);
         lookup = (ucast (drop_bit 11 (v1 AND 0x0800)) OR ucast (drop_bit 10 (v2 AND 0x0800)) OR
                   ucast (drop_bit 9 (add16temp AND 0x0800)) :: u8);
         s1 = s\<lparr>memptr := v1 + 1\<rparr>
     in (ucast add16temp,
         set_FQ ((F s AND (FLAG_V OR FLAG_Z OR FLAG_S)) OR
                 (if add16temp AND 0x10000 \<noteq> 0 then FLAG_C else 0) OR
                 (ucast (drop_bit 8 add16temp) AND (FLAG_3 OR FLAG_5)) OR
                 halfcarry_add_table ! unat lookup) s1))"

definition op_SBC16 :: "u16 \<Rightarrow> processor \<Rightarrow> processor" where
  "op_SBC16 v s =
    (let sub16temp = (ucast (HL s) - ucast v - ucast (F s AND FLAG_C) :: u32);
         lookup = lookup16 (HL s) v sub16temp;
         s1 = s\<lparr>memptr := HL s + 1\<rparr>;
         s2 = s1\<lparr>HL := ucast sub16temp\<rparr>
     in set_FQ ((if sub16temp AND 0x10000 \<noteq> 0 then FLAG_C else 0) OR FLAG_N OR
                overflow_sub_table ! unat (drop_bit 4 lookup) OR
                (hi (HL s2) AND (FLAG_3 OR FLAG_5 OR FLAG_S)) OR
                halfcarry_sub_table ! unat (lookup AND 0x07) OR
                (if HL s2 \<noteq> 0 then 0 else FLAG_Z)) s2)"

section \<open>Rotates and shifts\<close>

definition op_RL :: "u8 \<Rightarrow> processor \<Rightarrow> u8 \<times> processor" where
  "op_RL v s = (let v' = push_bit 1 v OR (F s AND FLAG_C)
                in (v', set_FQ (drop_bit 7 v OR sz53p_table v') s))"

definition op_RLC :: "u8 \<Rightarrow> processor \<Rightarrow> u8 \<times> processor" where
  "op_RLC v s = (let v' = push_bit 1 v OR drop_bit 7 v
                 in (v', set_FQ ((v' AND FLAG_C) OR sz53p_table v') s))"

definition op_RR :: "u8 \<Rightarrow> processor \<Rightarrow> u8 \<times> processor" where
  "op_RR v s = (let v' = drop_bit 1 v OR push_bit 7 (F s)
                in (v', set_FQ ((v AND FLAG_C) OR sz53p_table v') s))"

definition op_RRC :: "u8 \<Rightarrow> processor \<Rightarrow> u8 \<times> processor" where
  "op_RRC v s = (let f1 = v AND FLAG_C; v' = drop_bit 1 v OR push_bit 7 v
                 in (v', set_FQ (f1 OR sz53p_table v') s))"

definition op_SLA :: "u8 \<Rightarrow> processor \<Rightarrow> u8 \<times> processor" where
  "op_SLA v s = (let f1 = drop_bit 7 v; v' = push_bit 1 v
                 in (v', set_FQ (f1 OR sz53p_table v') s))"

definition op_SLL :: "u8 \<Rightarrow> processor \<Rightarrow> u8 \<times> processor" where
  "op_SLL v s = (let f1 = drop_bit 7 v; v' = push_bit 1 v OR 0x01
                 in (v', set_FQ (f1 OR sz53p_table v') s))"

definition op_SRA :: "u8 \<Rightarrow> processor \<Rightarrow> u8 \<times> processor" where
  "op_SRA v s = (let f1 = v AND FLAG_C; v' = (v AND 0x80) OR drop_bit 1 v
                 in (v', set_FQ (f1 OR sz53p_table v') s))"

definition op_SRL :: "u8 \<Rightarrow> processor \<Rightarrow> u8 \<times> processor" where
  "op_SRL v s = (let f1 = v AND FLAG_C; v' = drop_bit 1 v
                 in (v', set_FQ (f1 OR sz53p_table v') s))"

section \<open>The specification of the flags\<close>

text \<open>\<open>flags_are f S Z 5 H 3 PV N C\<close>: the eight bits of the flag byte, highest first.\<close>

definition flags_are :: "u8 \<Rightarrow> bool \<Rightarrow> bool \<Rightarrow> bool \<Rightarrow> bool \<Rightarrow> bool \<Rightarrow> bool \<Rightarrow> bool \<Rightarrow> bool \<Rightarrow> bool" where
  "flags_are f fS fZ f5 fH f3 fV fN fC \<longleftrightarrow>
     (bit f 7 \<longleftrightarrow> fS) \<and> (bit f 6 \<longleftrightarrow> fZ) \<and> (bit f 5 \<longleftrightarrow> f5) \<and> (bit f 4 \<longleftrightarrow> fH) \<and>
     (bit f 3 \<longleftrightarrow> f3) \<and> (bit f 2 \<longleftrightarrow> fV) \<and> (bit f 1 \<longleftrightarrow> fN) \<and> (bit f 0 \<longleftrightarrow> fC)"

text \<open>The carry as a number, the parity of a byte, and the outcome of a shift: the new value, its flags and the bit shifted out.\<close>

definition carry_in :: "processor \<Rightarrow> nat" where
  "carry_in s = of_bool (bit (F s) 0)"

definition even_parity :: "u8 \<Rightarrow> bool" where
  "even_parity v \<longleftrightarrow> even (\<Sum>n<8. of_bool (bit v n) :: nat)"

definition shift_flags :: "u8 \<times> processor \<Rightarrow> u8 \<Rightarrow> bool \<Rightarrow> bool" where
  "shift_flags r v c \<longleftrightarrow> fst r = v \<and> flags_are (F (snd r)) (bit v 7) (v = 0) (bit v 5) False (bit v 3)
     (even_parity v) False c"

section \<open>What the tables hold\<close>

lemma sz53_nth: "sz53_table i = (if i = 0 then FLAG_Z else i AND (FLAG_3 OR FLAG_5 OR FLAG_S))"
proof -
  have lt: "unat i < 256" using unat_u8_bound[of i] .
  show ?thesis
    using lt by (simp add: sz53_table_def z80_init_tables_def Let_def nth_list_update unat_eq_zero)
qed

lemma init_parity_sum:
  "init_parity k j p = p XOR of_bool (odd (\<Sum>n<k. of_bool (bit j n) :: nat))"
proof (induction k arbitrary: j p)
  case 0 then show ?case by simp
next
  case (Suc k)
  have "j AND 1 = of_bool (bit j 0)" by (simp add: and_one_eq mod_2_eq_odd bit_0)
  moreover have "(\<Sum>n<Suc k. of_bool (bit j n)) = of_bool (bit j 0) + (\<Sum>n<k. of_bool (bit (drop_bit 1 j) n) :: nat)"
    by (subst sum.lessThan_Suc_shift) (simp add: bit_drop_bit_eq del: sum.lessThan_Suc)
  ultimately show ?case
    by (simp add: Suc.IH xor.assoc del: sum.lessThan_Suc)
qed

lemma parity_nth: "parity_table i = (if even (\<Sum>n<8. of_bool (bit i n) :: nat) then FLAG_P else 0)"
proof -
  have lt: "unat i < 256" using unat_u8_bound[of i] .
  show ?thesis
    using lt by (simp add: parity_table_def z80_init_tables_def Let_def init_parity_sum del: sum.lessThan_Suc)
qed

lemma sz53p_nth: "sz53p_table i = sz53_table i OR parity_table i"
proof -
  have lt: "unat i < 256" using unat_u8_bound[of i] .
  show ?thesis
  proof (cases "i = 0")
    case True
    then show ?thesis by (simp add: sz53p_table_def sz53_table_def parity_table_def z80_init_tables_def Let_def or.commute)
  next
    case False
    then have "unat i \<noteq> 0" by (simp add: unat_eq_zero)
    then show ?thesis using lt by (simp add: sz53p_table_def sz53_table_def parity_table_def z80_init_tables_def Let_def)
  qed
qed

lemma half_add_index:
  "halfcarry_add_table ! (of_bool a + 2 * of_bool b + 4 * of_bool r) =
     (if (a \<and> b) \<or> ((a \<or> b) \<and> \<not> r) then FLAG_H else 0)"
  by (simp add: halfcarry_add_table_def)
lemma half_sub_index:
  "halfcarry_sub_table ! (of_bool a + 2 * of_bool b + 4 * of_bool r) =
     (if (\<not> a \<and> b) \<or> ((\<not> a \<or> b) \<and> r) then FLAG_H else 0)"
  by (simp add: halfcarry_sub_table_def)
lemma over_add_index:
  "overflow_add_table ! (of_bool a + 2 * of_bool b + 4 * of_bool r) =
     (if (a \<and> b \<and> \<not> r) \<or> (\<not> a \<and> \<not> b \<and> r) then FLAG_V else 0)"
  by (simp add: overflow_add_table_def)
lemma over_sub_index:
  "overflow_sub_table ! (of_bool a + 2 * of_bool b + 4 * of_bool r) =
     (if (a \<and> \<not> b \<and> \<not> r) \<or> (\<not> a \<and> b \<and> r) then FLAG_V else 0)"
  by (simp add: overflow_sub_table_def)

lemma pack3: 
  assumes "x = (of_bool a OR push_bit 1 (of_bool b) OR push_bit 2 (of_bool c) :: u8)"
  shows "unat x = of_bool a + 2 * of_bool b + 4 * of_bool c"
  using assms by simp

lemma lookup8_low: "lookup8 a v t AND 0x07 = of_bool (bit a 3) OR push_bit 1 (of_bool (bit v 3)) OR push_bit 2 (of_bool (bit t 3))"
  by (rule u8_eqI) (simp_all add: lookup8_def bit_simps numeral_3_eq_3)
lemma lookup8_high: "drop_bit 4 (lookup8 a v t) = of_bool (bit a 7) OR push_bit 1 (of_bool (bit v 7)) OR push_bit 2 (of_bool (bit t 7))"
  by (rule u8_eqI) (simp_all add: lookup8_def bit_simps numeral_3_eq_3)
lemma lookup16_low: "lookup16 a v t AND 0x07 = of_bool (bit a 11) OR push_bit 1 (of_bool (bit v 11)) OR push_bit 2 (of_bool (bit t 11))"
  by (rule u8_eqI) (simp_all add: lookup16_def bit_simps)
lemma lookup16_high: "drop_bit 4 (lookup16 a v t) = of_bool (bit a 15) OR push_bit 1 (of_bool (bit v 15)) OR push_bit 2 (of_bool (bit t 15))"
  by (rule u8_eqI) (simp_all add: lookup16_def bit_simps)

section \<open>The meaning of the flags\<close>

lemma flags_are_inject: "flags_are f a b c d e g h i \<Longrightarrow> flags_are f' a b c d e g h i \<Longrightarrow> f = f'"
  unfolding flags_are_def by (intro u8_eqI) simp_all

lemma unat_carry_in: "unat (F s AND FLAG_C) = carry_in s"
  by (simp add: carry_in_def FLAG_C_def and_one_eq bit_0 mod_2_eq_odd)

lemma carry_in_le: "carry_in s \<le> 1"
  by (simp add: carry_in_def)

lemma flags_compose8:
  "flags_are ((if fC then FLAG_C else 0) OR (if fH then FLAG_H else 0) OR (if fV then FLAG_V else 0) OR sz53_table r)
     (bit r 7) (r = 0) (bit r 5) fH (bit r 3) fV False fC"
  "flags_are ((if fC then FLAG_C else 0) OR FLAG_N OR (if fH then FLAG_H else 0) OR (if fV then FLAG_V else 0) OR sz53_table r)
     (bit r 7) (r = 0) (bit r 5) fH (bit r 3) fV True fC"
  by (auto simp: flags_are_def sz53_nth flag_defs bit_simps)

section \<open>8-bit additions and subtractions\<close>

lemma add8_bits:
  fixes a v :: u8 and t :: u16
  assumes c: "c \<le> 1" and t: "unat t = unat a + unat v + c"
  shows "bit t 8 \<longleftrightarrow> 256 \<le> unat a + unat v + c"
    "(bit a 3 \<and> bit v 3) \<or> ((bit a 3 \<or> bit v 3) \<and> \<not> bit t 3) \<longleftrightarrow> 16 \<le> unat a mod 16 + unat v mod 16 + c"
    "(bit a 7 \<and> bit v 7 \<and> \<not> bit t 7) \<or> (\<not> bit a 7 \<and> \<not> bit v 7 \<and> bit t 7) \<longleftrightarrow>
       sint a + sint v + int c \<notin> {-128..<128}"
  using top_bit [of "unat t" 256] carry_out [of 8 c "unat a" "unat v"]
    overflow_add [of "unat a" 128 "unat v" c] c t unat_u8_bound [of a] unat_u8_bound [of v]
  by (simp_all add: bit_unat_word sint_u8)

lemma sub8_bits:
  fixes a v :: u8 and t :: u16
  assumes c: "c \<le> 1" and t: "unat a + 65536 * K = unat v + unat t + c"
  shows "bit t 8 \<longleftrightarrow> unat a < unat v + c"
    "(\<not> bit a 3 \<and> bit v 3) \<or> ((\<not> bit a 3 \<or> bit v 3) \<and> bit t 3) \<longleftrightarrow> unat a mod 16 < unat v mod 16 + c"
    "(bit a 7 \<and> \<not> bit v 7 \<and> \<not> bit t 7) \<or> (\<not> bit a 7 \<and> bit v 7 \<and> bit t 7) \<longleftrightarrow>
       sint a - sint v - int c \<notin> {-128..<128}"
proof -
  have eqs: "unat a + 2 * 8 * (4096 * K) = unat v + unat t + c" "unat a + 2 * 128 * (256 * K) = unat v + unat t + c"
    using t by simp_all
  have "odd (unat t div 256) \<longleftrightarrow> unat a < unat v + c"
  proof (cases "unat v + c \<le> unat a")
    case True
    have "unat t < 256 \<or> 65536 \<le> unat t" using t True unat_u8_bound [of a] by (cases K) auto
    then have "unat t < 256" using unat_u16_bound [of t] by simp
    with True show ?thesis by simp
  next
    case False
    then have K: "K \<noteq> 0" using t by (cases K) auto
    have "K < 2" using t unat_u16_bound [of t] unat_u8_bound [of v] c by linarith
    with K have "unat t = unat a + 65536 - unat v - c" using t by simp
    then have "unat t div 256 = 255" using False unat_u8_bound [of v] c by (intro div_nat_eqI) auto
    with False show ?thesis by simp
  qed
  then show "bit t 8 \<longleftrightarrow> unat a < unat v + c" by (simp add: bit_unat_word)
  show "(\<not> bit a 3 \<and> bit v 3) \<or> ((\<not> bit a 3 \<or> bit v 3) \<and> bit t 3) \<longleftrightarrow> unat a mod 16 < unat v mod 16 + c"
    using borrow_out [OF _ c eqs(1)] by (simp add: bit_unat_word)
  show "(bit a 7 \<and> \<not> bit v 7 \<and> \<not> bit t 7) \<or> (\<not> bit a 7 \<and> bit v 7 \<and> bit t 7) \<longleftrightarrow>
       sint a - sint v - int c \<notin> {-128..<128}"
    using overflow_sub [OF _ _ _ c eqs(2)] unat_u8_bound [of a] unat_u8_bound [of v]
    by (simp add: bit_unat_word sint_u8)
qed

lemma carry_in_word: "F s AND FLAG_C = of_nat (carry_in s)"
  by (simp add: carry_in_def FLAG_C_def and_one_eq bit_0 mod_2_eq_odd)

lemma ucast_carry_in:
  "ucast (of_nat (carry_in s) :: 'b::len word) = (of_nat (carry_in s) :: 'a::len word)"
  by (simp add: carry_in_def)

lemma op_add_A:
  "A (op_ADD v s) = A s + v" "A (op_ADC v s) = A s + v + of_nat (carry_in s)"
  "A (op_SUB v s) = A s - v" "A (op_SBC v s) = A s - v - of_nat (carry_in s)" "A (op_CP v s) = A s"
  by (simp_all add: op_ADD_def op_ADC_def op_SUB_def op_SBC_def op_CP_def Let_def
      ucast_down_add ucast_down_diff ucast_up_down carry_in_word ucast_carry_in)

lemma op_ADC_F:
  "flags_are (F (op_ADC v s)) (bit (A (op_ADC v s)) 7) (A (op_ADC v s) = 0) (bit (A (op_ADC v s)) 5)
      (16 \<le> unat (A s) mod 16 + unat v mod 16 + carry_in s) (bit (A (op_ADC v s)) 3)
      (sint (A s) + sint v + int (carry_in s) \<notin> {-128..<128}) False (256 \<le> unat (A s) + unat v + carry_in s)"
proof -
  define t where "t = (ucast (A s) + ucast v + ucast (F s AND FLAG_C) :: u16)"
  have t: "unat t = unat (A s) + unat v + carry_in s"
    unfolding t_def using unat_u8_bound [of "A s"] unat_u8_bound [of v] carry_in_le [of s]
    by (simp add: unat_word_ariths unat_carry_in)
  show ?thesis
    unfolding op_ADC_def Let_def t_def [symmetric] AF_access mask_bits not_not
      pack3 [OF lookup8_low] pack3 [OF lookup8_high] half_add_index over_add_index add8_bits [OF carry_in_le t]
    by (simp add: flags_compose8(1) [simplified])
qed

lemma op_ADD_F:
  "flags_are (F (op_ADD v s)) (bit (A (op_ADD v s)) 7) (A (op_ADD v s) = 0) (bit (A (op_ADD v s)) 5)
      (16 \<le> unat (A s) mod 16 + unat v mod 16) (bit (A (op_ADD v s)) 3)
      (sint (A s) + sint v \<notin> {-128..<128}) False (256 \<le> unat (A s) + unat v)"
proof -
  define t where "t = (ucast (A s) + ucast v :: u16)"
  have t: "unat t = unat (A s) + unat v + 0"
    unfolding t_def using unat_u8_bound [of "A s"] unat_u8_bound [of v]
    by (simp add: unat_word_ariths)
  show ?thesis
    using flags_compose8(1) [of "256 \<le> unat (A s) + unat v" "16 \<le> unat (A s) mod 16 + unat v mod 16"
       "sint (A s) + sint v \<notin> {-128..<128}" "ucast t"] add8_bits [OF _ t]
    unfolding op_ADD_def Let_def t_def [symmetric] AF_access mask_bits not_not
      pack3 [OF lookup8_low] pack3 [OF lookup8_high] half_add_index over_add_index 
    by simp
qed

lemma op_SBC_F:
  "flags_are (F (op_SBC v s)) (bit (A (op_SBC v s)) 7) (A (op_SBC v s) = 0) (bit (A (op_SBC v s)) 5)
      (unat (A s) mod 16 < unat v mod 16 + carry_in s) (bit (A (op_SBC v s)) 3)
      (sint (A s) - sint v - int (carry_in s) \<notin> {-128..<128}) True (unat (A s) < unat v + carry_in s)"
proof -
  define t where "t = (ucast (A s) - ucast v - ucast (F s AND FLAG_C) :: u16)"
  obtain K where t: "unat (A s) + 65536 * K = unat v + unat t + carry_in s"
    using word_diff_wraps [OF t_def] by (auto simp: unat_carry_in)
  show ?thesis
    unfolding op_SBC_def Let_def t_def [symmetric] AF_access mask_bits not_not
      pack3 [OF lookup8_low] pack3 [OF lookup8_high] half_sub_index over_sub_index sub8_bits [OF carry_in_le t]
    by (simp add: flags_compose8(2) [simplified])
qed

lemma op_SUB_F:
  "flags_are (F (op_SUB v s)) (bit (A (op_SUB v s)) 7) (A (op_SUB v s) = 0) (bit (A (op_SUB v s)) 5)
      (unat (A s) mod 16 < unat v mod 16) (bit (A (op_SUB v s)) 3)
      (sint (A s) - sint v \<notin> {-128..<128}) True (unat (A s) < unat v)"
proof -
  define t where "t = (ucast (A s) - ucast v :: u16)"
  have "t = ucast (A s) - ucast v - 0" by (simp add: t_def)
  then obtain K where t: "unat (A s) + 65536 * K = unat v + unat t + 0"
    by (rule word_diff_wraps) simp
  show ?thesis
    using flags_compose8(2) [of "unat (A s) < unat v" "unat (A s) mod 16 < unat v mod 16"
       "sint (A s) - sint v \<notin> {-128..<128}" "ucast t"] sub8_bits [OF _ t]
    unfolding op_SUB_def Let_def t_def [symmetric] AF_access mask_bits not_not
      pack3 [OF lookup8_low] pack3 [OF lookup8_high] half_sub_index over_sub_index 
    by simp
qed

lemma op_CP_F:
  "flags_are (F (op_CP v s)) (bit (A s - v) 7) (A s = v) (bit v 5)
      (unat (A s) mod 16 < unat v mod 16) (bit v 3)
      (sint (A s) - sint v \<notin> {-128..<128}) True (unat (A s) < unat v)"
proof -
  define t where "t = (ucast (A s) - ucast v :: u16)"
  have "t = ucast (A s) - ucast v - 0" by (simp add: t_def)
  then obtain K where t: "unat (A s) + 65536 * K = unat v + unat t + 0"
    by (rule word_diff_wraps) simp
  have t0: "t = 0 \<longleftrightarrow> A s = v" unfolding t_def
    by (metis (no_types) diff_self eq_iff_diff_eq_0 ucast_up_down(1))
  have t7: "bit t 7 \<longleftrightarrow> bit (A s - v) 7"
  proof -
    have "ucast t = A s - v" by (simp add: t_def ucast_down_diff ucast_up_down)
    then have "bit (A s - v) 7 = bit (ucast t :: u8) 7" by simp
    then show ?thesis by (simp add: bit_simps)
  qed
  note b = sub8_bits [OF _ t]
  have "F (op_CP v s) = (if unat (A s) < unat v then FLAG_C else if A s \<noteq> v then 0 else FLAG_Z) OR FLAG_N OR
     (if unat (A s) mod 16 < unat v mod 16 then FLAG_H else 0) OR
     (if sint (A s) - sint v \<notin> {-128..<128} then FLAG_V else 0) OR (v AND (FLAG_3 OR FLAG_5)) OR (ucast t AND FLAG_S)"
    using b unfolding op_CP_def Let_def t_def [symmetric] AF_access mask_bits not_not t0
      pack3 [OF lookup8_low] pack3 [OF lookup8_high] half_sub_index over_sub_index by simp
  then show ?thesis using t7
    by (auto simp: flags_are_def flag_defs bit_simps)
qed

section \<open>16-bit additions and subtractions\<close>

lemma add16_bits:
  fixes a v :: u16 and t :: u32
  assumes c: "c \<le> 1" and t: "unat t = unat a + unat v + c"
  shows "bit t 16 \<longleftrightarrow> 65536 \<le> unat a + unat v + c"
    "(bit a 11 \<and> bit v 11) \<or> ((bit a 11 \<or> bit v 11) \<and> \<not> bit t 11) \<longleftrightarrow> 4096 \<le> unat a mod 4096 + unat v mod 4096 + c"
    "(bit a 15 \<and> bit v 15 \<and> \<not> bit t 15) \<or> (\<not> bit a 15 \<and> \<not> bit v 15 \<and> bit t 15) \<longleftrightarrow>
       sint a + sint v + int c \<notin> {-32768..<32768}"
  using top_bit [of "unat t" 65536] carry_out [of 2048 c "unat a" "unat v"]
    overflow_add [of "unat a" 32768 "unat v" c] c t unat_u16_bound [of a] unat_u16_bound [of v]
  by (simp_all add: bit_unat_word sint_u16)

lemma sub16_bits:
  fixes a v :: u16 and t :: u32
  assumes c: "c \<le> 1" and t: "unat a + 4294967296 * K = unat v + unat t + c"
  shows "bit t 16 \<longleftrightarrow> unat a < unat v + c"
    "(\<not> bit a 11 \<and> bit v 11) \<or> ((\<not> bit a 11 \<or> bit v 11) \<and> bit t 11) \<longleftrightarrow> unat a mod 4096 < unat v mod 4096 + c"
    "(bit a 15 \<and> \<not> bit v 15 \<and> \<not> bit t 15) \<or> (\<not> bit a 15 \<and> bit v 15 \<and> bit t 15) \<longleftrightarrow>
       sint a - sint v - int c \<notin> {-32768..<32768}"
proof -
  have eqs: "unat a + 2 * 2048 * (1048576 * K) = unat v + unat t + c" "unat a + 2 * 32768 * (65536 * K) = unat v + unat t + c"
    using t by simp_all
  have "odd (unat t div 65536) \<longleftrightarrow> unat a < unat v + c"
  proof (cases "unat v + c \<le> unat a")
    case True
    have "unat t < 65536 \<or> 4294967296 \<le> unat t" using t True unat_u16_bound [of a] by (cases K) auto
    then have "unat t < 65536" using unat_u32_bound [of t] by simp
    with True show ?thesis by simp
  next
    case False
    then have K: "K \<noteq> 0" using t by (cases K) auto
    have "K < 2" using t unat_u32_bound [of t] unat_u16_bound [of v] c by linarith
    with K have "unat t = unat a + 4294967296 - unat v - c" using t by simp
    then have "unat t div 65536 = 65535" using False unat_u16_bound [of v] c by (intro div_nat_eqI) auto
    with False show ?thesis by simp
  qed
  then show "bit t 16 \<longleftrightarrow> unat a < unat v + c" by (simp add: bit_unat_word)
  show "(\<not> bit a 11 \<and> bit v 11) \<or> ((\<not> bit a 11 \<or> bit v 11) \<and> bit t 11) \<longleftrightarrow> unat a mod 4096 < unat v mod 4096 + c"
    using borrow_out [OF _ c eqs(1)] by (simp add: bit_unat_word)
  show "(bit a 15 \<and> \<not> bit v 15 \<and> \<not> bit t 15) \<or> (\<not> bit a 15 \<and> bit v 15 \<and> bit t 15) \<longleftrightarrow>
       sint a - sint v - int c \<notin> {-32768..<32768}"
    using overflow_sub [OF _ _ _ c eqs(2)] unat_u16_bound [of a] unat_u16_bound [of v]
    by (simp add: bit_unat_word sint_u16)
qed

lemma hi_bits: "bit (hi w) n \<longleftrightarrow> n < 8 \<and> bit w (n + 8)"
  by (auto simp: hi_def bit_simps add.commute)

lemma flags_compose16:
  "flags_are ((if fC then FLAG_C else 0) OR (if fV then FLAG_V else 0) OR (hi r AND (FLAG_3 OR FLAG_5 OR FLAG_S)) OR
      (if fH then FLAG_H else 0) OR (if r \<noteq> 0 then 0 else FLAG_Z))
     (bit r 15) (r = 0) (bit r 13) fH (bit r 11) fV False fC"
  "flags_are ((if fC then FLAG_C else 0) OR FLAG_N OR (if fV then FLAG_V else 0) OR (hi r AND (FLAG_3 OR FLAG_5 OR FLAG_S)) OR
      (if fH then FLAG_H else 0) OR (if r \<noteq> 0 then 0 else FLAG_Z))
     (bit r 15) (r = 0) (bit r 13) fH (bit r 11) fV True fC"
  by (auto simp: flags_are_def flag_defs bit_simps hi_bits)

lemma op_16_HL:
  "HL (op_ADC16 v s) = HL s + v + of_nat (carry_in s)" "HL (op_SBC16 v s) = HL s - v - of_nat (carry_in s)"
  "fst (op_ADD16 w v s) = w + v"
  by (simp_all add: op_ADC16_def op_SBC16_def op_ADD16_def Let_def
      ucast_down_add ucast_down_diff ucast_up_down carry_in_word ucast_carry_in)

lemma op_ADC16_F:
  "flags_are (F (op_ADC16 v s)) (bit (HL (op_ADC16 v s)) 15) (HL (op_ADC16 v s) = 0) (bit (HL (op_ADC16 v s)) 13)
      (4096 \<le> unat (HL s) mod 4096 + unat v mod 4096 + carry_in s) (bit (HL (op_ADC16 v s)) 11)
      (sint (HL s) + sint v + int (carry_in s) \<notin> {-32768..<32768}) False
      (65536 \<le> unat (HL s) + unat v + carry_in s)"
proof -
  define t where "t = (ucast (HL s) + ucast v + ucast (F s AND FLAG_C) :: u32)"
  have t: "unat t = unat (HL s) + unat v + carry_in s"
    unfolding t_def using unat_u16_bound [of "HL s"] unat_u16_bound [of v] carry_in_le [of s]
    by (simp add: unat_word_ariths unat_carry_in)
  show ?thesis
    unfolding op_ADC16_def Let_def t_def [symmetric] AF_access AF_frame mask_bits not_not
      pack3 [OF lookup16_low] pack3 [OF lookup16_high] half_add_index over_add_index add16_bits [OF carry_in_le t]
    by (simp add: flags_compose16(1) [simplified])
qed

lemma op_SBC16_F:
  "flags_are (F (op_SBC16 v s)) (bit (HL (op_SBC16 v s)) 15) (HL (op_SBC16 v s) = 0) (bit (HL (op_SBC16 v s)) 13)
      (unat (HL s) mod 4096 < unat v mod 4096 + carry_in s) (bit (HL (op_SBC16 v s)) 11)
      (sint (HL s) - sint v - int (carry_in s) \<notin> {-32768..<32768}) True
      (unat (HL s) < unat v + carry_in s)"
proof -
  define t where "t = (ucast (HL s) - ucast v - ucast (F s AND FLAG_C) :: u32)"
  obtain K where t: "unat (HL s) + 4294967296 * K = unat v + unat t + carry_in s"
    using word_diff_wraps [OF t_def] by (auto simp: unat_carry_in)
  show ?thesis
    unfolding op_SBC16_def Let_def t_def [symmetric] AF_access AF_frame mask_bits not_not
      pack3 [OF lookup16_low] pack3 [OF lookup16_high] half_sub_index over_sub_index sub16_bits [OF carry_in_le t]
    by (simp add: flags_compose16(2) [simplified])
qed

lemma op_ADD16_F:
  "flags_are (F (snd (op_ADD16 w v s))) (bit (F s) 7) (bit (F s) 6) (bit (w + v) 13)
      (4096 \<le> unat w mod 4096 + unat v mod 4096) (bit (w + v) 11) (bit (F s) 2) False
      (65536 \<le> unat w + unat v)"
proof -
  define t where "t = (ucast w + ucast v :: u32)"
  have t: "unat t = unat w + unat v + 0"
    unfolding t_def using unat_u16_bound [of w] unat_u16_bound [of v] by (simp add: unat_word_ariths)
  have wv: "w + v = ucast t" by (simp add: t_def ucast_down_add ucast_up_down)
  have l: "(ucast (drop_bit 11 (w AND 0x0800)) OR ucast (drop_bit 10 (v AND 0x0800)) OR
                   ucast (drop_bit 9 (t AND 0x0800)) :: u8)
      = of_bool (bit w 11) OR push_bit 1 (of_bool (bit v 11)) OR push_bit 2 (of_bool (bit t 11))"
    by (rule u8_eqI) (simp_all add: bit_simps)
  show ?thesis
    using add16_bits [OF _ t]
    unfolding op_ADD16_def Let_def t_def [symmetric] AF_access AF_frame mask_bits not_not snd_conv wv
      pack3 [OF l] half_add_index over_add_index
    by (simp add: flags_are_def flag_defs bit_simps)
qed

section \<open>Increments, logic and shifts\<close>

lemma low_nibble_zero: "(v :: u8) AND 0x0f = 0 \<longleftrightarrow> unat v mod 16 = 0"
proof -
  have "unat v AND 15 = unat v mod 16"
    using take_bit_eq_mask [of 4 "unat v"] by (simp add: take_bit_eq_mod mask_eq_exp_minus_1)
  then show ?thesis by (simp add: word_unat_eq_iff unsigned_and_eq)
qed

lemma nibble_carry: "unat ((v :: u8) + 1) mod 16 = 0 \<longleftrightarrow> 16 \<le> unat v mod 16 + 1"
proof -
  have "unat (v + 1) mod 16 = Suc (unat v) mod 256 mod 16" by (simp add: unat_word_ariths)
  also have "\<dots> = Suc (unat v) mod 16" by (simp add: mod_mod_cancel)
  finally have "unat (v + 1) mod 16 = (if Suc (unat v mod 16) = 16 then 0 else Suc (unat v mod 16))"
    by (simp add: mod_Suc)
  moreover have "unat v mod 16 < 16" by simp
  ultimately show ?thesis by (metis add.commute linorder_not_le nat.discI plus_1_eq_Suc Suc_leI le_antisym)
qed

lemma signed_step:
  fixes n :: nat assumes "n < 256"
  shows "Suc n mod 256 = 128 \<longleftrightarrow> signed_of 128 n + 1 \<notin> {-128..<128}"
    "n = 128 \<longleftrightarrow> signed_of 128 n - 1 \<notin> {-128..<128}"
  using assms by (auto simp: signed_of_def mod_Suc)

lemma inc_overflow: "(v :: u8) + 1 = 0x80 \<longleftrightarrow> sint v + 1 \<notin> {-128..<128}"
  unfolding sint_u8 signed_step(1) [OF unat_u8_bound, symmetric]
  by (simp add: word_unat_eq_iff unat_word_ariths)

lemma dec_overflow: "(v :: u8) - 1 = 0x7f \<longleftrightarrow> sint v - 1 \<notin> {-128..<128}"
proof -
  have "v - 1 = 0x7f \<longleftrightarrow> v = 0x80" by (auto simp: diff_eq_eq)
  then show ?thesis
    unfolding sint_u8 signed_step(2) [OF unat_u8_bound, symmetric] by (simp add: word_unat_eq_iff)
qed

lemma flags_compose_step:
  "flags_are ((f AND FLAG_C) OR (if fV then FLAG_V else 0) OR (if \<not> fH then 0 else FLAG_H) OR sz53_table r)
     (bit r 7) (r = 0) (bit r 5) fH (bit r 3) fV False (bit f 0)"
  "flags_are ((f AND FLAG_C) OR (if \<not> fH then 0 else FLAG_H) OR FLAG_N OR (if fV then FLAG_V else 0) OR sz53_table r)
     (bit r 7) (r = 0) (bit r 5) fH (bit r 3) fV True (bit f 0)"
  by (auto simp: flags_are_def sz53_nth flag_defs bit_simps)

lemma op_INC_F:
  "flags_are (F (snd (op_INC v s))) (bit (v + 1) 7) (v + 1 = 0) (bit (v + 1) 5) (16 \<le> unat v mod 16 + 1)
      (bit (v + 1) 3) (sint v + 1 \<notin> {-128..<128}) False (bit (F s) 0)"
  unfolding op_INC_def Let_def snd_conv AF_access low_nibble_zero nibble_carry inc_overflow
  by (rule flags_compose_step(1))

lemma op_DEC_F:
  "flags_are (F (snd (op_DEC v s))) (bit (v - 1) 7) (v - 1 = 0) (bit (v - 1) 5) (unat v mod 16 = 0)
      (bit (v - 1) 3) (sint v - 1 \<notin> {-128..<128}) True (bit (F s) 0)"
  unfolding op_DEC_def Let_def snd_conv AF_access low_nibble_zero dec_overflow
  using flags_compose_step(2) by (simp only: or.assoc)

lemma sz53p_bits:
  "bit (sz53p_table v) 7 = bit v 7" "bit (sz53p_table v) 6 = (v = 0)" "bit (sz53p_table v) 5 = bit v 5"
  "\<not> bit (sz53p_table v) 4" "bit (sz53p_table v) 3 = bit v 3" "bit (sz53p_table v) 2 = even_parity v"
  "\<not> bit (sz53p_table v) 1" "\<not> bit (sz53p_table v) (Suc 0)" "\<not> bit (sz53p_table v) 0"
  by (auto simp: sz53p_nth sz53_nth parity_nth even_parity_def flag_defs bit_simps simp del: sum.lessThan_Suc)

lemma logic_F:
  "flags_are (F (op_AND v s)) (bit (A s AND v) 7) (A s AND v = 0) (bit (A s AND v) 5) True
      (bit (A s AND v) 3) (even_parity (A s AND v)) False False"
  "flags_are (F (op_OR v s)) (bit (A s OR v) 7) (A s OR v = 0) (bit (A s OR v) 5) False
      (bit (A s OR v) 3) (even_parity (A s OR v)) False False"
  "flags_are (F (op_XOR v s)) (bit (A s XOR v) 7) (A s XOR v = 0) (bit (A s XOR v) 5) False
      (bit (A s XOR v) 3) (even_parity (A s XOR v)) False False"
  by (auto simp: op_AND_def op_OR_def op_XOR_def Let_def flags_are_def sz53p_bits bit_or_iff FLAG_H_def)

lemma shift_flagsI: "x = of_bool c \<Longrightarrow> shift_flags (v, set_FQ (x OR sz53p_table v) s) v c"
  by (simp add: shift_flags_def flags_are_def sz53p_bits bit_or_iff)

lemma low_bit_out: "(v :: u8) AND FLAG_C = of_bool (bit v 0)"
  by (rule u8_eqI) (auto simp: bit_simps FLAG_C_def)

lemma top_bit_out:
  "drop_bit 7 (v :: u8) = of_bool (bit v 7)"
  "(push_bit 1 (v :: u8) OR drop_bit 7 v) AND FLAG_C = of_bool (bit v 7)"
proof -
  show "drop_bit 7 v = of_bool (bit v 7)"
    by (rule u8_eqI; auto simp: bit_simps dest: bit_imp_le_length)
  have "bit (push_bit 1 v OR drop_bit 7 v) 0 = bit v 7"
    by (simp only: bit_or_iff bit_push_bit_iff bit_drop_bit_eq) simp
  then show "(push_bit 1 v OR drop_bit 7 v) AND FLAG_C = of_bool (bit v 7)"
    by (simp only: low_bit_out)
qed

lemma rotate_F:
  "shift_flags (op_RLC v s) (push_bit 1 v OR drop_bit 7 v) (bit v 7)"
  "shift_flags (op_RL v s) (push_bit 1 v OR of_bool (bit (F s) 0)) (bit v 7)"
  "shift_flags (op_SLA v s) (push_bit 1 v) (bit v 7)"
  "shift_flags (op_SLL v s) (push_bit 1 v OR 1) (bit v 7)"
  "shift_flags (op_RRC v s) (drop_bit 1 v OR push_bit 7 v) (bit v 0)"
  "shift_flags (op_RR v s) (drop_bit 1 v OR push_bit 7 (F s)) (bit v 0)"
  "shift_flags (op_SRA v s) ((v AND 0x80) OR drop_bit 1 v) (bit v 0)"
  "shift_flags (op_SRL v s) (drop_bit 1 v) (bit v 0)"
  unfolding op_RLC_def op_RL_def op_SLA_def op_SLL_def op_RRC_def op_RR_def op_SRA_def op_SRL_def Let_def
    low_bit_out(1) [of "F s"]
  by (rule shift_flagsI; rule top_bit_out low_bit_out)+


lemma RLC_RRC_inverse:
  "fst (op_RRC (fst (op_RLC v s)) s') = v" "fst (op_RLC (fst (op_RRC v s)) s') = v"
proof -
  have "bit (fst (op_RRC (fst (op_RLC v s)) s')) n = bit v n \<and> bit (fst (op_RLC (fst (op_RRC v s)) s')) n = bit v n" if "n < 8" for n
    using that unfolding op_RRC_def op_RLC_def Let_def fst_conv bit_or_iff bit_push_bit_iff bit_drop_bit_eq o_def
    by (cases "n = 7"; cases n) (auto dest: bit_imp_le_length)
  then show "fst (op_RRC (fst (op_RLC v s)) s') = v" "fst (op_RLC (fst (op_RRC v s)) s') = v"
    by (auto intro!: bit_word_eqI)
qed

lemma RL_RR_inverse:
  "fst (op_RR (fst (op_RL v s)) (snd (op_RL v s))) = v" (is ?a)
  "fst (op_RL (fst (op_RR v s)) (snd (op_RR v s))) = v" (is ?b)
  "bit (F (snd (op_RR (fst (op_RL v s)) (snd (op_RL v s))))) 0 = bit (F s) 0" (is ?c)
  "bit (F (snd (op_RL (fst (op_RR v s)) (snd (op_RR v s))))) 0 = bit (F s) 0" (is ?d)
proof -
  have c: "bit (F (snd (op_RL v s))) 0 = bit v 7" "bit (F (snd (op_RR v s))) 0 = bit v 0" for v s
    using rotate_F(2) [of v s] rotate_F(6) [of v s] by (simp_all add: shift_flags_def flags_are_def)
  have fl: "bit (F s AND FLAG_C) n \<longleftrightarrow> n = 0 \<and> bit (F s) 0" for n s
    unfolding low_bit_out by (simp add: bit_simps)
  have b: "bit (fst (op_RL v s)) n \<longleftrightarrow> (if n = 0 then bit (F s) 0 else n < 8 \<and> bit v (n - 1))"
      "bit (fst (op_RR v s)) n \<longleftrightarrow> (if n = 7 then bit (F s) 0 else bit v (n + 1))" for v s n
    unfolding op_RL_def op_RR_def Let_def fst_conv bit_or_iff bit_push_bit_iff bit_drop_bit_eq o_def fl
    by (auto dest: bit_imp_le_length simp: add.commute)
  show ?a ?b by (rule bit_word_eqI; auto simp: b c dest: bit_imp_le_length)+
  show ?c ?d by (simp_all add: c b)
qed

section \<open>The properties\<close>

text \<open>
  ADD and ADC compute the sum modulo 256 in A, and every flag read from the tables has its
  arithmetic meaning: C is the carry out of bit 7, H the carry out of bit 3, V the overflow of the
  signed sum, S, Z, 5 and 3 are those of the result, and N is reset.
\<close>

lemma z80_addition_flags:
  "A (op_ADC v s) = A s + v + of_nat (carry_in s) \<and>
   flags_are (F (op_ADC v s)) (bit (A (op_ADC v s)) 7) (A (op_ADC v s) = 0) (bit (A (op_ADC v s)) 5)
      (16 \<le> unat (A s) mod 16 + unat v mod 16 + carry_in s) (bit (A (op_ADC v s)) 3)
      (sint (A s) + sint v + int (carry_in s) \<notin> {-128..<128}) False (256 \<le> unat (A s) + unat v + carry_in s) \<and>
   A (op_ADD v s) = A s + v \<and>
   flags_are (F (op_ADD v s)) (bit (A s + v) 7) (A s + v = 0) (bit (A s + v) 5)
      (16 \<le> unat (A s) mod 16 + unat v mod 16) (bit (A s + v) 3)
      (sint (A s) + sint v \<notin> {-128..<128}) False (256 \<le> unat (A s) + unat v)"
  using op_ADC_F [of v s] op_ADD_F [of v s] op_add_A(1,2) [of v s] by simp

text \<open>
  SUB, SBC and CP: the difference modulo 256 (CP leaves A alone), C is the borrow, H the borrow
  into bit 3, V the overflow of the signed difference and N is set; CP takes flags 5 and 3 from
  its operand instead of the result.
\<close>

lemma z80_subtraction_flags:
  "A (op_SBC v s) = A s - v - of_nat (carry_in s) \<and>
   flags_are (F (op_SBC v s)) (bit (A (op_SBC v s)) 7) (A (op_SBC v s) = 0) (bit (A (op_SBC v s)) 5)
      (unat (A s) mod 16 < unat v mod 16 + carry_in s) (bit (A (op_SBC v s)) 3)
      (sint (A s) - sint v - int (carry_in s) \<notin> {-128..<128}) True (unat (A s) < unat v + carry_in s) \<and>
   A (op_SUB v s) = A s - v \<and>
   flags_are (F (op_SUB v s)) (bit (A s - v) 7) (A s - v = 0) (bit (A s - v) 5)
      (unat (A s) mod 16 < unat v mod 16) (bit (A s - v) 3)
      (sint (A s) - sint v \<notin> {-128..<128}) True (unat (A s) < unat v) \<and>
   A (op_CP v s) = A s \<and>
   flags_are (F (op_CP v s)) (bit (A s - v) 7) (A s = v) (bit v 5)
      (unat (A s) mod 16 < unat v mod 16) (bit v 3)
      (sint (A s) - sint v \<notin> {-128..<128}) True (unat (A s) < unat v)"
  using op_SBC_F [of v s] op_SUB_F [of v s] op_CP_F [of v s] op_add_A(3,4,5) [of v s] by simp

text \<open>
  The 16-bit ADC, SBC and ADD: the result modulo 65536, MEMPTR one past the first operand, C and
  H the carries (borrows) out of bits 15 and 11, V the signed 16-bit overflow, Z the zero test of
  the whole word; ADD keeps S, Z and P/V.
\<close>

lemma z80_arithmetic16_flags:
  "HL (op_ADC16 v s) = HL s + v + of_nat (carry_in s) \<and> memptr (op_ADC16 v s) = HL s + 1 \<and>
   flags_are (F (op_ADC16 v s)) (bit (HL (op_ADC16 v s)) 15) (HL (op_ADC16 v s) = 0) (bit (HL (op_ADC16 v s)) 13)
      (4096 \<le> unat (HL s) mod 4096 + unat v mod 4096 + carry_in s) (bit (HL (op_ADC16 v s)) 11)
      (sint (HL s) + sint v + int (carry_in s) \<notin> {-32768..<32768}) False
      (65536 \<le> unat (HL s) + unat v + carry_in s) \<and>
   HL (op_SBC16 v s) = HL s - v - of_nat (carry_in s) \<and> memptr (op_SBC16 v s) = HL s + 1 \<and>
   flags_are (F (op_SBC16 v s)) (bit (HL (op_SBC16 v s)) 15) (HL (op_SBC16 v s) = 0) (bit (HL (op_SBC16 v s)) 13)
      (unat (HL s) mod 4096 < unat v mod 4096 + carry_in s) (bit (HL (op_SBC16 v s)) 11)
      (sint (HL s) - sint v - int (carry_in s) \<notin> {-32768..<32768}) True
      (unat (HL s) < unat v + carry_in s) \<and>
   fst (op_ADD16 w v s) = w + v \<and> memptr (snd (op_ADD16 w v s)) = w + 1 \<and>
   flags_are (F (snd (op_ADD16 w v s))) (bit (F s) 7) (bit (F s) 6) (bit (w + v) 13)
      (4096 \<le> unat w mod 4096 + unat v mod 4096) (bit (w + v) 11) (bit (F s) 2) False
      (65536 \<le> unat w + unat v)"
proof -
  have "memptr (op_ADC16 v s) = HL s + 1" "memptr (op_SBC16 v s) = HL s + 1" "memptr (snd (op_ADD16 w v s)) = w + 1"
    by (simp_all add: op_ADC16_def op_SBC16_def op_ADD16_def Let_def)
  then show ?thesis using op_ADC16_F [of v s] op_SBC16_F [of v s] op_ADD16_F [of w v s] op_16_HL(1,2) [of v s] op_16_HL(3) [of w v s]
    by simp
qed

text \<open>
  INC and DEC: the result modulo 256, C kept, H the carry (borrow) of the low digit, V exactly
  when the signed value leaves the byte range.
\<close>

lemma z80_step_flags:
  "fst (op_INC v s) = v + 1 \<and>
   flags_are (F (snd (op_INC v s))) (bit (v + 1) 7) (v + 1 = 0) (bit (v + 1) 5) (16 \<le> unat v mod 16 + 1)
      (bit (v + 1) 3) (sint v + 1 \<notin> {-128..<128}) False (bit (F s) 0) \<and>
   fst (op_DEC v s) = v - 1 \<and>
   flags_are (F (snd (op_DEC v s))) (bit (v - 1) 7) (v - 1 = 0) (bit (v - 1) 5) (unat v mod 16 = 0)
      (bit (v - 1) 3) (sint v - 1 \<notin> {-128..<128}) True (bit (F s) 0)"
  using op_INC_F [of v s] op_DEC_F [of v s] by (simp add: op_INC_def op_DEC_def Let_def)

text \<open>
  C9. The arithmetic of the processor. Every 8-bit and 16-bit addition, subtraction, comparison,
  increment and decrement gives the sum or difference modulo its width (CP leaves A alone), and every
  flag the macros look up in their tables has its arithmetic meaning: C is the carry (borrow) out of
  the top bit, H the one out of bit 3 (bit 11), V tells that the signed result leaves the range of its
  width, S, Z, 5 and 3 are those of the result and N tells a subtraction. CP takes flags 5 and 3 from
  its operand, ADD of a register pair keeps S, Z and P/V, INC and DEC keep C, and the 16-bit
  operations leave one past the first operand in MEMPTR.
\<close>

theorem z80_arithmetic_flags:
  "(A (op_ADC v s) = A s + v + of_nat (carry_in s) \<and>
   flags_are (F (op_ADC v s)) (bit (A (op_ADC v s)) 7) (A (op_ADC v s) = 0) (bit (A (op_ADC v s)) 5)
      (16 \<le> unat (A s) mod 16 + unat v mod 16 + carry_in s) (bit (A (op_ADC v s)) 3)
      (sint (A s) + sint v + int (carry_in s) \<notin> {-128..<128}) False (256 \<le> unat (A s) + unat v + carry_in s) \<and>
   A (op_ADD v s) = A s + v \<and>
   flags_are (F (op_ADD v s)) (bit (A s + v) 7) (A s + v = 0) (bit (A s + v) 5)
      (16 \<le> unat (A s) mod 16 + unat v mod 16) (bit (A s + v) 3)
      (sint (A s) + sint v \<notin> {-128..<128}) False (256 \<le> unat (A s) + unat v)) \<and>
   (A (op_SBC v s) = A s - v - of_nat (carry_in s) \<and>
   flags_are (F (op_SBC v s)) (bit (A (op_SBC v s)) 7) (A (op_SBC v s) = 0) (bit (A (op_SBC v s)) 5)
      (unat (A s) mod 16 < unat v mod 16 + carry_in s) (bit (A (op_SBC v s)) 3)
      (sint (A s) - sint v - int (carry_in s) \<notin> {-128..<128}) True (unat (A s) < unat v + carry_in s) \<and>
   A (op_SUB v s) = A s - v \<and>
   flags_are (F (op_SUB v s)) (bit (A s - v) 7) (A s - v = 0) (bit (A s - v) 5)
      (unat (A s) mod 16 < unat v mod 16) (bit (A s - v) 3)
      (sint (A s) - sint v \<notin> {-128..<128}) True (unat (A s) < unat v) \<and>
   A (op_CP v s) = A s \<and>
   flags_are (F (op_CP v s)) (bit (A s - v) 7) (A s = v) (bit v 5)
      (unat (A s) mod 16 < unat v mod 16) (bit v 3)
      (sint (A s) - sint v \<notin> {-128..<128}) True (unat (A s) < unat v)) \<and>
   (HL (op_ADC16 x s) = HL s + x + of_nat (carry_in s) \<and> memptr (op_ADC16 x s) = HL s + 1 \<and>
   flags_are (F (op_ADC16 x s)) (bit (HL (op_ADC16 x s)) 15) (HL (op_ADC16 x s) = 0) (bit (HL (op_ADC16 x s)) 13)
      (4096 \<le> unat (HL s) mod 4096 + unat x mod 4096 + carry_in s) (bit (HL (op_ADC16 x s)) 11)
      (sint (HL s) + sint x + int (carry_in s) \<notin> {-32768..<32768}) False
      (65536 \<le> unat (HL s) + unat x + carry_in s) \<and>
   HL (op_SBC16 x s) = HL s - x - of_nat (carry_in s) \<and> memptr (op_SBC16 x s) = HL s + 1 \<and>
   flags_are (F (op_SBC16 x s)) (bit (HL (op_SBC16 x s)) 15) (HL (op_SBC16 x s) = 0) (bit (HL (op_SBC16 x s)) 13)
      (unat (HL s) mod 4096 < unat x mod 4096 + carry_in s) (bit (HL (op_SBC16 x s)) 11)
      (sint (HL s) - sint x - int (carry_in s) \<notin> {-32768..<32768}) True
      (unat (HL s) < unat x + carry_in s) \<and>
   fst (op_ADD16 w x s) = w + x \<and> memptr (snd (op_ADD16 w x s)) = w + 1 \<and>
   flags_are (F (snd (op_ADD16 w x s))) (bit (F s) 7) (bit (F s) 6) (bit (w + x) 13)
      (4096 \<le> unat w mod 4096 + unat x mod 4096) (bit (w + x) 11) (bit (F s) 2) False
      (65536 \<le> unat w + unat x)) \<and>
   (fst (op_INC b s) = b + 1 \<and>
   flags_are (F (snd (op_INC b s))) (bit (b + 1) 7) (b + 1 = 0) (bit (b + 1) 5) (16 \<le> unat b mod 16 + 1)
      (bit (b + 1) 3) (sint b + 1 \<notin> {-128..<128}) False (bit (F s) 0) \<and>
   fst (op_DEC b s) = b - 1 \<and>
   flags_are (F (snd (op_DEC b s))) (bit (b - 1) 7) (b - 1 = 0) (bit (b - 1) 5) (unat b mod 16 = 0)
      (bit (b - 1) 3) (sint b - 1 \<notin> {-128..<128}) True (bit (F s) 0))"
  using z80_addition_flags [of v s] z80_subtraction_flags [of v s] z80_arithmetic16_flags [of x s w] z80_step_flags [of b s] by argo

text \<open>
  The eight rotates and shifts and the three logic operations: the value, the bit shifted out
  as C, and P/V the parity of the result as \<open>z80_init_tables\<close> computes it.
\<close>

lemma z80_shift_logic_flags:
  "shift_flags (op_RLC v s) (push_bit 1 v OR drop_bit 7 v) (bit v 7) \<and>
   shift_flags (op_RL v s) (push_bit 1 v OR of_bool (bit (F s) 0)) (bit v 7) \<and>
   shift_flags (op_SLA v s) (push_bit 1 v) (bit v 7) \<and>
   shift_flags (op_SLL v s) (push_bit 1 v OR 1) (bit v 7) \<and>
   shift_flags (op_RRC v s) (drop_bit 1 v OR push_bit 7 v) (bit v 0) \<and>
   shift_flags (op_RR v s) (drop_bit 1 v OR push_bit 7 (F s)) (bit v 0) \<and>
   shift_flags (op_SRA v s) ((v AND 0x80) OR drop_bit 1 v) (bit v 0) \<and>
   shift_flags (op_SRL v s) (drop_bit 1 v) (bit v 0) \<and>
   flags_are (F (op_AND v s)) (bit (A s AND v) 7) (A s AND v = 0) (bit (A s AND v) 5) True
      (bit (A s AND v) 3) (even_parity (A s AND v)) False False \<and>
   flags_are (F (op_OR v s)) (bit (A s OR v) 7) (A s OR v = 0) (bit (A s OR v) 5) False
      (bit (A s OR v) 3) (even_parity (A s OR v)) False False \<and>
   flags_are (F (op_XOR v s)) (bit (A s XOR v) 7) (A s XOR v = 0) (bit (A s XOR v) 5) False
      (bit (A s XOR v) 3) (even_parity (A s XOR v)) False False"
  using rotate_F [of v s] logic_F [of v s] by simp

text \<open>
  Rotations are undone by their opposites: RLC and RRC on the byte, RL and RR on the byte
  together with the carry.
\<close>

lemma z80_rotate_roundtrip:
  "fst (op_RRC (fst (op_RLC v s)) s') = v \<and> fst (op_RLC (fst (op_RRC v s)) s') = v \<and>
   fst (op_RR (fst (op_RL v s)) (snd (op_RL v s))) = v \<and>
   fst (op_RL (fst (op_RR v s)) (snd (op_RR v s))) = v \<and>
   bit (F (snd (op_RR (fst (op_RL v s)) (snd (op_RL v s))))) 0 = bit (F s) 0 \<and>
   bit (F (snd (op_RL (fst (op_RR v s)) (snd (op_RR v s))))) 0 = bit (F s) 0"
  using RLC_RRC_inverse RL_RR_inverse by blast

end
