(* ===== verification/Events.thy ===== *)
theory Events
  imports Prelude "HOL-Library.Multiset"
begin

text \<open>
  The event queue of \<open>event.c\<close>: a list of pending events ordered by the T-state at which they
  are due, the cached time of the earliest one, and the loop that runs the handlers of the events
  that are due. The record is extensible: the rest of the emulator's state, which handlers also
  change, is its \<open>more\<close> part. \<open>g_slist_insert_sorted\<close> is GLib code: it is the
  parameter \<open>ins\<close>, with its contract as the hypothesis \<open>insert_sorted_law\<close>.
\<close>

record 'u event =
  ev_tstates :: u32
  ev_type :: int
  user_data :: 'u

record 'u event_state =
  event_next_event :: u32
  event_frame_end :: bool
  event_list :: "'u event list"
  tstates :: u32

type_synonym ('u, 'z) event_fn = "u32 \<Rightarrow> int \<Rightarrow> 'u \<Rightarrow> ('u, 'z) event_state_scheme \<Rightarrow> ('u, 'z) event_state_scheme"

record ('u, 'z) event_descriptor =
  fn :: "('u, 'z) event_fn option"
  description :: string

text \<open>A large value to mean `no events due'.\<close>

definition event_no_events :: u32 where
  "event_no_events = 0xffffffff"

section \<open>Operations\<close>

definition event_register ::
  "('u, 'z) event_fn option \<Rightarrow> string \<Rightarrow> ('u, 'z) event_descriptor list \<Rightarrow> ('u, 'z) event_descriptor list \<times> int" where
  "event_register f desc reg = (reg @ [\<lparr>fn = f, description = desc\<rparr>], int (length reg))"

definition event_init ::
  "('u, 'z) event_state_scheme \<Rightarrow> ('u, 'z) event_descriptor list \<times> int \<times> ('u, 'z) event_state_scheme" where
  "event_init s =
    (let (reg, null) = event_register None ''[Deleted event]'' []
     in (reg, null, s\<lparr>event_next_event := event_no_events, event_frame_end := False\<rparr>))"

text \<open>The type \<open>event_init\<close> registers first.\<close>

definition event_type_null :: int where
  "event_type_null = 0"

text \<open>A \<open>GCompareFunc\<close>; the subtraction of the types is an \<open>int\<close> one.\<close>

definition event_add_cmp :: "'u event \<Rightarrow> 'u event \<Rightarrow> int" where
  "event_add_cmp a b =
    (if ev_tstates a \<noteq> ev_tstates b
     then of_bool (ev_tstates a > ev_tstates b) - of_bool (ev_tstates a < ev_tstates b)
     else ev_type a - ev_type b)"

definition event_add_with_data ::
  "(('u event \<Rightarrow> 'u event \<Rightarrow> int) \<Rightarrow> 'u event \<Rightarrow> 'u event list \<Rightarrow> 'u event list) \<Rightarrow>
   u32 \<Rightarrow> int \<Rightarrow> 'u \<Rightarrow> ('u, 'z) event_state_scheme \<Rightarrow> ('u, 'z) event_state_scheme" where
  "event_add_with_data ins event_time ty d s =
    (let ptr = \<lparr>ev_tstates = event_time, ev_type = ty, user_data = d\<rparr>
     in if event_time < event_next_event s
        then s\<lparr>event_next_event := event_time, event_list := ptr # event_list s\<rparr>
        else s\<lparr>event_list := ins event_add_cmp ptr (event_list s)\<rparr>)"

text \<open>\<open>descriptor.fn( ptr->tstates, ptr->type, ptr->user_data )\<close>, skipped for a NULL handler.\<close>

definition event_call ::
  "('u, 'z) event_descriptor \<Rightarrow> 'u event \<Rightarrow> ('u, 'z) event_state_scheme \<Rightarrow> ('u, 'z) event_state_scheme" where
  "event_call dsc e s = (case fn dsc of None \<Rightarrow> s | Some f \<Rightarrow> f (ev_tstates e) (ev_type e) (user_data e) s)"

definition head_time :: "'u event list \<Rightarrow> u32" where
  "head_time es = (case es of [] \<Rightarrow> event_no_events | e # _ \<Rightarrow> ev_tstates e)"

text \<open>
  \<open>event_do_events\<close>. \<open>None\<close> stands for a call that does not come back: a loop that never ends,
  the head of an empty list, or an unregistered type.
\<close>

partial_function (option) event_do_events ::
  "('u, 'z) event_descriptor list \<Rightarrow> ('u, 'z) event_state_scheme \<Rightarrow> ('u, 'z) event_state_scheme option" where
  "event_do_events reg s =
    (if event_next_event s \<le> tstates s then
       case event_list s of
         [] \<Rightarrow> None
       | ptr # rest \<Rightarrow>
           if 0 \<le> ev_type ptr \<and> nat (ev_type ptr) < length reg then
             event_do_events reg
               (event_call (reg ! nat (ev_type ptr)) ptr
                  (s\<lparr>event_list := rest, event_next_event := head_time rest\<rparr>))
           else None
     else Some s)"

definition event_frame :: "u32 \<Rightarrow> ('u, 'z) event_state_scheme \<Rightarrow> ('u, 'z) event_state_scheme" where
  "event_frame tstates_per_frame s =
    (let es = map (\<lambda>e. e\<lparr>ev_tstates := ev_tstates e - tstates_per_frame\<rparr>) (event_list s)
     in s\<lparr>event_list := es, event_next_event := head_time es\<rparr>)"

partial_function (option) event_force_events ::
  "u32 \<Rightarrow> ('u, 'z) event_descriptor list \<Rightarrow> ('u, 'z) event_state_scheme \<Rightarrow> ('u, 'z) event_state_scheme option" where
  "event_force_events tstates_per_frame reg s =
    (if event_next_event s < tstates_per_frame then
       Option.bind (event_do_events reg (s\<lparr>tstates := event_next_event s\<rparr>))
         (event_force_events tstates_per_frame reg)
     else Some s)"

definition event_foreach :: "('u event \<Rightarrow> 'u event) \<Rightarrow> ('u, 'z) event_state_scheme \<Rightarrow> ('u, 'z) event_state_scheme" where
  "event_foreach f s = s\<lparr>event_list := map f (event_list s)\<rparr>"

definition event_remove_type :: "int \<Rightarrow> ('u, 'z) event_state_scheme \<Rightarrow> ('u, 'z) event_state_scheme" where
  "event_remove_type ty =
    event_foreach (\<lambda>e. if ev_type e = ty then e\<lparr>ev_type := event_type_null\<rparr> else e)"

definition event_remove_type_user_data ::
  "int \<Rightarrow> 'u \<Rightarrow> ('u, 'z) event_state_scheme \<Rightarrow> ('u, 'z) event_state_scheme" where
  "event_remove_type_user_data ty d =
    event_foreach (\<lambda>e. if ev_type e = ty \<and> user_data e = d then e\<lparr>ev_type := event_type_null\<rparr> else e)"

definition event_reset :: "('u, 'z) event_state_scheme \<Rightarrow> ('u, 'z) event_state_scheme" where
  "event_reset s = s\<lparr>event_list := [], event_next_event := event_no_events\<rparr>"

definition event_name :: "int \<Rightarrow> ('u, 'z) event_descriptor list \<Rightarrow> string" where
  "event_name ty reg = description (reg ! nat ty)"

section \<open>The invariant\<close>

text \<open>
  The contract of \<open>g_slist_insert_sorted\<close>: the element goes in at one place, everything before
  it compares smaller, and the element after it does not.
\<close>

definition insert_sorted_law :: "(('a \<Rightarrow> 'a \<Rightarrow> int) \<Rightarrow> 'a \<Rightarrow> 'a list \<Rightarrow> 'a list) \<Rightarrow> bool" where
  "insert_sorted_law ins \<longleftrightarrow>
    (\<forall>cmp x xs. \<exists>ys zs. xs = ys @ zs \<and> ins cmp x xs = ys @ x # zs \<and>
       (\<forall>y\<in>set ys. cmp x y > 0) \<and> (zs \<noteq> [] \<longrightarrow> cmp x (hd zs) \<le> 0))"

fun insert_sorted_ref :: "('a \<Rightarrow> 'a \<Rightarrow> int) \<Rightarrow> 'a \<Rightarrow> 'a list \<Rightarrow> 'a list" where
  "insert_sorted_ref cmp x [] = [x]"
| "insert_sorted_ref cmp x (y # ys) = (if cmp x y > 0 then y # insert_sorted_ref cmp x ys else x # y # ys)"

abbreviation times :: "('u, 'z) event_state_scheme \<Rightarrow> u32 list" where
  "times s \<equiv> map ev_tstates (event_list s)"

definition event_inv :: "('u, 'z) event_state_scheme \<Rightarrow> bool" where
  "event_inv s \<longleftrightarrow> sorted (times s) \<and> event_next_event s = head_time (event_list s)"

text \<open>The types in the queue are registered.\<close>

definition event_types_ok :: "'r list \<Rightarrow> ('u, 'z) event_state_scheme \<Rightarrow> bool" where
  "event_types_ok reg s \<longleftrightarrow> (\<forall>e\<in>set (event_list s). 0 \<le> ev_type e \<and> nat (ev_type e) < length reg)"

text \<open>The handlers and operations that change the queue, as one alphabet.\<close>

datatype 'u event_op = Add u32 int 'u | Remove int | Remove_data int 'u | Frame u32 | Reset

fun event_step ::
  "(('u event \<Rightarrow> 'u event \<Rightarrow> int) \<Rightarrow> 'u event \<Rightarrow> 'u event list \<Rightarrow> 'u event list) \<Rightarrow>
   'u event_op \<Rightarrow> ('u, 'z) event_state_scheme \<Rightarrow> ('u, 'z) event_state_scheme" where
  "event_step ins (Add t ty d) s = event_add_with_data ins t ty d s"
| "event_step ins (Remove ty) s = event_remove_type ty s"
| "event_step ins (Remove_data ty d) s = event_remove_type_user_data ty d s"
| "event_step ins (Frame n) s = event_frame n s"
| "event_step ins Reset s = event_reset s"

text \<open>
  What a handler may do when it is called for an event due at \<open>t\<close>: keep the queue well formed,
  leave the clock alone and schedule new events, all of them later than \<open>t\<close>.
\<close>

definition handler_ok :: "'r list \<Rightarrow> ('u, 'z) event_fn \<Rightarrow> bool" where
  "handler_ok reg f \<longleftrightarrow>
    (\<forall>t ty d s. event_inv s \<and> event_types_ok reg s \<longrightarrow>
       event_inv (f t ty d s) \<and> event_types_ok reg (f t ty d s) \<and> tstates (f t ty d s) = tstates s \<and>
       (\<exists>N. mset (times (f t ty d s)) = mset (times s) + N \<and> (\<forall>n\<in>#N. t < n)))"

section \<open>Every operation keeps the queue ordered\<close>

lemma insert_sorted_ref_law: "insert_sorted_law insert_sorted_ref"
  unfolding insert_sorted_law_def
proof (intro allI)
  fix cmp :: "'a \<Rightarrow> 'a \<Rightarrow> int" and x xs
  show "\<exists>ys zs. xs = ys @ zs \<and> insert_sorted_ref cmp x xs = ys @ x # zs \<and>
       (\<forall>y\<in>set ys. cmp x y > 0) \<and> (zs \<noteq> [] \<longrightarrow> cmp x (hd zs) \<le> 0)"
  proof (induction xs)
    case (Cons y xs)
    then obtain ys zs where IH: "xs = ys @ zs" "insert_sorted_ref cmp x xs = ys @ x # zs"
      "\<forall>y\<in>set ys. cmp x y > 0" "zs \<noteq> [] \<longrightarrow> cmp x (hd zs) \<le> 0" by blast
    show ?case
    proof (cases "cmp x y > 0")
      case True
      with IH show ?thesis by (intro exI [of _ "y # ys"] exI [of _ zs]) simp
    next
      case False
      then show ?thesis by (intro exI [of _ "[]"] exI [of _ "y # xs"]) simp
    qed
  qed simp
qed

lemma event_add_cmp_times:
  "event_add_cmp a b > 0 \<Longrightarrow> ev_tstates b \<le> ev_tstates a" "event_add_cmp a b \<le> 0 \<Longrightarrow> ev_tstates a \<le> ev_tstates b"
  by (auto simp: event_add_cmp_def split: if_splits)

lemma head_time_simps [simp]: "head_time [] = event_no_events" "head_time (e # es) = ev_tstates e"
  by (simp_all add: head_time_def)

lemma le_no_events [simp]: "t \<le> event_no_events"
  by (simp add: event_no_events_def word_le_nat_alt unat_u32_bound less_Suc_eq_le [symmetric])

lemma event_inv_head: "event_inv s \<Longrightarrow> e \<in> set (event_list s) \<Longrightarrow> event_next_event s \<le> ev_tstates e"
  by (cases "event_list s") (auto simp: event_inv_def)

lemma insert_sorted_event:
  assumes "insert_sorted_law ins" "sorted (map ev_tstates es)" "head_time es \<le> ev_tstates e"
  shows "sorted (map ev_tstates (ins event_add_cmp e es))"
    "mset (ins event_add_cmp e es) = add_mset e (mset es)"
    "head_time (ins event_add_cmp e es) = head_time es"
proof -
  obtain ys zs where c: "es = ys @ zs" "ins event_add_cmp e es = ys @ e # zs"
     "\<forall>y\<in>set ys. event_add_cmp e y > 0" "zs \<noteq> [] \<longrightarrow> event_add_cmp e (hd zs) \<le> 0"
    using assms(1) unfolding insert_sorted_law_def by blast
  have zs: "\<forall>z\<in>set zs. ev_tstates e \<le> ev_tstates z"
    using c(1,4) assms(2) event_add_cmp_times(2) [of e "hd zs"] by (cases zs) (auto simp: sorted_append)
  then show "sorted (map ev_tstates (ins event_add_cmp e es))"
    using c assms(2) event_add_cmp_times(1) by (auto simp: sorted_append)
  show "mset (ins event_add_cmp e es) = add_mset e (mset es)" using c by simp
  show "head_time (ins event_add_cmp e es) = head_time es"
    using c zs assms(3) by (cases ys; cases zs) (auto intro: antisym)
qed

lemma event_add_inv [preserves]:
  assumes "insert_sorted_law ins" "event_inv s"
  shows "event_inv (event_add_with_data ins t ty d s)"
proof (cases "t < event_next_event s")
  case True
  then have "\<forall>e\<in>set (event_list s). t \<le> ev_tstates e"
    using event_inv_head [OF assms(2)] by (meson dual_order.strict_trans1 less_imp_le)
  with True assms(2) show ?thesis by (auto simp: event_inv_def event_add_with_data_def)
next
  case False
  then have "head_time (event_list s) \<le> t" using assms(2) by (simp add: event_inv_def)
  with False assms show ?thesis
    using insert_sorted_event [OF assms(1), of "event_list s" "\<lparr>ev_tstates = t, ev_type = ty, user_data = d\<rparr>"]
    by (simp add: event_inv_def event_add_with_data_def Let_def)
qed

lemma event_add_times:
  assumes "insert_sorted_law ins" "event_inv s"
  shows "mset (event_list (event_add_with_data ins t ty d s)) =
     add_mset \<lparr>ev_tstates = t, ev_type = ty, user_data = d\<rparr> (mset (event_list s))"
  using assms insert_sorted_event(2) [OF assms(1), of "event_list s" "\<lparr>ev_tstates = t, ev_type = ty, user_data = d\<rparr>"]
  by (auto simp: event_add_with_data_def event_inv_def Let_def)

lemma event_foreach_inv:
  assumes "event_inv s" "\<And>e. ev_tstates (f e) = ev_tstates e"
  shows "event_inv (event_foreach f s)"
proof -
  have "head_time (map f es) = head_time es" for es using assms(2) by (cases es) simp_all
  then show ?thesis using assms by (simp add: event_inv_def event_foreach_def comp_def)
qed

lemma event_remove_inv [preserves]:
  "event_inv s \<Longrightarrow> event_inv (event_remove_type ty s)"
  "event_inv s \<Longrightarrow> event_inv (event_remove_type_user_data ty d s)"
  unfolding event_remove_type_def event_remove_type_user_data_def by (rule event_foreach_inv; simp)+

lemma sorted_minus:
  fixes ts :: "u32 list"
  shows "sorted ts \<Longrightarrow> \<forall>t\<in>set ts. n \<le> t \<Longrightarrow> sorted (map (\<lambda>t. t - n) ts)"
  by (induction ts) (auto simp: word_le_nat_alt unat_sub)

lemma event_frame_inv [preserves]:
  assumes "event_inv s" "\<forall>e\<in>set (event_list s). n \<le> ev_tstates e"
  shows "event_inv (event_frame n s)"
  using assms sorted_minus [of "times s" n] by (simp add: event_inv_def event_frame_def Let_def comp_def)

lemma event_reset_inv [preserves]: "event_inv (event_reset s)"
  by (simp add: event_inv_def event_reset_def)

fun event_op_ok :: "'u event_op \<Rightarrow> ('u, 'z) event_state_scheme \<Rightarrow> bool" where
  "event_op_ok (Frame n) s \<longleftrightarrow> (\<forall>e\<in>set (event_list s). n \<le> ev_tstates e)"
| "event_op_ok _ s \<longleftrightarrow> True"

locale event_queue =
  fixes ins :: "('u event \<Rightarrow> 'u event \<Rightarrow> int) \<Rightarrow> 'u event \<Rightarrow> 'u event list \<Rightarrow> 'u event list"
  assumes ins: "insert_sorted_law ins"

sublocale event_queue \<subseteq> step_machine "event_step ins" event_inv event_op_ok
proof
  fix s :: "('u, 'z) event_state_scheme" and e
  assume "event_inv s" "event_op_ok e s"
  then show "event_inv (event_step ins e s)"
    by (cases e) (auto intro: preserves ins)
qed

context event_queue
begin

lemma queue_ordered: "event_inv s \<Longrightarrow> run_ok ops s \<Longrightarrow> event_inv (fold (event_step ins) ops s)"
  by (rule run_inv)

end

interpretation insert_ref: event_queue insert_sorted_ref
  by unfold_locales (rule insert_sorted_ref_law)

section \<open>The loop ends and runs what is due\<close>

text \<open>
  Handlers may schedule events that are already due, so the number of due events need not fall.
  The multiset of the distances of the due times from the clock does, in the multiset order.
\<close>

definition due_gaps :: "u32 \<Rightarrow> u32 multiset \<Rightarrow> nat multiset" where
  "due_gaps now ts = image_mset (\<lambda>t. unat now - unat t) (filter_mset (\<lambda>t. t \<le> now) ts)"

lemma due_gaps_decrease:
  assumes "t \<le> now" "\<forall>n\<in>#N. t < n"
  shows "(due_gaps now (R + N), due_gaps now (add_mset t R)) \<in> mult {(x, y). x < y}"
proof -
  have "unat now - unat n < unat now - unat t" if "n \<in># N" "n \<le> now" for n
  proof -
    have "unat t < unat n" using assms(2) that(1) by (auto simp: word_less_nat_alt)
    moreover have "unat n \<le> unat now" using that(2) by (simp add: word_le_nat_alt)
    ultimately show ?thesis by simp
  qed
  then have "(due_gaps now R + due_gaps now N, due_gaps now R + {#unat now - unat t#}) \<in> mult {(x, y). x < y}"
    by (intro one_step_implies_mult) (auto simp: due_gaps_def)
  then show ?thesis using assms(1) by (simp add: due_gaps_def)
qed

lemma event_pop_inv:
  "event_inv s \<Longrightarrow> event_list s = e # es \<Longrightarrow> event_inv (s\<lparr>event_list := es, event_next_event := head_time es\<rparr>)"
  by (simp add: event_inv_def)

lemma event_call_ok:
  assumes "\<forall>d\<in>set reg. \<forall>f. fn d = Some f \<longrightarrow> handler_ok reg f" "i < length reg" "event_inv s" "event_types_ok reg s"
  obtains N where "event_inv (event_call (reg ! i) e s)" "event_types_ok reg (event_call (reg ! i) e s)"
    "tstates (event_call (reg ! i) e s) = tstates s"
    "mset (times (event_call (reg ! i) e s)) = mset (times s) + N" "\<forall>n\<in>#N. ev_tstates e < n"
proof (cases "fn (reg ! i)")
  case None
  then show thesis using assms(3,4) by (intro that [of "{#}"]) (simp_all add: event_call_def)
next
  case (Some f)
  then have "handler_ok reg f" using assms(1,2) by (meson nth_mem)
  then show thesis using that assms(3,4) Some unfolding handler_ok_def event_call_def by fastforce
qed

lemma event_do_events_finishes:
  fixes s :: "('u, 'z) event_state_scheme"
  assumes reg: "\<forall>d\<in>set reg. \<forall>f. fn d = Some f \<longrightarrow> handler_ok reg f"
  shows "event_inv s \<Longrightarrow> event_types_ok reg s \<Longrightarrow> tstates s < event_no_events \<Longrightarrow>
    \<exists>s'. event_do_events reg s = Some s' \<and> event_inv s' \<and> event_types_ok reg s' \<and> tstates s' = tstates s \<and>
         (\<forall>e\<in>set (event_list s'). tstates s < ev_tstates e) \<and>
         filter_mset (\<lambda>t. tstates s < t) (mset (times s)) \<subseteq># mset (times s')"
proof (induction "due_gaps (tstates s) (mset (times s))" arbitrary: s rule: wf_induct_rule [OF wf_mult [OF wf]])
  case (1 s)
  show ?case
  proof (cases "event_next_event s \<le> tstates s")
    case False
    then have "tstates s < event_next_event s" by simp
    then have later: "\<forall>e\<in>set (event_list s). tstates s < ev_tstates e"
      using event_inv_head [OF "1.prems"(1)] by (meson dual_order.strict_trans1)
    have "event_do_events reg s = Some s" using False by (subst event_do_events.simps) simp
    then show ?thesis using "1.prems" later by (auto intro: multiset_filter_subset)
  next
    case True
    then obtain e es where es: "event_list s = e # es"
      using "1.prems"(1,3) by (cases "event_list s") (auto simp: event_inv_def)
    define s1 where "s1 = s\<lparr>event_list := es, event_next_event := head_time es\<rparr>"
    define s2 where "s2 = event_call (reg ! nat (ev_type e)) e s1"
    have s1: "event_inv s1" "event_types_ok reg s1" "tstates s1 = tstates s" "times s1 = map ev_tstates es"
      using event_pop_inv [OF "1.prems"(1) es] "1.prems"(2) es by (simp_all add: s1_def event_types_ok_def)
    have ty: "0 \<le> ev_type e \<and> nat (ev_type e) < length reg"
      using "1.prems"(2) es by (simp add: event_types_ok_def)
    have due: "ev_tstates e \<le> tstates s" using True es "1.prems"(1) by (simp add: event_inv_def)
    from event_call_ok [OF reg conjunct2 [OF ty] s1(1,2), of e]
    obtain N where s2: "event_inv s2" "event_types_ok reg s2" "tstates s2 = tstates s"
       "mset (times s2) = mset (map ev_tstates es) + N" "\<forall>n\<in>#N. ev_tstates e < n"
      unfolding s2_def s1(3,4) .
    have step: "event_do_events reg s = event_do_events reg s2"
      using True es ty by (subst event_do_events.simps) (simp add: s1_def s2_def)
    have "(due_gaps (tstates s2) (mset (times s2)), due_gaps (tstates s) (mset (times s))) \<in> mult {(x, y). x < y}"
      using due_gaps_decrease [OF due s2(5), of "mset (map ev_tstates es)"] es s2(3,4) by simp
    from "1.hyps" [OF this s2(1,2)] "1.prems"(3) s2(3) obtain s' where s':
      "event_do_events reg s2 = Some s'" "event_inv s'" "event_types_ok reg s'" "tstates s' = tstates s"
      "\<forall>e\<in>set (event_list s'). tstates s < ev_tstates e"
      "filter_mset (\<lambda>t. tstates s < t) (mset (times s2)) \<subseteq># mset (times s')" by auto
    have "filter_mset (\<lambda>t. tstates s < t) (mset (times s)) \<subseteq># filter_mset (\<lambda>t. tstates s < t) (mset (times s2))"
      using s2(4) es due by (simp add: leD)
    then show ?thesis using step s' by (auto intro: subset_mset.order_trans)
  qed
qed

lemma event_frame_delays:
  assumes "event_inv s" "n \<le> tstates s" "\<forall>e\<in>set (event_list s). tstates s < ev_tstates e"
  shows "event_inv (event_frame n s)"
    "map (\<lambda>e. ev_tstates e - (tstates s - n)) (event_list (event_frame n s)) =
      map (\<lambda>e. ev_tstates e - tstates s) (event_list s)"
    "\<forall>e\<in>set (event_list (event_frame n s)). tstates s - n < ev_tstates e"
proof -
  have later: "n \<le> ev_tstates e" if "e \<in> set (event_list s)" for e using assms(2,3) that by fastforce
  then show "event_inv (event_frame n s)" using event_frame_inv [OF assms(1)] by blast
  show "map (\<lambda>e. ev_tstates e - (tstates s - n)) (event_list (event_frame n s)) =
      map (\<lambda>e. ev_tstates e - tstates s) (event_list s)" by (simp add: event_frame_def Let_def)
  have "tstates s - n < ev_tstates e - n" if "e \<in> set (event_list s)" for e
  proof -
    have "unat (tstates s) < unat (ev_tstates e)" using assms(3) that by (simp add: word_less_nat_alt)
    then show ?thesis using assms(2) later [OF that]
      by (simp add: word_less_nat_alt word_le_nat_alt unat_sub)
  qed
  then show "\<forall>e\<in>set (event_list (event_frame n s)). tstates s - n < ev_tstates e"
    by (simp add: event_frame_def Let_def)
qed

text \<open>A handler of the kind the code registers: it schedules itself again, unless the clock would wrap.\<close>

definition retrigger :: "(unit, unit) event_fn" where
  "retrigger t ty d s = (if t < t + 100 then event_add_with_data insert_sorted_ref (t + 100) 1 d s else s)"

definition retrigger_reg :: "(unit, unit) event_descriptor list" where
  "retrigger_reg = [\<lparr>fn = None, description = ''[Deleted event]''\<rparr>, \<lparr>fn = Some retrigger, description = ''Tick''\<rparr>]"

definition two_events :: "unit event_state" where
  "two_events = \<lparr>event_next_event = 5, event_frame_end = False,
     event_list = [\<lparr>ev_tstates = 5, ev_type = 1, user_data = ()\<rparr>, \<lparr>ev_tstates = 900, ev_type = 0, user_data = ()\<rparr>],
     tstates = 210\<rparr>"

lemma retrigger_ok: "handler_ok retrigger_reg retrigger"
  unfolding handler_ok_def
proof (intro allI impI, elim conjE)
  fix t :: u32 and ty :: int and d :: unit and s :: "(unit, unit) event_state_scheme"
  assume s: "event_inv s" "event_types_ok retrigger_reg s"
  have m: "mset (event_list (event_add_with_data insert_sorted_ref (t + 100) 1 d s)) =
     add_mset \<lparr>ev_tstates = t + 100, ev_type = 1, user_data = d\<rparr> (mset (event_list s))"
    by (rule event_add_times [OF insert_sorted_ref_law s(1)])
  from mset_eq_setD [OF m [folded mset.simps(2)]]
  have st: "set (event_list (event_add_with_data insert_sorted_ref (t + 100) 1 d s)) =
     insert \<lparr>ev_tstates = t + 100, ev_type = 1, user_data = d\<rparr> (set (event_list s))" by simp
  have "event_types_ok retrigger_reg (event_add_with_data insert_sorted_ref (t + 100) 1 d s)"
    using s(2) unfolding event_types_ok_def st by (simp add: retrigger_reg_def)
  moreover have "tstates (event_add_with_data insert_sorted_ref (t + 100) 1 d s) = tstates s"
    by (simp add: event_add_with_data_def Let_def)
  ultimately show "event_inv (retrigger t ty d s) \<and> event_types_ok retrigger_reg (retrigger t ty d s) \<and>
      tstates (retrigger t ty d s) = tstates s \<and>
      (\<exists>N. mset (times (retrigger t ty d s)) = mset (times s) + N \<and> (\<forall>n\<in>#N. t < n))"
    using s m event_add_inv [OF insert_sorted_ref_law s(1)]
    by (auto simp: retrigger_def intro: exI [of _ "{#}"] exI [of _ "{#t + 100#}"])
qed

lemma retrigger_reg_ok: "\<forall>d\<in>set retrigger_reg. \<forall>f. fn d = Some f \<longrightarrow> handler_ok retrigger_reg f"
  using retrigger_ok by (simp add: retrigger_reg_def)

section \<open>The properties\<close>

text \<open>
  C8. Whatever sequence of operations follows initialisation, frame ends only when no event is
  overdue, the queue is ordered by due time and \<open>event_next_event\<close> is the time of its first event.
\<close>

theorem event_queue_ordered:
  "insert_sorted_law ins \<Longrightarrow> event_list s0 = [] \<Longrightarrow>
   step_machine.run_ok (event_step ins) event_op_ok ops (snd (snd (event_init s0))) \<Longrightarrow>
   event_inv (fold (event_step ins) ops (snd (snd (event_init s0))))"
  by (rule event_queue.queue_ordered [OF event_queue.intro])
    (simp_all add: event_inv_def event_init_def event_register_def)

theorem event_queue_ordered_witness:
  "event_inv (fold (event_step insert_sorted_ref)
     [Add 70 2 (), Add 10 1 (), Add 70 1 (), Remove 2, Frame 10] (snd (snd (event_init (two_events\<lparr>event_list := []\<rparr>)))))"
  by (rule event_queue_ordered [OF insert_sorted_ref_law])
    (simp_all add: two_events_def event_init_def event_register_def event_add_with_data_def event_add_cmp_def
       event_remove_type_def event_foreach_def event_no_events_def event_type_null_def Let_def)



text \<open>
  A frame: once the due events have run, \<open>event_frame\<close> takes the frame length off every event
  without reordering the queue, and with the clock reduced by the same amount each event is as far
  away as before.
\<close>

lemma event_frame_keeps_schedule:
  fixes s :: "('u, 'z) event_state_scheme"
  assumes "\<forall>d\<in>set reg. \<forall>f. fn d = Some f \<longrightarrow> handler_ok reg f"
    "event_inv s" "event_types_ok reg s" "tstates s < event_no_events" "n \<le> tstates s"
  shows "\<exists>s'. event_do_events reg s = Some s' \<and> event_inv (event_frame n s') \<and>
     map (\<lambda>e. ev_tstates e - (tstates s' - n)) (event_list (event_frame n s')) =
       map (\<lambda>e. ev_tstates e - tstates s') (event_list s') \<and>
     (\<forall>e\<in>set (event_list (event_frame n s')). tstates s' - n < ev_tstates e)"
proof -
  obtain s' where s': "event_do_events reg s = Some s'" "event_inv s'" "tstates s' = tstates s"
      "\<forall>e\<in>set (event_list s'). tstates s < ev_tstates e"
    using event_do_events_finishes [OF assms(1-4)] by blast
  then show ?thesis using event_frame_delays [of s' n] assms(5) by auto
qed

lemma event_frame_keeps_schedule_witness:
  "\<exists>s'. event_do_events retrigger_reg two_events = Some s' \<and> event_inv (event_frame 200 s') \<and>
     map (\<lambda>e. ev_tstates e - (tstates s' - 200)) (event_list (event_frame 200 s')) =
       map (\<lambda>e. ev_tstates e - tstates s') (event_list s')"
  using event_frame_keeps_schedule [OF retrigger_reg_ok, of two_events 200]
  by (auto simp: two_events_def event_inv_def event_types_ok_def retrigger_reg_def event_no_events_def)

end
