(* ===== verification/Memory_Map.thy ===== *)
theory Memory_Map
  imports Events
begin

text \<open>
  The memory of the machine, \<open>memory_pages.c\<close>: 2K chunks described by \<open>memory_page\<close> records, two
  tables of 32 chunks that say what the Z80 reads and writes at each address, the operations that
  map banks into them, and the byte accesses. A C pointer into a memory block is the block and an
  offset; the bytes are in one store, so that a bank mapped at two addresses is one bank.
\<close>

section \<open>State\<close>

text \<open>\<open>RAM[ i ]\<close>, or a block allocated at run time (ROM images, the pool).\<close>

datatype mem_block = RAM nat | Allocated nat

type_synonym pointer = "(mem_block \<times> nat) option"

record memory_page =
  page :: pointer
  writable :: bool
  contended :: bool
  source :: int
  save_to_snapshot :: bool
  page_num :: int
  offset :: u16

record memory_rom_bank =
  data :: "nat option"
  bank_length :: nat
  bank_save :: bool

record memory_pool_entry =
  persistent :: bool
  memory :: nat

text \<open>The fields of \<open>spectrum_raminfo\<close> that say what is paged in.\<close>

record raminfo =
  locked :: bool
  current_page :: nat
  current_rom :: nat
  last_byte :: u8
  last_byte2 :: u8
  special :: bool
  romcs :: bool
  valid_pages :: nat

text \<open>Where a Spectranet device is paged in: the four 4K windows at 0x0000, 0x1000, 0x2000 and 0x3000.\<close>

record windows =
  paged_0 :: bool
  paged_a :: bool
  paged_b :: bool
  paged_3 :: bool

record 'u memory_state = "'u event_state" +
  memory_sources :: "string list"
  memory_map_read :: "memory_page list"
  memory_map_write :: "memory_page list"
  memory_map_ram :: "memory_page list"
  memory_map_rom :: "memory_page list"
  mem :: "mem_block \<Rightarrow> nat \<Rightarrow> u8"
  allocated :: nat
  pool :: "memory_pool_entry list"
  memory_current_screen :: int
  memory_screen_mask :: u16
  ram :: raminfo
  ula_contention :: "u32 \<Rightarrow> u8"
  ula_contention_no_mreq :: "u32 \<Rightarrow> u8"
  debugger_active :: bool
  writable_roms :: bool
  opus_active :: bool
  spectranet_romcs_active :: bool
  spectranet_w5100 :: windows
  spectranet_xfs :: windows
  spectranet_spectranext_config :: windows
  spectranet_flash :: windows
  ttx2000s_paged :: bool
  uspeech_available :: bool
  uspeech_active :: bool

text \<open>
  The devices that answer instead of the mapped memory, the debugger and the display are other
  components: what they do to the state is a parameter.
\<close>

record 's bus_devices =
  debugger_check_read :: "u16 \<Rightarrow> 's \<Rightarrow> 's"
  debugger_check_write :: "u16 \<Rightarrow> 's \<Rightarrow> 's"
  opus_read :: "u16 \<Rightarrow> 's \<Rightarrow> u8 \<times> 's"
  opus_write :: "u16 \<Rightarrow> u8 \<Rightarrow> 's \<Rightarrow> 's"
  spectranet_w5100_read :: "memory_page \<Rightarrow> u16 \<Rightarrow> 's \<Rightarrow> u8 \<times> 's"
  spectranet_w5100_write :: "memory_page \<Rightarrow> u16 \<Rightarrow> u8 \<Rightarrow> 's \<Rightarrow> 's"
  spectranet_xfs_read :: "memory_page \<Rightarrow> u16 \<Rightarrow> 's \<Rightarrow> u8 \<times> 's"
  spectranet_xfs_write :: "memory_page \<Rightarrow> u16 \<Rightarrow> u8 \<Rightarrow> 's \<Rightarrow> 's"
  spectranet_config_read :: "memory_page \<Rightarrow> u16 \<Rightarrow> 's \<Rightarrow> u8 \<times> 's"
  spectranet_config_write :: "memory_page \<Rightarrow> u16 \<Rightarrow> u8 \<Rightarrow> 's \<Rightarrow> 's"
  spectranet_flash_rom_read :: "memory_page \<Rightarrow> u16 \<Rightarrow> 's \<Rightarrow> u8 \<times> 's"
  spectranet_flash_rom_write :: "u16 \<Rightarrow> u8 \<Rightarrow> 's \<Rightarrow> 's"
  ttx2000s_sram_read :: "u16 \<Rightarrow> 's \<Rightarrow> u8 \<times> 's"
  ttx2000s_sram_write :: "u16 \<Rightarrow> u8 \<Rightarrow> 's \<Rightarrow> 's"
  uspeech_toggle :: "'s \<Rightarrow> 's"
  uspeech_busy :: "'s \<Rightarrow> u8 \<times> 's"
  uspeech_write :: "u16 \<Rightarrow> u8 \<Rightarrow> 's \<Rightarrow> 's"
  memory_display_dirty :: "u16 \<Rightarrow> u8 \<Rightarrow> 's \<Rightarrow> 's"

text \<open>The order in which \<open>memory_init\<close> registers the sources.\<close>

definition memory_source_rom :: int where "memory_source_rom = 0"
definition memory_source_ram :: int where "memory_source_ram = 1"
definition memory_source_dock :: int where "memory_source_dock = 2"
definition memory_source_exrom :: int where "memory_source_exrom = 3"
definition memory_source_any :: int where "memory_source_any = 4"
definition memory_source_none :: int where "memory_source_none = 5"

abbreviation (input) "MEMORY_PAGE_SIZE \<equiv> 2048 :: nat"
abbreviation (input) "MEMORY_PAGES_IN_16K \<equiv> 8 :: nat"
abbreviation (input) "MEMORY_PAGES_IN_8K \<equiv> 4 :: nat"
abbreviation (input) "MEMORY_PAGES_IN_4K \<equiv> 2 :: nat"
abbreviation (input) "MEMORY_PAGES_IN_2K \<equiv> 1 :: nat"
abbreviation (input) "MEMORY_PAGES_IN_64K \<equiv> 32 :: nat"
abbreviation (input) "SPECTRUM_RAM_PAGES \<equiv> 65 :: nat"
abbreviation (input) "SPECTRUM_ROM_PAGES \<equiv> 4 :: nat"

section \<open>Sources and initialisation\<close>

definition memory_source_register :: "string \<Rightarrow> ('u, 'z) memory_state_scheme \<Rightarrow> int \<times> ('u, 'z) memory_state_scheme" where
  "memory_source_register desc s =
    (int (length (memory_sources s)), s\<lparr>memory_sources := memory_sources s @ [desc]\<rparr>)"

definition memory_source_description :: "int \<Rightarrow> ('u, 'z) memory_state_scheme \<Rightarrow> string" where
  "memory_source_description src s = memory_sources s ! nat src"

definition tolower :: "char \<Rightarrow> char" where
  "tolower c = (if of_char c \<in> {65..(90 :: nat)} then char_of (of_char c + (32 :: nat)) else c)"

definition strcasecmp_eq :: "string \<Rightarrow> string \<Rightarrow> bool" where
  "strcasecmp_eq a b \<longleftrightarrow> List.map tolower a = List.map tolower b"

fun source_find_from :: "int \<Rightarrow> string \<Rightarrow> string list \<Rightarrow> int" where
  "source_find_from i desc [] = -1"
| "source_find_from i desc (found # rest) =
    (if strcasecmp_eq desc found then i else source_find_from (i + 1) desc rest)"

definition memory_source_find :: "string \<Rightarrow> ('u, 'z) memory_state_scheme \<Rightarrow> int" where
  "memory_source_find desc s = source_find_from 0 desc (memory_sources s)"

definition init_rom_page :: "memory_page \<Rightarrow> memory_page" where
  "init_rom_page p = p\<lparr>writable := False, contended := False, source := memory_source_rom\<rparr>"

definition init_ram_page :: "nat \<Rightarrow> nat \<Rightarrow> memory_page \<Rightarrow> memory_page" where
  "init_ram_page i j p =
    p\<lparr>page := Some (RAM i, j * MEMORY_PAGE_SIZE), page_num := int i,
      offset := word_of_nat (j * MEMORY_PAGE_SIZE), writable := True, source := memory_source_ram\<rparr>"

definition memory_init :: "('u, 'z) memory_state_scheme \<Rightarrow> ('u, 'z) memory_state_scheme" where
  "memory_init s =
    (let s1 = fold (\<lambda>d s. snd (memory_source_register d s))
                [''ROM'', ''RAM'', ''Timex Dock'', ''Timex EXROM'', ''Absolute address'', ''None'']
                (s\<lparr>memory_sources := []\<rparr>)
     in s1\<lparr>pool := [],
           memory_map_rom := List.map init_rom_page (memory_map_rom s1),
           memory_map_ram := map2 (\<lambda>k. init_ram_page (k div MEMORY_PAGES_IN_16K) (k mod MEMORY_PAGES_IN_16K))
             [0..<SPECTRUM_RAM_PAGES * MEMORY_PAGES_IN_16K] (memory_map_ram s1)\<rparr>)"

section \<open>ROM banks and the pool\<close>

definition memory_rom_bank_clear :: "memory_rom_bank \<Rightarrow> memory_rom_bank" where
  "memory_rom_bank_clear bank = bank\<lparr>data := None, bank_length := 0, bank_save := False\<rparr>"

text \<open>\<open>memcpy\<close> of a list of bytes to the start of a block.\<close>

definition fill_block :: "u8 list \<Rightarrow> (nat \<Rightarrow> u8) \<Rightarrow> nat \<Rightarrow> u8" where
  "fill_block bs f = (\<lambda>i. if i < length bs then bs ! i else f i)"

text \<open>\<open>ok\<close>: whether \<open>libspectrum_new\<close> returned memory.\<close>

definition memory_rom_bank_set ::
  "bool \<Rightarrow> memory_rom_bank \<Rightarrow> u8 list \<Rightarrow> bool \<Rightarrow> ('u, 'z) memory_state_scheme \<Rightarrow>
   int \<times> memory_rom_bank \<times> ('u, 'z) memory_state_scheme" where
  "memory_rom_bank_set ok bank bytes save s =
    (if \<not> ok then (1, bank, s)
     else (0, (memory_rom_bank_clear bank)\<lparr>data := Some (allocated s), bank_length := length bytes, bank_save := save\<rparr>,
           s\<lparr>mem := (mem s)(Allocated (allocated s) := fill_block bytes (mem s (Allocated (allocated s)))),
             allocated := allocated s + 1\<rparr>))"

definition memory_rom_bank_map :: "memory_rom_bank \<Rightarrow> memory_page list \<Rightarrow> nat \<Rightarrow> memory_page list" where
  "memory_rom_bank_map bank mp pnum =
    fold (\<lambda>k mp. mp[pnum * MEMORY_PAGES_IN_16K + k :=
        (mp ! (pnum * MEMORY_PAGES_IN_16K + k))
          \<lparr>offset := word_of_nat (k * MEMORY_PAGE_SIZE), page_num := int pnum,
           page := map_option (\<lambda>b. (Allocated b, k * MEMORY_PAGE_SIZE)) (data bank),
           writable := False, save_to_snapshot := bank_save bank\<rparr>])
      [0..<(bank_length bank + (MEMORY_PAGE_SIZE - 1)) div MEMORY_PAGE_SIZE] mp"

definition memory_pool_allocate_persistent ::
  "nat \<Rightarrow> bool \<Rightarrow> ('u, 'z) memory_state_scheme \<Rightarrow> nat \<times> ('u, 'z) memory_state_scheme" where
  "memory_pool_allocate_persistent len per s =
    (let b = allocated s
     in (b, s\<lparr>mem := (mem s)(Allocated b := fill_block (replicate len 0) (mem s (Allocated b))),
              allocated := b + 1, pool := \<lparr>persistent = per, memory = b\<rparr> # pool s\<rparr>))"

definition memory_pool_allocate ::
  "nat \<Rightarrow> ('u, 'z) memory_state_scheme \<Rightarrow> nat \<times> ('u, 'z) memory_state_scheme" where
  "memory_pool_allocate len = memory_pool_allocate_persistent len False"

text \<open>\<open>memory_pool_free\<close>: take out the first entry that is not persistent, until there is none.\<close>

function pool_free_loop :: "memory_pool_entry list \<Rightarrow> memory_pool_entry list" where
  "pool_free_loop p = (case find (\<lambda>e. \<not> persistent e) p of None \<Rightarrow> p | Some e \<Rightarrow> pool_free_loop (remove1 e p))"
  by pat_completeness auto

termination
  by (relation "measure length") (auto simp: find_Some_iff length_remove1 intro!: diff_less)

declare pool_free_loop.simps [simp del]

definition memory_pool_free :: "('u, 'z) memory_state_scheme \<Rightarrow> ('u, 'z) memory_state_scheme" where
  "memory_pool_free s = s\<lparr>pool := pool_free_loop (pool s)\<rparr>"

definition memory_ram_set_16k_contention :: "nat \<Rightarrow> bool \<Rightarrow> ('u, 'z) memory_state_scheme \<Rightarrow> ('u, 'z) memory_state_scheme" where
  "memory_ram_set_16k_contention pnum c s =
    s\<lparr>memory_map_ram := fold (\<lambda>i mp. mp[pnum * MEMORY_PAGES_IN_16K + i := (mp ! (pnum * MEMORY_PAGES_IN_16K + i))\<lparr>contended := c\<rparr>])
        [0..<MEMORY_PAGES_IN_16K] (memory_map_ram s)\<rparr>"

section \<open>Mapping\<close>

definition memory_map_2k_read_write ::
  "u16 \<Rightarrow> memory_page list \<Rightarrow> nat \<Rightarrow> bool \<Rightarrow> bool \<Rightarrow> ('u, 'z) memory_state_scheme \<Rightarrow> ('u, 'z) memory_state_scheme" where
  "memory_map_2k_read_write address src pnum map_read map_write s =
    fold (\<lambda>i s. let page_offset = unat (drop_bit 11 address) + i; p = src ! (pnum * MEMORY_PAGES_IN_2K + i)
                in s\<lparr>memory_map_read := (if map_read then (memory_map_read s)[page_offset := p] else memory_map_read s),
                     memory_map_write := (if map_write then (memory_map_write s)[page_offset := p] else memory_map_write s)\<rparr>)
      [0..<MEMORY_PAGES_IN_2K] s"

definition memory_map_4k_read_write ::
  "u16 \<Rightarrow> memory_page list \<Rightarrow> nat \<Rightarrow> bool \<Rightarrow> bool \<Rightarrow> ('u, 'z) memory_state_scheme \<Rightarrow> ('u, 'z) memory_state_scheme" where
  "memory_map_4k_read_write address src pnum map_read map_write s =
    memory_map_2k_read_write (address + 0x0800) src (pnum * 2 + 1) map_read map_write
      (memory_map_2k_read_write address src (pnum * 2) map_read map_write s)"

definition memory_map_8k_read_write ::
  "u16 \<Rightarrow> memory_page list \<Rightarrow> nat \<Rightarrow> bool \<Rightarrow> bool \<Rightarrow> ('u, 'z) memory_state_scheme \<Rightarrow> ('u, 'z) memory_state_scheme" where
  "memory_map_8k_read_write address src pnum map_read map_write s =
    memory_map_4k_read_write (address + 0x1000) src (pnum * 2 + 1) map_read map_write
      (memory_map_4k_read_write address src (pnum * 2) map_read map_write s)"

definition memory_map_16k_read_write ::
  "u16 \<Rightarrow> memory_page list \<Rightarrow> nat \<Rightarrow> bool \<Rightarrow> bool \<Rightarrow> ('u, 'z) memory_state_scheme \<Rightarrow> ('u, 'z) memory_state_scheme" where
  "memory_map_16k_read_write address src pnum map_read map_write s =
    memory_map_8k_read_write (address + 0x2000) src (pnum * 2 + 1) map_read map_write
      (memory_map_8k_read_write address src (pnum * 2) map_read map_write s)"

definition memory_map_16k ::
  "u16 \<Rightarrow> memory_page list \<Rightarrow> nat \<Rightarrow> ('u, 'z) memory_state_scheme \<Rightarrow> ('u, 'z) memory_state_scheme" where
  "memory_map_16k address src pnum = memory_map_16k_read_write address src pnum True True"

definition memory_map_8k ::
  "u16 \<Rightarrow> memory_page list \<Rightarrow> nat \<Rightarrow> ('u, 'z) memory_state_scheme \<Rightarrow> ('u, 'z) memory_state_scheme" where
  "memory_map_8k address src pnum = memory_map_8k_read_write address src pnum True True"

text \<open>\<open>source\<close> is an array of pointers to pages here: the pages themselves.\<close>

definition memory_map_page :: "memory_page list \<Rightarrow> nat \<Rightarrow> ('u, 'z) memory_state_scheme \<Rightarrow> ('u, 'z) memory_state_scheme" where
  "memory_map_page src pnum s =
    s\<lparr>memory_map_read := (memory_map_read s)[pnum := src ! pnum],
      memory_map_write := (memory_map_write s)[pnum := src ! pnum]\<rparr>"

definition memory_map_romcs_full :: "memory_page list \<Rightarrow> ('u, 'z) memory_state_scheme \<Rightarrow> ('u, 'z) memory_state_scheme" where
  "memory_map_romcs_full src = memory_map_16k 0x0000 src 0"

definition memory_map_romcs_8k :: "u16 \<Rightarrow> memory_page list \<Rightarrow> ('u, 'z) memory_state_scheme \<Rightarrow> ('u, 'z) memory_state_scheme" where
  "memory_map_romcs_8k address src = memory_map_8k address src 0"

definition memory_map_romcs_4k :: "u16 \<Rightarrow> memory_page list \<Rightarrow> ('u, 'z) memory_state_scheme \<Rightarrow> ('u, 'z) memory_state_scheme" where
  "memory_map_romcs_4k address src = memory_map_4k_read_write address src 0 True True"

definition memory_map_romcs_2k :: "u16 \<Rightarrow> memory_page list \<Rightarrow> ('u, 'z) memory_state_scheme \<Rightarrow> ('u, 'z) memory_state_scheme" where
  "memory_map_romcs_2k address src = memory_map_2k_read_write address src 0 True True"

section \<open>Byte accesses\<close>

text \<open>\<open>mapping->page[ address & MEMORY_PAGE_SIZE_MASK ]\<close>: the place, its byte, and the store with the byte changed.\<close>

definition page_offset :: "u16 \<Rightarrow> nat" where
  "page_offset address = unat (address AND 0x07ff)"

definition read_mapping :: "u16 \<Rightarrow> ('u, 'z) memory_state_scheme \<Rightarrow> memory_page" where
  "read_mapping address s = memory_map_read s ! unat (drop_bit 11 address)"

definition write_mapping :: "u16 \<Rightarrow> ('u, 'z) memory_state_scheme \<Rightarrow> memory_page" where
  "write_mapping address s = memory_map_write s ! unat (drop_bit 11 address)"

fun deref :: "pointer \<Rightarrow> nat \<Rightarrow> (mem_block \<Rightarrow> nat \<Rightarrow> u8) \<Rightarrow> u8" where
  "deref (Some (b, base)) k m = m b (base + k)"
| "deref None k m = 0"

fun store_at :: "pointer \<Rightarrow> nat \<Rightarrow> u8 \<Rightarrow> (mem_block \<Rightarrow> nat \<Rightarrow> u8) \<Rightarrow> mem_block \<Rightarrow> nat \<Rightarrow> u8" where
  "store_at (Some (b, base)) k v m = m(b := (m b)(base + k := v))"
| "store_at None k v m = m"

definition readbyte_internal :: "u16 \<Rightarrow> ('u, 'z) memory_state_scheme \<Rightarrow> u8" where
  "readbyte_internal address s = deref (page (read_mapping address s)) (page_offset address) (mem s)"

text \<open>The windows are tested in the order of the four bases; the addresses do not overlap.\<close>

definition in_window :: "windows \<Rightarrow> u16 \<Rightarrow> bool" where
  "in_window w address \<longleftrightarrow>
     (paged_0 w \<and> address < 0x1000) \<or> (paged_a w \<and> address \<ge> 0x1000 \<and> address < 0x2000) \<or>
     (paged_b w \<and> address \<ge> 0x2000 \<and> address < 0x3000) \<or> (paged_3 w \<and> address \<ge> 0x3000)"

text \<open>The M-cycle of an access: \<open>if( mapping->contended ) tstates += ula_contention[ tstates ]; tstates += 3\<close>.\<close>

definition access_time :: "memory_page \<Rightarrow> ('u, 'z) memory_state_scheme \<Rightarrow> ('u, 'z) memory_state_scheme" where
  "access_time mapping s =
    (let t = (if contended mapping then tstates s + ucast (ula_contention s (tstates s)) else tstates s)
     in s\<lparr>tstates := t + 3\<rparr>)"

definition readbyte ::
  "('u, 'z) memory_state_scheme bus_devices \<Rightarrow> u16 \<Rightarrow> ('u, 'z) memory_state_scheme \<Rightarrow> u8 \<times> ('u, 'z) memory_state_scheme" where
  "readbyte dev address s0 =
    (let s1 = (if debugger_active s0 then debugger_check_read dev address s0 else s0);
         s = access_time (read_mapping address s1) s1;
         mapping = read_mapping address s
     in if address < 0x4000 \<and> opus_active s \<and> address \<ge> 0x2800 \<and> address < 0x3800 then opus_read dev address s
        else if address < 0x4000 \<and> spectranet_romcs_active s \<and> in_window (spectranet_w5100 s) address
        then spectranet_w5100_read dev mapping address s
        else if address < 0x4000 \<and> spectranet_romcs_active s \<and> in_window (spectranet_xfs s) address
        then spectranet_xfs_read dev mapping address s
        else if address < 0x4000 \<and> spectranet_romcs_active s \<and> in_window (spectranet_spectranext_config s) address
        then spectranet_config_read dev mapping address s
        else if address < 0x4000 \<and> spectranet_romcs_active s \<and> in_window (spectranet_flash s) address
        then spectranet_flash_rom_read dev mapping address s
        else if address < 0x4000 \<and> ttx2000s_paged s \<and> address \<ge> 0x2000 then ttx2000s_sram_read dev address s
        else if address < 0x4000 \<and> uspeech_available s \<and> address = 0x0038 then
          (let s' = uspeech_toggle dev s in (readbyte_internal address s', s'))
        else if address < 0x4000 \<and> uspeech_available s \<and> uspeech_active s \<and> address AND 0xf000 = 0x1000
        then uspeech_busy dev s
        else (readbyte_internal address s, s))"

definition memory_display_dirty_pentagon_16_col ::
  "(u16 \<Rightarrow> ('u, 'z) memory_state_scheme \<Rightarrow> ('u, 'z) memory_state_scheme) \<Rightarrow>
   u16 \<Rightarrow> u8 \<Rightarrow> ('u, 'z) memory_state_scheme \<Rightarrow> ('u, 'z) memory_state_scheme" where
  "memory_display_dirty_pentagon_16_col display_dirty address b s =
    (let mapping = write_mapping address s;
         offset2 = (address AND 0x07ff) + offset mapping
     in if source mapping = memory_source_ram \<and>
           ((memory_current_screen s = 5 \<and> (page_num mapping = 5 \<or> page_num mapping = 4)) \<or>
            (memory_current_screen s = 7 \<and> (page_num mapping = 7 \<or> page_num mapping = 6))) \<and>
           offset2 AND 0xdfff < 0x1b00 \<and>
           deref (page mapping) (page_offset address) (mem s) \<noteq> b
        then display_dirty offset2 s else s)"

definition memory_display_dirty_sinclair ::
  "(u16 \<Rightarrow> ('u, 'z) memory_state_scheme \<Rightarrow> ('u, 'z) memory_state_scheme) \<Rightarrow>
   u16 \<Rightarrow> u8 \<Rightarrow> ('u, 'z) memory_state_scheme \<Rightarrow> ('u, 'z) memory_state_scheme" where
  "memory_display_dirty_sinclair display_dirty address b s =
    (let mapping = write_mapping address s;
         offset2 = (address AND 0x07ff) + offset mapping
     in if source mapping = memory_source_ram \<and> page_num mapping = memory_current_screen s \<and>
           offset2 AND memory_screen_mask s < 0x1b00 \<and>
           deref (page mapping) (page_offset address) (mem s) \<noteq> b
        then display_dirty offset2 s else s)"

text \<open>The \<open>mapping\<close> of both accesses is a pointer into a table: it is read again after each call that may remap.\<close>

definition writebyte_memory ::
  "('u, 'z) memory_state_scheme bus_devices \<Rightarrow> u16 \<Rightarrow> u8 \<Rightarrow> ('u, 'z) memory_state_scheme \<Rightarrow> ('u, 'z) memory_state_scheme" where
  "writebyte_memory dev address b s =
    (let mapping = write_mapping address s
     in if writable mapping \<or> (source mapping \<noteq> memory_source_none \<and> writable_roms s) then
          (let s' = memory_display_dirty dev address b s
           in s'\<lparr>mem := store_at (page mapping) (page_offset address) b (mem s')\<rparr>)
        else if uspeech_available s then
          (if uspeech_active s \<and> address AND 0xf000 = 0x1000 then uspeech_write dev (address AND 0xf000) b s
           else if uspeech_active s \<and> address AND 0xf000 = 0x3000 then uspeech_write dev (address AND 0xf001) b s
           else if address = 0x0038 then uspeech_toggle dev s else s)
        else s)"

definition writebyte_overlay ::
  "('u, 'z) memory_state_scheme bus_devices \<Rightarrow> u16 \<Rightarrow> u8 \<Rightarrow> ('u, 'z) memory_state_scheme \<Rightarrow> ('u, 'z) memory_state_scheme" where
  "writebyte_overlay dev address b s =
    (if ttx2000s_paged s \<and> address \<ge> 0x2000 \<and> address < 0x4000 then ttx2000s_sram_write dev address b s
     else if opus_active s \<and> address \<ge> 0x2800 \<and> address < 0x3800 then opus_write dev address b s
     else writebyte_memory dev address b s)"

definition writebyte_internal ::
  "('u, 'z) memory_state_scheme bus_devices \<Rightarrow> u16 \<Rightarrow> u8 \<Rightarrow> ('u, 'z) memory_state_scheme \<Rightarrow> ('u, 'z) memory_state_scheme" where
  "writebyte_internal dev address b s =
    (if spectranet_romcs_active s then
       (let s1 = spectranet_flash_rom_write dev address b s; mapping = write_mapping address s1
        in if in_window (spectranet_w5100 s1) address then spectranet_w5100_write dev mapping address b s1
           else if in_window (spectranet_xfs s1) address then spectranet_xfs_write dev mapping address b s1
           else if in_window (spectranet_spectranext_config s1) address
           then spectranet_config_write dev mapping address b s1
           else writebyte_overlay dev address b s1)
     else writebyte_overlay dev address b s)"

definition writebyte ::
  "('u, 'z) memory_state_scheme bus_devices \<Rightarrow> u16 \<Rightarrow> u8 \<Rightarrow> ('u, 'z) memory_state_scheme \<Rightarrow> ('u, 'z) memory_state_scheme" where
  "writebyte dev address b s0 =
    (let s1 = (if debugger_active s0 then debugger_check_write dev address s0 else s0)
     in writebyte_internal dev address b (access_time (write_mapping address s1) s1))"

definition memory_romcs_map ::
  "(('u, 'z) memory_state_scheme \<Rightarrow> ('u, 'z) memory_state_scheme) \<Rightarrow> ('u, 'z) memory_state_scheme \<Rightarrow> ('u, 'z) memory_state_scheme" where
  "memory_romcs_map module_romcs s = (if \<not> romcs (ram s) then s else module_romcs s)"

section \<open>Snapshots of the memory\<close>

text \<open>The fields of a libspectrum snapshot that the memory code sets and reads; a page or ROM not set is \<open>None\<close>.\<close>

record memory_snap =
  snap_out_128_memoryport :: u8
  snap_out_plus3_memoryport :: u8
  snap_pages :: "nat \<Rightarrow> u8 list option"
  snap_custom_rom :: bool
  snap_custom_rom_pages :: nat
  snap_roms :: "nat \<Rightarrow> u8 list option"

definition memory_custom_rom :: "('u, 'z) memory_state_scheme \<Rightarrow> bool" where
  "memory_custom_rom s \<longleftrightarrow>
    (\<exists>i\<in>set [0..<SPECTRUM_ROM_PAGES * MEMORY_PAGES_IN_16K]. save_to_snapshot (memory_map_rom s ! i))"

definition memory_reset :: "('u, 'z) memory_state_scheme \<Rightarrow> ('u, 'z) memory_state_scheme" where
  "memory_reset s =
    s\<lparr>memory_map_rom := fold (\<lambda>i mp. mp[i := (mp ! i)\<lparr>save_to_snapshot := False\<rparr>])
        [0..<SPECTRUM_ROM_PAGES * MEMORY_PAGES_IN_16K] (memory_map_rom s)\<rparr>"

definition page_bytes :: "memory_page \<Rightarrow> (mem_block \<Rightarrow> nat \<Rightarrow> u8) \<Rightarrow> u8 list" where
  "page_bytes p m = List.map (\<lambda>k. deref (page p) k m) [0..<MEMORY_PAGE_SIZE]"

text \<open>The variables of the loop of \<open>memory_rom_to_snapshot\<close>.\<close>

record rom_writer =
  current_image :: "u8 list option"
  image_page :: int
  images :: "u8 list list"

definition write_rom_to_snap :: "rom_writer \<Rightarrow> rom_writer" where
  "write_rom_to_snap w = (case current_image w of None \<Rightarrow> w
     | Some r \<Rightarrow> w\<lparr>images := images w @ [r], current_image := None\<rparr>)"

definition rom_writer_step :: "(mem_block \<Rightarrow> nat \<Rightarrow> u8) \<Rightarrow> memory_page \<Rightarrow> rom_writer \<Rightarrow> rom_writer" where
  "rom_writer_step m p w =
    (if page p = None then w
     else if image_page w \<noteq> page_num p then
       (write_rom_to_snap w)\<lparr>current_image := Some (page_bytes p m), image_page := page_num p\<rparr>
     else (case current_image w of None \<Rightarrow> w
       | Some r \<Rightarrow> w\<lparr>current_image := Some (r @ page_bytes p m)\<rparr>))"

definition rom_images :: "(mem_block \<Rightarrow> nat \<Rightarrow> u8) \<Rightarrow> memory_page list \<Rightarrow> u8 list list" where
  "rom_images m mp =
    images (write_rom_to_snap (fold (rom_writer_step m) mp \<lparr>current_image = None, image_page = -1, images = []\<rparr>))"

definition memory_rom_to_snapshot :: "('u, 'z) memory_state_scheme \<Rightarrow> memory_snap \<Rightarrow> memory_snap" where
  "memory_rom_to_snapshot s sn =
    (if \<not> memory_custom_rom s then sn
     else (let rs = rom_images (mem s) (memory_map_rom s)
           in sn\<lparr>snap_custom_rom := True,
                 snap_roms := (\<lambda>i. if i < length rs then Some (rs ! i) else snap_roms sn i),
                 snap_custom_rom_pages := length rs\<rparr>))"

definition memory_to_snapshot :: "('u, 'z) memory_state_scheme \<Rightarrow> memory_snap \<Rightarrow> memory_snap" where
  "memory_to_snapshot s sn =
    memory_rom_to_snapshot s
      (sn\<lparr>snap_out_128_memoryport := last_byte (ram s),
          snap_out_plus3_memoryport := last_byte2 (ram s),
          snap_pages := (\<lambda>i. if i < 64 then Some (List.map (mem s (RAM i)) [0..<0x4000]) else snap_pages sn i)\<rparr>)"

section \<open>ROM traps\<close>

datatype libspectrum_machine =
    MACHINE_16 | MACHINE_48 | MACHINE_48_NTSC | MACHINE_128 | MACHINE_PLUS2 | MACHINE_128E
  | MACHINE_PLUS2A | MACHINE_PLUS3 | MACHINE_PLUS3E | MACHINE_PENT | MACHINE_PENT512
  | MACHINE_PENT1024 | MACHINE_SCORP | MACHINE_TC2048 | MACHINE_TC2068 | MACHINE_TS2068
  | MACHINE_SE | MACHINE_UNKNOWN

datatype trap_type = CHECK_TAPE_ROM | CHECK_48K_ROM

record disk_flags =
  plusd_available :: bool
  plusd_active :: bool
  disciple_available :: bool
  disciple_active :: bool
  opus_available :: bool
  beta_active :: bool

text \<open>\<open>None\<close>: \<open>fuse_abort\<close>.\<close>

definition trap_check_rom ::
  "trap_type \<Rightarrow> libspectrum_machine \<Rightarrow> disk_flags \<Rightarrow> ('u, 'z) memory_state_scheme \<Rightarrow> bool option" where
  "trap_check_rom ty machine d s =
    (if plusd_available d \<and> plusd_active d then Some False
     else if disciple_available d \<and> disciple_active d then Some False
     else if opus_available d \<and> opus_active s then Some False
     else if machine \<in> {MACHINE_16, MACHINE_48, MACHINE_48_NTSC, MACHINE_SE, MACHINE_TC2048} then Some True
     else if machine \<in> {MACHINE_TC2068, MACHINE_TS2068} then
       (if ty = CHECK_TAPE_ROM then Some (source (memory_map_read s ! 0) = memory_source_exrom)
        else Some (current_rom (ram s) = 0))
     else if machine \<in> {MACHINE_128, MACHINE_PLUS2} then Some (current_rom (ram s) = 1)
     else if machine \<in> {MACHINE_PLUS2A, MACHINE_PLUS3, MACHINE_PLUS3E} then
       Some (\<not> special (ram s) \<and> current_rom (ram s) = 3)
     else if machine = MACHINE_128E then
       Some (\<not> special (ram s) \<and> (current_rom (ram s) = 1 \<or> current_rom (ram s) = 3))
     else if machine \<in> {MACHINE_PENT, MACHINE_PENT512, MACHINE_PENT1024, MACHINE_SCORP} then
       Some (current_rom (ram s) = 1 \<and> \<not> beta_active d)
     else None)"

section \<open>The contract of the mapping operations\<close>

text \<open>
  Each operation copies \<open>n\<close> consecutive pages of the source, starting at page \<open>k * n\<close>, into the
  slots of the tables that start at the address. A size is two of the size below.
\<close>

definition splice :: "nat \<Rightarrow> nat \<Rightarrow> memory_page list \<Rightarrow> nat \<Rightarrow> memory_page list \<Rightarrow> memory_page list" where
  "splice i n src k old = List.map (\<lambda>j. if i \<le> j \<and> j < i + n then src ! (k * n + (j - i)) else old ! j) [0..<length old]"

locale region_map =
  fixes mapf :: "u16 \<Rightarrow> memory_page list \<Rightarrow> nat \<Rightarrow> bool \<Rightarrow> bool \<Rightarrow> ('u, 'z) memory_state_scheme \<Rightarrow> ('u, 'z) memory_state_scheme"
    and n :: nat
  assumes map_law: "unat (drop_bit 11 a) + n \<le> 32 \<Longrightarrow>
    mapf a src k r w s =
      s\<lparr>memory_map_read := (if r then splice (unat (drop_bit 11 a)) n src k (memory_map_read s) else memory_map_read s),
        memory_map_write := (if w then splice (unat (drop_bit 11 a)) n src k (memory_map_write s) else memory_map_write s)\<rparr>"

lemma splice_simps [simp]:
  "length (splice i n src k old) = length old"
  "j < length old \<Longrightarrow> splice i n src k old ! j = (if i \<le> j \<and> j < i + n then src ! (k * n + (j - i)) else old ! j)"
  by (simp_all add: splice_def)

lemma splice_double:
  "splice (i + n) n src (2 * k + 1) (splice i n src (2 * k) old) = splice i (2 * n) src k old"
proof (rule nth_equalityI)
  fix j assume "j < length (splice (i + n) n src (2 * k + 1) (splice i n src (2 * k) old))"
  then show "splice (i + n) n src (2 * k + 1) (splice i n src (2 * k) old) ! j = splice i (2 * n) src k old ! j"
    by (auto simp: algebra_simps not_less intro!: arg_cong [where f = "nth src"])
qed simp

lemma unat_slot: "unat (drop_bit 11 (a :: u16)) = unat a div 2048"
  by (simp add: drop_bit_eq_div unat_div_distrib)

lemma slot_add:
  assumes "unat (drop_bit 11 (a :: u16)) + 2 * n \<le> 32" "0 < n"
  shows "unat (drop_bit 11 (a + of_nat (2048 * n))) = unat (drop_bit 11 a) + n"
proof -
  have n: "unat a div 2048 + 2 * n \<le> 32" using assms(1) by (simp add: unat_slot)
  then have "unat a + 2048 * n < 65536" using assms(2) by linarith
  then have "unat (a + of_nat (2048 * n)) = unat a + 2048 * n" 
    using n by (simp add: unat_word_ariths unat_of_nat mod_simps del: of_nat_mult)
  then show ?thesis by (simp add: unat_slot)
qed

lemma region_double:
  assumes f: "region_map f n" "0 < n"
    and g: "\<And>a src k r w s. g a src k r w s = f (a + of_nat (2048 * n)) src (k * 2 + 1) r w (f a src (k * 2) r w s)"
  shows "region_map g (2 * n)"
proof
  fix a :: u16 and src k r w and s :: "('a, 'b) memory_state_scheme"
  assume a: "unat (drop_bit 11 a) + 2 * n \<le> 32"
  have slots: "unat (drop_bit 11 a) + n \<le> 32" "unat (drop_bit 11 (a + of_nat (2048 * n))) + n \<le> 32"
      "unat (drop_bit 11 (a + of_nat (2048 * n))) = unat (drop_bit 11 a) + n"
    using a slot_add [OF a f(2)] by simp_all
  show "g a src k r w s =
      s\<lparr>memory_map_read := (if r then splice (unat (drop_bit 11 a)) (2 * n) src k (memory_map_read s) else memory_map_read s),
        memory_map_write := (if w then splice (unat (drop_bit 11 a)) (2 * n) src k (memory_map_write s) else memory_map_write s)\<rparr>"
    unfolding g region_map.map_law [OF f(1) slots(1)] region_map.map_law [OF f(1) slots(2)] slots(3)
    using splice_double [of "unat (drop_bit 11 a)" n src k] by (simp add: mult.commute [of k])
qed

lemma region_2k: "region_map memory_map_2k_read_write 1"
proof
  fix a :: u16 and src k r w and s :: "('a, 'b) memory_state_scheme"
  have "xs[unat (drop_bit 11 a) := src ! k] = splice (unat (drop_bit 11 a)) 1 src k xs" for xs
    by (rule nth_equalityI) (auto simp: nth_list_update)
  then show "memory_map_2k_read_write a src k r w s =
      s\<lparr>memory_map_read := (if r then splice (unat (drop_bit 11 a)) 1 src k (memory_map_read s) else memory_map_read s),
        memory_map_write := (if w then splice (unat (drop_bit 11 a)) 1 src k (memory_map_write s) else memory_map_write s)\<rparr>"
    by (simp add: memory_map_2k_read_write_def Let_def)
qed

interpretation r2k: region_map memory_map_2k_read_write 1
  by (rule region_2k)

interpretation r4k: region_map memory_map_4k_read_write 2
  using region_double [OF region_2k, of memory_map_4k_read_write] by (simp add: memory_map_4k_read_write_def)

interpretation r8k: region_map memory_map_8k_read_write 4
  using region_double [OF r4k.region_map_axioms, of memory_map_8k_read_write] by (simp add: memory_map_8k_read_write_def)

interpretation r16k: region_map memory_map_16k_read_write 8
  using region_double [OF r8k.region_map_axioms, of memory_map_16k_read_write] by (simp add: memory_map_16k_read_write_def)

section \<open>What an access reads and changes\<close>

text \<open>The byte an address stands for through a page.\<close>

definition phys :: "memory_page \<Rightarrow> u16 \<Rightarrow> (mem_block \<times> nat) option" where
  "phys p address = map_option (\<lambda>(b, base). (b, base + page_offset address)) (page p)"

text \<open>No device answers in place of the mapped memory and the debugger is off.\<close>

definition plain_bus :: "('u, 'z) memory_state_scheme \<Rightarrow> bool" where
  "plain_bus s \<longleftrightarrow> \<not> debugger_active s \<and> \<not> opus_active s \<and> \<not> spectranet_romcs_active s \<and>
     \<not> ttx2000s_paged s \<and> \<not> uspeech_available s"

text \<open>Marking the display dirty leaves the memory state alone.\<close>

definition display_hook_ok :: "('u, 'z) memory_state_scheme bus_devices \<Rightarrow> bool" where
  "display_hook_ok dev \<longleftrightarrow>
    (\<forall>a b s. memory_state.truncate (memory_display_dirty dev a b s) = memory_state.truncate s)"

definition writes_through :: "u16 \<Rightarrow> ('u, 'z) memory_state_scheme \<Rightarrow> bool" where
  "writes_through address s \<longleftrightarrow> writable (write_mapping address s) \<or>
     (source (write_mapping address s) \<noteq> memory_source_none \<and> writable_roms s)"

lemma access_time_frame [simp]:
  "memory_map_read (access_time p s) = memory_map_read s" "memory_map_write (access_time p s) = memory_map_write s"
  "mem (access_time p s) = mem s" "debugger_active (access_time p s) = debugger_active s"
  "opus_active (access_time p s) = opus_active s" "spectranet_romcs_active (access_time p s) = spectranet_romcs_active s"
  "ttx2000s_paged (access_time p s) = ttx2000s_paged s" "uspeech_available (access_time p s) = uspeech_available s"
  "writable_roms (access_time p s) = writable_roms s"
  "read_mapping a (access_time p s) = read_mapping a s" "write_mapping a (access_time p s) = write_mapping a s"
  "readbyte_internal a (access_time p s) = readbyte_internal a s"
  by (simp_all add: access_time_def Let_def read_mapping_def write_mapping_def readbyte_internal_def)

lemma deref_phys:
  "deref (page p) (page_offset a) m = (case phys p a of None \<Rightarrow> 0 | Some (b, i) \<Rightarrow> m b i)"
  by (cases "page p") (auto simp: phys_def)

lemma store_phys:
  "store_at (page p) (page_offset a) v m = (case phys p a of None \<Rightarrow> m | Some (b, i) \<Rightarrow> m(b := (m b)(i := v)))"
  by (cases "page p") (auto simp: phys_def)

lemma readbyte_plain:
  "plain_bus s \<Longrightarrow> readbyte dev a s = (readbyte_internal a s, access_time (read_mapping a s) s)"
  by (simp add: readbyte_def plain_bus_def Let_def)

lemma truncate_fields:
  assumes "memory_state.truncate s' = memory_state.truncate s"
  shows "memory_map_read s' = memory_map_read s" "memory_map_write s' = memory_map_write s" "mem s' = mem s"
    "plain_bus s' = plain_bus s" "tstates s' = tstates s"
  using arg_cong [OF assms, of memory_map_read] arg_cong [OF assms, of memory_map_write] arg_cong [OF assms, of mem]
    arg_cong [OF assms, of plain_bus] arg_cong [OF assms, of tstates]
  by (simp_all add: memory_state.truncate_def plain_bus_def)

lemma writebyte_plain:
  assumes "plain_bus s" "display_hook_ok dev"
  shows "memory_map_read (writebyte dev a b s) = memory_map_read s"
    "mem (writebyte dev a b s) =
      (if writes_through a s then store_at (page (write_mapping a s)) (page_offset a) b (mem s) else mem s)"
    "plain_bus (writebyte dev a b s)"
    "tstates (writebyte dev a b s) = tstates (access_time (write_mapping a s) s)"
proof -
  define t where "t = access_time (write_mapping a s) s"
  have t: "plain_bus t" "mem t = mem s" "memory_map_read t = memory_map_read s"
      "write_mapping a t = write_mapping a s" "writes_through a t = writes_through a s"
    using assms(1) by (simp_all add: t_def plain_bus_def writes_through_def)
  have h: "memory_state.truncate (memory_display_dirty dev a b t) = memory_state.truncate t"
    using assms(2) by (simp add: display_hook_ok_def)
  have w: "writebyte dev a b s = (if writes_through a s
      then (memory_display_dirty dev a b t)\<lparr>mem := store_at (page (write_mapping a s)) (page_offset a) b (mem s)\<rparr> else t)"
    using assms(1) t truncate_fields(3) [OF h]
    by (simp add: writebyte_def writebyte_internal_def writebyte_overlay_def writebyte_memory_def plain_bus_def
        writes_through_def Let_def t_def)
  show "memory_map_read (writebyte dev a b s) = memory_map_read s"
    "mem (writebyte dev a b s) =
      (if writes_through a s then store_at (page (write_mapping a s)) (page_offset a) b (mem s) else mem s)"
    "plain_bus (writebyte dev a b s)"
    "tstates (writebyte dev a b s) = tstates (access_time (write_mapping a s) s)"
    unfolding w using t truncate_fields [OF h] by (simp_all add: t_def plain_bus_def)
qed

lemma read_after_write:
  assumes "plain_bus s" "display_hook_ok dev"
  shows "fst (readbyte dev a' (writebyte dev a b s)) =
    (if writes_through a s \<and> phys (write_mapping a s) a \<noteq> None \<and> phys (read_mapping a' s) a' = phys (write_mapping a s) a
     then b else fst (readbyte dev a' s))"
proof -
  have m: "read_mapping a' (writebyte dev a b s) = read_mapping a' s"
    by (simp add: read_mapping_def writebyte_plain(1) [OF assms])
  show ?thesis
    unfolding readbyte_plain [OF writebyte_plain(3) [OF assms]] readbyte_plain [OF assms(1)] fst_conv
      readbyte_internal_def m writebyte_plain(2) [OF assms] deref_phys store_phys
    by (auto split: option.splits)
qed

section \<open>Pool, banks and snapshot images\<close>

lemma pool_free_loop: "distinct (List.map memory p) \<Longrightarrow> pool_free_loop p = filter persistent p"
proof (induction "length p" arbitrary: p rule: less_induct)
  case less
  show ?case
  proof (cases "find (\<lambda>e. \<not> persistent e) p")
    case None
    then have "\<forall>e\<in>set p. persistent e" by (simp add: find_None_iff)
    with None show ?thesis by (simp add: pool_free_loop.simps [of p])
  next
    case (Some e)
    then have e: "e \<in> set p" "\<not> persistent e" by (auto simp: find_Some_iff)
    have "distinct (List.map memory (remove1 e p))" using less.prems
      by (metis distinct_map distinct_remove1 inj_on_subset set_remove1_subset)
    moreover have "length (remove1 e p) < length p" using e(1) by (auto simp: length_remove1 intro!: diff_less length_pos_if_in_set)
    ultimately have "pool_free_loop (remove1 e p) = filter persistent (remove1 e p)" using less.hyps by blast
    moreover have "filter persistent (remove1 e p) = filter persistent p" using e(2) by (induction p) auto
    ultimately show ?thesis using Some by (simp add: pool_free_loop.simps [of p])
  qed
qed

lemma slot_mod: "unat (a :: u16) div 2048 = 8 * (unat a div 0x4000) + unat a div 2048 mod 8"
proof -
  have "unat a div 0x4000 = unat a div 2048 div 8" by (simp add: div_mult2_eq [symmetric])
  then show ?thesis by simp
qed

lemma aligned_slot:
  assumes "unat (address :: u16) mod 0x4000 = 0"
  shows "unat (drop_bit 11 address) = 8 * (unat address div 0x4000)" "unat address div 0x4000 < 4"
    "unat (drop_bit 11 address) + 8 \<le> 32"
proof -
  from assms obtain q where q: "unat address = 0x4000 * q" by (auto simp: mod_eq_0_iff_dvd elim: dvdE)
  moreover have "0x4000 * q < 65536" using q unat_u16_bound [of address] by simp
  then have "q < 4" by simp
  ultimately show "unat (drop_bit 11 address) = 8 * (unat address div 0x4000)" "unat address div 0x4000 < 4"
    "unat (drop_bit 11 address) + 8 \<le> 32"
    by (simp_all add: unat_slot)
qed

lemma map_16k_reads:
  assumes "unat address mod 0x4000 = 0" "length (memory_map_read s) = 32" "length (memory_map_write s) = 32"
  shows "read_mapping a (memory_map_16k address src k s) =
      (if unat a div 0x4000 = unat address div 0x4000 then src ! (k * 8 + unat a div 2048 mod 8) else read_mapping a s)"
    "write_mapping a (memory_map_16k address src k s) =
      (if unat a div 0x4000 = unat address div 0x4000 then src ! (k * 8 + unat a div 2048 mod 8) else write_mapping a s)"
proof -
  define i where "i = unat address div 0x4000"
  have i: "i < 4" and ad: "unat (drop_bit 11 address) = 8 * i"
    using aligned_slot [OF assms(1)] by (simp_all add: i_def)
  have j: "unat (drop_bit 11 a) < 32"
    using unat_u16_bound [of a] by (simp add: unat_slot less_mult_imp_div_less)
  have c: "8 * i \<le> unat (drop_bit 11 a) \<and> unat (drop_bit 11 a) < 8 * i + 8 \<longleftrightarrow> unat a div 0x4000 = i"
  proof -
    have "unat a div 2048 mod 8 < 8" by simp
    then show ?thesis using slot_mod [of a] unfolding unat_slot by linarith
  qed
  have d: "unat (drop_bit 11 a) - 8 * i = unat a div 2048 mod 8" if "unat a div 0x4000 = i"
    using that slot_mod [of a] by (simp add: unat_slot)
  have "8 * i + 8 \<le> 32" using i by simp
  then show "read_mapping a (memory_map_16k address src k s) =
      (if unat a div 0x4000 = unat address div 0x4000 then src ! (k * 8 + unat a div 2048 mod 8) else read_mapping a s)"
    "write_mapping a (memory_map_16k address src k s) =
      (if unat a div 0x4000 = unat address div 0x4000 then src ! (k * 8 + unat a div 2048 mod 8) else write_mapping a s)"
    using j c d assms(2,3)
    by (simp_all add: memory_map_16k_def r16k.map_law read_mapping_def write_mapping_def ad i_def [symmetric])
qed

lemma map_16k_lengths [simp]:
  assumes "unat address mod 0x4000 = 0"
  shows "length (memory_map_read (memory_map_16k address src k s)) = length (memory_map_read s)"
    "length (memory_map_write (memory_map_16k address src k s)) = length (memory_map_write s)"
  using aligned_slot(3) [OF assms] by (simp_all add: memory_map_16k_def r16k.map_law)


lemma rom_extend:
  assumes "\<forall>p\<in>set ps. page p \<noteq> None \<and> page_num p = n" "image_page w = n" "current_image w = Some r"
  shows "fold (rom_writer_step m) ps w = w\<lparr>current_image := Some (r @ concat (List.map (\<lambda>p. page_bytes p m) ps))\<rparr>"
  using assms by (induction ps arbitrary: w r) (auto simp: rom_writer_step_def)

lemma rom_group:
  assumes "\<forall>p\<in>set ps. page p \<noteq> None \<and> page_num p = n" "ps \<noteq> []" "image_page w \<noteq> n"
  shows "fold (rom_writer_step m) ps w =
    (write_rom_to_snap w)\<lparr>current_image := Some (concat (List.map (\<lambda>p. page_bytes p m) ps)), image_page := n\<rparr>"
  using assms by (cases ps) (auto simp: rom_writer_step_def rom_extend [where n = n])

lemma split4: "length ps = 32 \<Longrightarrow> ps = take 8 ps @ take 8 (drop 8 ps) @ take 8 (drop 16 ps) @ take 8 (drop 24 ps)"
  using take_add [of 8 24 ps] take_add [of 8 16 "drop 8 ps"] take_add [of 8 8 "drop 16 ps"] by simp

lemma rom_images_grouped:
  assumes "length ps = 32" "\<And>i. i < 32 \<Longrightarrow> page (ps ! i) \<noteq> None \<and> page_num (ps ! i) = int (i div 8)"
  shows "rom_images m ps = List.map (\<lambda>k. concat (List.map (\<lambda>p. page_bytes p m) (take 8 (drop (8 * k) ps)))) [0..<4]"
proof -
  define G where "G k = take 8 (drop (8 * k) ps)" for k
  have g: "\<forall>p\<in>set (G k). page p \<noteq> None \<and> page_num p = int k" if "k < 4" for k
    using assms that by (auto simp: in_set_conv_nth G_def)
  have ne: "G k \<noteq> []" if "k < 4" for k using assms(1) that by (auto simp: G_def)
  have ps: "ps = G 0 @ G (Suc 0) @ G (Suc (Suc 0)) @ G (Suc (Suc (Suc 0)))" using split4 [OF assms(1)] by (simp add: G_def)
  show ?thesis
    unfolding rom_images_def G_def [symmetric]
    by (subst ps) (simp add: rom_group [OF g ne] write_rom_to_snap_def upt_rec numeral_2_eq_2 numeral_3_eq_3)
qed

lemma concat_chunks:
  "concat (List.map (\<lambda>j. List.map (\<lambda>i. f (j * c + i)) [0..<c]) [0..<n]) = List.map f [0..<n * c]"
proof (induction n)
  case (Suc n)
  have "[0..<Suc n * c] = [0..<n * c] @ List.map (\<lambda>i. n * c + i) [0..<c]"
    using upt_add_eq_append [of 0 "n * c" c] map_add_upt [of "n * c" c] by (simp add: add.commute)
  with Suc show ?case by simp
qed simp

definition bank_bytes :: "memory_rom_bank \<Rightarrow> (mem_block \<Rightarrow> nat \<Rightarrow> u8) \<Rightarrow> u8 list" where
  "bank_bytes bank m = (case data bank of None \<Rightarrow> [] | Some b \<Rightarrow> List.map (m (Allocated b)) [0..<bank_length bank])"

definition bank_page :: "memory_rom_bank \<Rightarrow> nat \<Rightarrow> nat \<Rightarrow> memory_page \<Rightarrow> memory_page" where
  "bank_page bank k j p = p\<lparr>offset := word_of_nat (j * MEMORY_PAGE_SIZE), page_num := int k,
     page := map_option (\<lambda>b. (Allocated b, j * MEMORY_PAGE_SIZE)) (data bank),
     writable := False, save_to_snapshot := bank_save bank\<rparr>"

lemma bank_map_nth:
  assumes "bank_length bank = 0x4000"
  shows "length (memory_rom_bank_map bank mp k) = length mp"
    "i < length mp \<Longrightarrow> memory_rom_bank_map bank mp k ! i =
       (if k * 8 \<le> i \<and> i < k * 8 + 8 then bank_page bank k (i - k * 8) (mp ! i) else mp ! i)"
  using assms unfolding memory_rom_bank_map_def bank_page_def [symmetric] by (simp_all add: fold_update)

lemma four_banks_nth:
  assumes "\<And>k. k < 4 \<Longrightarrow> bank_length (bs ! k) = 0x4000" "length mp = 32" "i < 32"
  shows "fold (\<lambda>k mp. memory_rom_bank_map (bs ! k) mp k) [0..<4] mp ! i = bank_page (bs ! (i div 8)) (i div 8) (i mod 8) (mp ! i)"
proof -
  have "fold (\<lambda>k mp. memory_rom_bank_map (bs ! k) mp k) [0..<n] mp ! i =
     (if i < n * 8 then bank_page (bs ! (i div 8)) (i div 8) (i mod 8) (mp ! i) else mp ! i) \<and>
     length (fold (\<lambda>k mp. memory_rom_bank_map (bs ! k) mp k) [0..<n] mp) = 32" if "n \<le> 4" for n
    using that
  proof (induction n)
    case 0
    then show ?case using assms(2) by simp
  next
    case (Suc n)
    have d: "i div 8 = n" "i mod 8 = i - n * 8" if "n * 8 \<le> i" "i < n * 8 + 8"
      using that by (simp_all add: div_nat_eqI modulo_nat_def mult.commute)
    show ?case using Suc assms(3) d by (auto simp: bank_map_nth [OF assms(1)] not_less)
  qed
  from this [of 4] assms(3) show ?thesis by simp
qed

lemma rom_snapshot_images:
  assumes "length bs = 4" "\<And>k. k < 4 \<Longrightarrow> bank_length (bs ! k) = 0x4000 \<and> data (bs ! k) \<noteq> None" "length mp = 32"
  shows "rom_images m (fold (\<lambda>k mp. memory_rom_bank_map (bs ! k) mp k) [0..<4] mp) = List.map (\<lambda>b. bank_bytes b m) bs"
proof -
  define ps where "ps = fold (\<lambda>k mp. memory_rom_bank_map (bs ! k) mp k) [0..<4] mp"
  have len: "length ps = 32" unfolding ps_def using assms(2,3) bank_map_nth(1) by (simp add: upt_rec)
  have nth: "ps ! i = bank_page (bs ! (i div 8)) (i div 8) (i mod 8) (mp ! i)" if "i < 32" for i
    unfolding ps_def using four_banks_nth [of bs mp i] assms(2,3) that by blast
  have im: "rom_images m ps = List.map (\<lambda>k. concat (List.map (\<lambda>p. page_bytes p m) (take 8 (drop (8 * k) ps)))) [0..<4]"
  proof (rule rom_images_grouped [OF len])
    fix i :: nat assume "i < 32"
    moreover have "i div 8 < 4" using \<open>i < 32\<close> by (simp add: less_mult_imp_div_less)
    ultimately show "page (ps ! i) \<noteq> None \<and> page_num (ps ! i) = int (i div 8)"
      using assms(2) by (simp add: nth bank_page_def)
  qed
  have "concat (List.map (\<lambda>p. page_bytes p m) (take 8 (drop (8 * k) ps))) = bank_bytes (bs ! k) m" if k: "k < 4" for k
  proof -
    obtain b where b: "data (bs ! k) = Some b" using assms(2) k by auto
    have "take 8 (drop (8 * k) ps) = List.map (\<lambda>j. ps ! (8 * k + j)) [0..<8]"
      using len k by (intro nth_equalityI) auto
    moreover have "page_bytes (ps ! (8 * k + j)) m = List.map (\<lambda>i. m (Allocated b) (j * 2048 + i)) [0..<2048]" if "j < 8" for j
    proof -
      have "(8 * k + j) div 8 = k" "(8 * k + j) mod 8 = j" using that by simp_all
      then show ?thesis using that k b by (simp add: nth page_bytes_def bank_page_def)
    qed
    ultimately have "concat (List.map (\<lambda>p. page_bytes p m) (take 8 (drop (8 * k) ps))) =
        concat (List.map (\<lambda>j. List.map (\<lambda>i. m (Allocated b) (j * 2048 + i)) [0..<2048]) [0..<8])"
      by (auto intro!: arg_cong [where f = concat] map_cong)
    then show ?thesis using b assms(2) k by (simp only: concat_chunks) (simp add: bank_bytes_def)
  qed
  then show ?thesis unfolding ps_def [symmetric] im using assms(1)
    by (intro nth_equalityI) simp_all
qed

section \<open>The properties\<close>

text \<open>A machine straight after \<open>memory_init\<close>, to apply the theorems to.\<close>

definition blank_page :: memory_page where
  "blank_page = \<lparr>page = None, writable = False, contended = False, source = memory_source_none,
     save_to_snapshot = False, page_num = 0, offset = 0\<rparr>"

definition no_windows :: windows where
  "no_windows = \<lparr>paged_0 = False, paged_a = False, paged_b = False, paged_3 = False\<rparr>"

definition blank_memory :: "unit memory_state" where
  "blank_memory = memory_init
    \<lparr>event_next_event = event_no_events, event_frame_end = False, event_list = [], tstates = 0,
     memory_sources = [], memory_map_read = replicate 32 blank_page, memory_map_write = replicate 32 blank_page,
     memory_map_ram = replicate 520 blank_page, memory_map_rom = replicate 32 blank_page,
     mem = (\<lambda>b i. 0), allocated = 0, pool = [], memory_current_screen = 5, memory_screen_mask = 0xffff,
     ram = \<lparr>locked = False, current_page = 0, current_rom = 0, last_byte = 0, last_byte2 = 0, special = False,
            romcs = False, valid_pages = 8\<rparr>,
     ula_contention = (\<lambda>_. 4), ula_contention_no_mreq = (\<lambda>_. 0), debugger_active = False, writable_roms = False,
     opus_active = False, spectranet_romcs_active = False, spectranet_w5100 = no_windows, spectranet_xfs = no_windows,
     spectranet_spectranext_config = no_windows, spectranet_flash = no_windows, ttx2000s_paged = False,
     uspeech_available = False, uspeech_active = False\<rparr>"

definition no_devices :: "'s bus_devices" where
  "no_devices = \<lparr>debugger_check_read = (\<lambda>_ s. s), debugger_check_write = (\<lambda>_ s. s),
     opus_read = (\<lambda>_ s. (0xff, s)), opus_write = (\<lambda>_ _ s. s),
     spectranet_w5100_read = (\<lambda>_ _ s. (0xff, s)), spectranet_w5100_write = (\<lambda>_ _ _ s. s),
     spectranet_xfs_read = (\<lambda>_ _ s. (0xff, s)), spectranet_xfs_write = (\<lambda>_ _ _ s. s),
     spectranet_config_read = (\<lambda>_ _ s. (0xff, s)), spectranet_config_write = (\<lambda>_ _ _ s. s),
     spectranet_flash_rom_read = (\<lambda>_ _ s. (0xff, s)), spectranet_flash_rom_write = (\<lambda>_ _ s. s),
     ttx2000s_sram_read = (\<lambda>_ s. (0xff, s)), ttx2000s_sram_write = (\<lambda>_ _ s. s),
     uspeech_toggle = (\<lambda>s. s), uspeech_busy = (\<lambda>s. (0xff, s)), uspeech_write = (\<lambda>_ _ s. s),
     memory_display_dirty = (\<lambda>_ _ s. s)\<rparr>"

lemma init_ram_map:
  "i < 520 \<Longrightarrow> length (memory_map_ram s) = 520 \<Longrightarrow>
   memory_map_ram (memory_init s) ! i = init_ram_page (i div 8) (i mod 8) (memory_map_ram s ! i)"
  by (simp add: memory_init_def memory_source_register_def Let_def)

lemma init_frame:
  "memory_map_read (memory_init s) = memory_map_read s" "memory_map_write (memory_init s) = memory_map_write s"
  "plain_bus (memory_init s) = plain_bus s" "mem (memory_init s) = mem s"
  "length (memory_map_ram s) = 520 \<Longrightarrow> length (memory_map_ram (memory_init s)) = 520"
  by (simp_all add: memory_init_def memory_source_register_def Let_def plain_bus_def)

lemma blank_memory_facts:
  "length (memory_map_read blank_memory) = 32" "length (memory_map_write blank_memory) = 32" "plain_bus blank_memory"
  "i < 520 \<Longrightarrow> memory_map_ram blank_memory ! i = init_ram_page (i div 8) (i mod 8) blank_page"
  unfolding blank_memory_def by (simp_all only: init_frame) (simp_all add: init_ram_map plain_bus_def)

lemma no_devices_ok: "display_hook_ok no_devices"
  by (simp add: display_hook_ok_def no_devices_def)

text \<open>
  \<open>memory_map_16k\<close>: every address of the 16K slot then reads and writes the eight consecutive
  2K pages of the bank, in order, and no other address is affected.
\<close>

lemma memory_map_16k_effect:
  assumes "unat address mod 0x4000 = 0" "length (memory_map_read s) = 32" "length (memory_map_write s) = 32"
  shows "read_mapping a (memory_map_16k address src k s) =
      (if unat a div 0x4000 = unat address div 0x4000 then src ! (k * 8 + unat a div 2048 mod 8) else read_mapping a s) \<and>
    write_mapping a (memory_map_16k address src k s) =
      (if unat a div 0x4000 = unat address div 0x4000 then src ! (k * 8 + unat a div 2048 mod 8) else write_mapping a s)"
  using map_16k_reads [OF assms] by simp

lemma memory_map_16k_effect_witness:
  "read_mapping 0xd123 (memory_map_16k 0xc000 (memory_map_ram blank_memory) 7 blank_memory) = init_ram_page 7 2 blank_page"
  using memory_map_16k_effect [of "0xc000" blank_memory "0xd123" "memory_map_ram blank_memory" 7]
  by (simp add: blank_memory_facts)

text \<open>
  C4. A byte written is read back at every address that the tables map to the same place of the
  same bank, whichever slots the bank occupies; every other read is unchanged, and so is every
  read when the page is not writable. The access takes three T-states and the ULA's delay.
\<close>

theorem memory_read_after_write:
  assumes "plain_bus s" "display_hook_ok dev"
  shows "fst (readbyte dev a' (writebyte dev a b s)) =
    (if writes_through a s \<and> phys (write_mapping a s) a \<noteq> None \<and> phys (read_mapping a' s) a' = phys (write_mapping a s) a
     then b else fst (readbyte dev a' s)) \<and>
    tstates (writebyte dev a b s) =
      tstates s + (if contended (write_mapping a s) then ucast (ula_contention s (tstates s)) else 0) + 3"
  using read_after_write [OF assms, of a' a b] writebyte_plain(4) [OF assms, of a b]
  by (simp add: access_time_def Let_def)

theorem memory_read_after_write_witness:
  "fst (readbyte no_devices 0x4321 (writebyte no_devices 0xc321 7
     (memory_map_16k 0x4000 (memory_map_ram blank_memory) 5 (memory_map_16k 0xc000 (memory_map_ram blank_memory) 5 blank_memory)))) = 7"
proof -
  define s where "s = memory_map_16k 0x4000 (memory_map_ram blank_memory) 5
     (memory_map_16k 0xc000 (memory_map_ram blank_memory) 5 blank_memory)"
  have "plain_bus s"
    using blank_memory_facts(3) aligned_slot(3) [of "0x4000"] aligned_slot(3) [of "0xc000"]
    by (simp add: s_def memory_map_16k_def r16k.map_law plain_bus_def)
  moreover have "write_mapping 0xc321 s = init_ram_page 5 0 blank_page" "read_mapping 0x4321 s = init_ram_page 5 0 blank_page"
    by (simp_all add: s_def map_16k_reads blank_memory_facts)
  ultimately show ?thesis
    using memory_read_after_write [OF _ no_devices_ok, of s "0x4321" "0xc321" 7]
    by (simp add: s_def [symmetric] writes_through_def phys_def init_ram_page_def page_offset_def)
qed

text \<open>
  Saving the ROMs: when four 16K banks have been mapped by \<open>memory_rom_bank_map\<close>, the images
  that \<open>memory_rom_to_snapshot\<close> puts together from the 2K pages are the banks, byte for byte.
\<close>

lemma memory_rom_images_roundtrip:
  assumes "length bs = 4" "\<And>k. k < 4 \<Longrightarrow> bank_length (bs ! k) = 0x4000 \<and> data (bs ! k) \<noteq> None" "length mp = 32"
  shows "rom_images m (fold (\<lambda>k mp. memory_rom_bank_map (bs ! k) mp k) [0..<4] mp) = List.map (\<lambda>b. bank_bytes b m) bs"
  by (rule rom_snapshot_images [OF assms])

lemma memory_rom_images_roundtrip_witness:
  "rom_images (\<lambda>b i. word_of_nat i) (fold (\<lambda>k mp. memory_rom_bank_map ([\<lparr>data = Some 4, bank_length = 0x4000, bank_save = True\<rparr>,
      \<lparr>data = Some 2, bank_length = 0x4000, bank_save = False\<rparr>, \<lparr>data = Some 7, bank_length = 0x4000, bank_save = False\<rparr>,
      \<lparr>data = Some 9, bank_length = 0x4000, bank_save = True\<rparr>] ! k) mp k) [0..<4] (replicate 32 blank_page)) =
    List.map (\<lambda>n. List.map word_of_nat [0..<0x4000]) [4, 2, 7, 9]"
  by (subst memory_rom_images_roundtrip) (auto simp: bank_bytes_def nth_Cons' simp del: upt.simps)

text \<open>
  \<open>memory_pool_free\<close> ends and frees exactly the entries that are not persistent.
\<close>

lemma memory_pool_free_keeps_persistent:
  "distinct (List.map memory (pool s)) \<Longrightarrow> pool (memory_pool_free s) = filter persistent (pool s)"
  by (simp add: memory_pool_free_def pool_free_loop)

lemma memory_pool_free_keeps_persistent_witness:
  "pool (memory_pool_free (snd (memory_pool_allocate 10 (snd (memory_pool_allocate_persistent 20 True
     (snd (memory_pool_allocate 30 (blank_memory\<lparr>pool := [], allocated := 3\<rparr>)))))))) = [\<lparr>persistent = True, memory = 4\<rparr>]"
  by (subst memory_pool_free_keeps_persistent)
    (simp_all add: memory_pool_allocate_def memory_pool_allocate_persistent_def Let_def)

end
