(* ===== verification/Machine_Paging.thy ===== *)
theory Machine_Paging
  imports Memory_Map
begin

text \<open>
  How each machine pages its memory: the \<open>memory_map\<close> functions of \<open>machines/\<close>, the paging ports
  that store a byte and call them, the SCLD of the Timex machines (\<open>peripherals/scld.c\<close>) and the
  memory part of the snapshots. The abstract specification says, for each machine, which bank is at
  each 16K slot as a function of the bytes last written.
\<close>

section \<open>State\<close>

text \<open>\<open>timex_home\<close> holds pointers into the tables of RAM and ROM pages.\<close>

datatype page_ref = Ref_ram nat | Ref_rom nat

datatype display_kind = Display_sinclair | Display_pentagon_16_col | Display_timex

record 'u machine_state = "'u memory_state" +
  machine :: libspectrum_machine
  capabilities :: u32
  disks :: disk_flags
  display_functions :: display_kind
  scld_last_dec :: u8
  scld_last_hsr :: u8
  timex_home :: "page_ref list"
  timex_exrom :: "memory_page list"
  timex_dock :: "memory_page list"

text \<open>What the paging code calls in other components.\<close>

record 's paging_hooks =
  redraw_screen :: "'s \<Rightarrow> 's"
  module_romcs :: "'s \<Rightarrow> 's"
  display_border_recheck :: "'s \<Rightarrow> 's"
  printer_parallel_strobe_write :: "bool \<Rightarrow> 's \<Rightarrow> 's"
  specplus3_motors :: "bool \<Rightarrow> 's \<Rightarrow> 's"
  retriggered_interrupt :: "'s \<Rightarrow> 's"
  set_hires_border :: "u8 \<Rightarrow> 's \<Rightarrow> 's"
  fuse_abort :: "'s \<Rightarrow> 's"

text \<open>The capability bits are libspectrum's.\<close>

record capability_bits =
  CAP_128_MEMORY :: u32
  CAP_PLUS3_MEMORY :: u32
  CAP_PLUS3_DISK :: u32
  CAP_SCORP_MEMORY :: u32
  CAP_PENT1024_MEMORY :: u32

definition set_ram :: "(raminfo \<Rightarrow> raminfo) \<Rightarrow> ('u, 'z) machine_state_scheme \<Rightarrow> ('u, 'z) machine_state_scheme" where
  "set_ram f s = s\<lparr>ram := f (ram s)\<rparr>"

section \<open>The 48K and the 128K\<close>

definition spec48_common_reset :: "('u, 'z) machine_state_scheme \<Rightarrow> ('u, 'z) machine_state_scheme" where
  "spec48_common_reset s =
    (let s1 = memory_map_16k 0x0000 (memory_map_rom s) 0 s;
         s2 = memory_ram_set_16k_contention 5 True s1;
         s3 = memory_map_16k 0x4000 (memory_map_ram s2) 5 s2;
         s4 = memory_ram_set_16k_contention 2 False s3;
         s5 = memory_map_16k 0x8000 (memory_map_ram s4) 2 s4;
         s6 = memory_ram_set_16k_contention 0 False s5
     in memory_map_16k 0xc000 (memory_map_ram s6) 0 s6)"

definition spec48_memory_map ::
  "('u, 'z) machine_state_scheme paging_hooks \<Rightarrow> ('u, 'z) machine_state_scheme \<Rightarrow> ('u, 'z) machine_state_scheme" where
  "spec48_memory_map hk s =
    memory_romcs_map (module_romcs hk) (memory_map_16k 0x0000 (memory_map_rom s) 0 s)"

definition spec128_common_reset :: "bool \<Rightarrow> ('u, 'z) machine_state_scheme \<Rightarrow> ('u, 'z) machine_state_scheme" where
  "spec128_common_reset contention s =
    (let s1 = set_ram (\<lambda>r. r\<lparr>locked := False, last_byte := 0, current_page := 0, current_rom := 0\<rparr>) s;
         s2 = s1\<lparr>memory_current_screen := 5, memory_screen_mask := 0xffff\<rparr>;
         s3 = fold (\<lambda>i. memory_ram_set_16k_contention i (odd i \<and> contention)) [0..<16] s2;
         s4 = memory_map_16k 0x0000 (memory_map_rom s3) 0 s3;
         s5 = memory_map_16k 0x4000 (memory_map_ram s4) 5 s4;
         s6 = memory_map_16k 0x8000 (memory_map_ram s5) 2 s5
     in memory_map_16k 0xc000 (memory_map_ram s6) 0 s6)"

definition spec128_select_rom :: "nat \<Rightarrow> ('u, 'z) machine_state_scheme \<Rightarrow> ('u, 'z) machine_state_scheme" where
  "spec128_select_rom rom s =
    set_ram (\<lambda>r. r\<lparr>current_rom := rom\<rparr>) (memory_map_16k 0x0000 (memory_map_rom s) rom s)"

definition spec128_select_page :: "nat \<Rightarrow> ('u, 'z) machine_state_scheme \<Rightarrow> ('u, 'z) machine_state_scheme" where
  "spec128_select_page pg s =
    set_ram (\<lambda>r. r\<lparr>current_page := pg\<rparr>) (memory_map_16k 0xc000 (memory_map_ram s) pg s)"

text \<open>The test on the screen that every 128K map makes; bit 3 of the last byte is the screen.\<close>

definition screen_bit :: "u8 \<Rightarrow> int" where
  "screen_bit b = (if b AND 0x08 \<noteq> 0 then 7 else 5)"

definition update_screen ::
  "('u, 'z) machine_state_scheme paging_hooks \<Rightarrow> ('u, 'z) machine_state_scheme \<Rightarrow> ('u, 'z) machine_state_scheme" where
  "update_screen hk s =
    (let screen = screen_bit (last_byte (ram s))
     in if memory_current_screen s \<noteq> screen then (redraw_screen hk s)\<lparr>memory_current_screen := screen\<rparr> else s)"

definition spec128_memory_map ::
  "('u, 'z) machine_state_scheme paging_hooks \<Rightarrow> ('u, 'z) machine_state_scheme \<Rightarrow> ('u, 'z) machine_state_scheme" where
  "spec128_memory_map hk s =
    (let pg = unat (last_byte (ram s) AND 0x07);
         rom = unat (drop_bit 4 (last_byte (ram s) AND 0x10))
     in memory_romcs_map (module_romcs hk) (spec128_select_page pg (spec128_select_rom rom (update_screen hk s))))"

section \<open>The +3 and the Russian machines\<close>

definition normal_memory_map :: "nat \<Rightarrow> nat \<Rightarrow> ('u, 'z) machine_state_scheme \<Rightarrow> ('u, 'z) machine_state_scheme" where
  "normal_memory_map rom pg s =
    (let s1 = memory_map_16k 0x0000 (memory_map_rom s) rom s;
         s2 = memory_map_16k 0x4000 (memory_map_ram s1) 5 s1;
         s3 = memory_map_16k 0x8000 (memory_map_ram s2) 2 s2
     in memory_map_16k 0xc000 (memory_map_ram s3) pg s3)"

definition select_special_map ::
  "nat \<Rightarrow> nat \<Rightarrow> nat \<Rightarrow> nat \<Rightarrow> ('u, 'z) machine_state_scheme \<Rightarrow> ('u, 'z) machine_state_scheme" where
  "select_special_map page1 page2 page3 page4 s =
    (let s1 = memory_map_16k 0x0000 (memory_map_ram s) page1 s;
         s2 = memory_map_16k 0x4000 (memory_map_ram s1) page2 s1;
         s3 = memory_map_16k 0x8000 (memory_map_ram s2) page3 s2
     in memory_map_16k 0xc000 (memory_map_ram s3) page4 s3)"

definition special_memory_map ::
  "('u, 'z) machine_state_scheme paging_hooks \<Rightarrow> nat \<Rightarrow> ('u, 'z) machine_state_scheme \<Rightarrow> ('u, 'z) machine_state_scheme" where
  "special_memory_map hk which =
    (if which = 0 then select_special_map 0 1 2 3
     else if which = 1 then select_special_map 4 5 6 7
     else if which = 2 then select_special_map 4 5 6 3
     else if which = 3 then select_special_map 4 7 6 3
     else fuse_abort hk)"

definition specplus3_plus2a_common_reset :: "('u, 'z) machine_state_scheme \<Rightarrow> ('u, 'z) machine_state_scheme" where
  "specplus3_plus2a_common_reset s =
    (let s1 = set_ram (\<lambda>r. r\<lparr>current_page := 0, current_rom := 0, locked := False, special := False,
                              last_byte := 0, last_byte2 := 0\<rparr>) s;
         s2 = s1\<lparr>memory_current_screen := 5, memory_screen_mask := 0xffff,
                 memory_map_read := List.map (\<lambda>p. p\<lparr>source := memory_source_ram\<rparr>) (memory_map_read s1),
                 memory_map_write := List.map (\<lambda>p. p\<lparr>source := memory_source_ram\<rparr>) (memory_map_write s1)\<rparr>;
         s3 = fold (\<lambda>i. memory_ram_set_16k_contention i (i \<ge> 4)) [0..<8] s2
     in normal_memory_map 0 0 s3)"

definition specplus3_memory_map ::
  "('u, 'z) machine_state_scheme paging_hooks \<Rightarrow> ('u, 'z) machine_state_scheme \<Rightarrow> ('u, 'z) machine_state_scheme" where
  "specplus3_memory_map hk s0 =
    (let pg = unat (last_byte (ram s0) AND 0x07);
         rom = unat (drop_bit 4 (last_byte (ram s0) AND 0x10) OR drop_bit 1 (last_byte2 (ram s0) AND 0x04));
         s = update_screen hk s0;
         s1 = (if last_byte2 (ram s) AND 0x01 \<noteq> 0
               then special_memory_map hk (unat (drop_bit 1 (last_byte2 (ram s) AND 0x06)))
                      (set_ram (\<lambda>r. r\<lparr>special := True\<rparr>) s)
               else normal_memory_map rom pg (set_ram (\<lambda>r. r\<lparr>special := False\<rparr>) s))
     in memory_romcs_map (module_romcs hk) (set_ram (\<lambda>r. r\<lparr>current_page := pg, current_rom := rom\<rparr>) s1))"

definition scorpion_memory_map ::
  "('u, 'z) machine_state_scheme paging_hooks \<Rightarrow> ('u, 'z) machine_state_scheme \<Rightarrow> ('u, 'z) machine_state_scheme" where
  "scorpion_memory_map hk s0 =
    (let s = update_screen hk s0;
         rom = (if last_byte2 (ram s) AND 0x02 \<noteq> 0 then 2 else unat (drop_bit 4 (last_byte (ram s) AND 0x10)));
         s1 = set_ram (\<lambda>r. r\<lparr>current_rom := rom\<rparr>) s;
         s2 = (if last_byte2 (ram s1) AND 0x01 \<noteq> 0
               then set_ram (\<lambda>r. r\<lparr>special := True\<rparr>) (memory_map_16k 0x0000 (memory_map_ram s1) 0 s1)
               else spec128_select_rom rom s1);
         pg = unat (drop_bit 1 (last_byte2 (ram s2) AND 0x10) OR (last_byte (ram s2) AND 0x07))
     in memory_romcs_map (module_romcs hk) (set_ram (\<lambda>r. r\<lparr>current_page := pg\<rparr>) (spec128_select_page pg s2)))"

definition pentagon512_memory_map ::
  "('u, 'z) machine_state_scheme paging_hooks \<Rightarrow> ('u, 'z) machine_state_scheme \<Rightarrow> ('u, 'z) machine_state_scheme" where
  "pentagon512_memory_map hk s0 =
    (let s = update_screen hk s0;
         rom = (if beta_active (disks s) \<and> last_byte (ram s) AND 0x10 = 0 then 2
                else unat (drop_bit 4 (last_byte (ram s) AND 0x10)));
         s1 = spec128_select_rom rom (set_ram (\<lambda>r. r\<lparr>current_rom := rom\<rparr>) s);
         pg = unat (last_byte (ram s1) AND 0x07) + unat (drop_bit 3 (last_byte (ram s1) AND 0xC0))
     in memory_romcs_map (module_romcs hk) (set_ram (\<lambda>r. r\<lparr>current_page := pg\<rparr>) (spec128_select_page pg s1)))"

definition pentagon1024_memory_map ::
  "('u, 'z) machine_state_scheme paging_hooks \<Rightarrow> ('u, 'z) machine_state_scheme \<Rightarrow> ('u, 'z) machine_state_scheme" where
  "pentagon1024_memory_map hk s0 =
    (let s = update_screen hk s0;
         rom = (if beta_active (disks s) \<and> last_byte (ram s) AND 0x10 = 0 then 2
                else unat (drop_bit 4 (last_byte (ram s) AND 0x10)));
         s1 = set_ram (\<lambda>r. r\<lparr>current_rom := rom\<rparr>) s;
         s2 = (if last_byte2 (ram s1) AND 0x08 \<noteq> 0
               then set_ram (\<lambda>r. r\<lparr>special := True\<rparr>) (memory_map_16k 0x0000 (memory_map_ram s1) 0 s1)
               else spec128_select_rom rom s1);
         pg = unat (last_byte (ram s2) AND 0x07) +
              (if last_byte2 (ram s2) AND 0x04 = 0
               then unat (drop_bit 3 (last_byte (ram s2) AND 0xC0)) + unat (last_byte (ram s2) AND 0x20) else 0)
     in memory_romcs_map (module_romcs hk) (set_ram (\<lambda>r. r\<lparr>current_page := pg\<rparr>) (spec128_select_page pg s2)))"

section \<open>The SCLD\<close>

definition altmembank :: "u8 \<Rightarrow> bool" where "altmembank b = bit b 7"
definition intdisable :: "u8 \<Rightarrow> bool" where "intdisable b = bit b 6"
definition hires :: "u8 \<Rightarrow> bool" where "hires b = bit b 2"
definition scrnmode :: "u8 \<Rightarrow> u8" where "scrnmode b = b AND 0x07"
definition hirescol :: "u8 \<Rightarrow> u8" where "hirescol b = drop_bit 3 b AND 0x07"

definition hires_convert_dec :: "u8 \<Rightarrow> u8" where
  "hires_convert_dec attr =
    (let c = hirescol attr
     in if c = 7 then 0x47 else if c = 6 then 0x4e else if c = 5 then 0x55 else if c = 4 then 0x5c
        else if c = 3 then 0x63 else if c = 2 then 0x6a else if c = 1 then 0x71 else 0x78)"

fun page_at :: "page_ref \<Rightarrow> ('u, 'z) machine_state_scheme \<Rightarrow> memory_page" where
  "page_at (Ref_ram i) s = memory_map_ram s ! i"
| "page_at (Ref_rom i) s = memory_map_rom s ! i"

definition exrom_dock :: "('u, 'z) machine_state_scheme \<Rightarrow> memory_page list" where
  "exrom_dock s = (if altmembank (scld_last_dec s) then timex_exrom s else timex_dock s)"

definition scld_memory_map :: "('u, 'z) machine_state_scheme \<Rightarrow> ('u, 'z) machine_state_scheme" where
  "scld_memory_map s =
    fold (\<lambda>i s'. if scld_last_hsr s' AND push_bit i 1 \<noteq> 0
                  then memory_map_8k (word_of_nat (i * 0x2000)) (exrom_dock s) i s' else s') [0..<8] s"

definition scld_memory_map_home :: "('u, 'z) machine_state_scheme \<Rightarrow> ('u, 'z) machine_state_scheme" where
  "scld_memory_map_home s =
    fold (\<lambda>i s'. memory_map_page (List.map (\<lambda>r. page_at r s') (timex_home s')) i s') [0..<32] s"

definition scld_home_map_16k ::
  "u16 \<Rightarrow> (nat \<Rightarrow> page_ref) \<Rightarrow> nat \<Rightarrow> ('u, 'z) machine_state_scheme \<Rightarrow> ('u, 'z) machine_state_scheme" where
  "scld_home_map_16k address ref pnum s =
    (let s1 = memory_map_16k address
                (List.map (\<lambda>i. page_at (ref i) s) [0..<pnum * MEMORY_PAGES_IN_16K + MEMORY_PAGES_IN_16K]) pnum s
     in s1\<lparr>timex_home := fold (\<lambda>i h. h[unat (drop_bit 11 address) + i := ref (pnum * MEMORY_PAGES_IN_16K + i)])
             [0..<MEMORY_PAGES_IN_16K] (timex_home s1)\<rparr>)"

definition scld_set_exrom_dock_contention :: "('u, 'z) machine_state_scheme \<Rightarrow> ('u, 'z) machine_state_scheme" where
  "scld_set_exrom_dock_contention s =
    (let mark = (\<lambda>mp. fold (\<lambda>i mp. mp[1 * MEMORY_PAGES_IN_16K + i := (mp ! (1 * MEMORY_PAGES_IN_16K + i))\<lparr>contended := True\<rparr>])
                   [0..<MEMORY_PAGES_IN_16K] mp)
     in s\<lparr>timex_exrom := mark (timex_exrom s), timex_dock := mark (timex_dock s)\<rparr>)"

definition tc2068_memory_map ::
  "('u, 'z) machine_state_scheme paging_hooks \<Rightarrow> ('u, 'z) machine_state_scheme \<Rightarrow> ('u, 'z) machine_state_scheme" where
  "tc2068_memory_map hk s = memory_romcs_map (module_romcs hk) (scld_memory_map (scld_memory_map_home s))"

definition spec_se_memory_map ::
  "('u, 'z) machine_state_scheme paging_hooks \<Rightarrow> ('u, 'z) machine_state_scheme \<Rightarrow> ('u, 'z) machine_state_scheme" where
  "spec_se_memory_map hk s0 =
    (let s = scld_memory_map (spec128_memory_map hk (scld_memory_map_home s0));
         s1 = (if odd (current_page (ram s)) then
                 (let s2 = (if scld_last_hsr s AND push_bit 2 1 \<noteq> 0 then memory_map_8k 0xc000 (exrom_dock s) 6 s else s)
                  in if scld_last_hsr s2 AND push_bit 3 1 \<noteq> 0 then memory_map_8k 0xe000 (exrom_dock s) 7 s2 else s2)
               else s)
     in memory_romcs_map (module_romcs hk) s1)"

section \<open>The ports\<close>

text \<open>\<open>machine_current->memory_map()\<close>: the function each \<open>_init\<close> stores.\<close>

definition memory_map ::
  "('u, 'z) machine_state_scheme paging_hooks \<Rightarrow> ('u, 'z) machine_state_scheme \<Rightarrow> ('u, 'z) machine_state_scheme" where
  "memory_map hk s =
    (case machine s of
       MACHINE_16 \<Rightarrow> spec48_memory_map hk s
     | MACHINE_48 \<Rightarrow> spec48_memory_map hk s
     | MACHINE_48_NTSC \<Rightarrow> spec48_memory_map hk s
     | MACHINE_128 \<Rightarrow> spec128_memory_map hk s
     | MACHINE_PLUS2 \<Rightarrow> spec128_memory_map hk s
     | MACHINE_PENT \<Rightarrow> spec128_memory_map hk s
     | MACHINE_PLUS2A \<Rightarrow> specplus3_memory_map hk s
     | MACHINE_PLUS3 \<Rightarrow> specplus3_memory_map hk s
     | MACHINE_PLUS3E \<Rightarrow> specplus3_memory_map hk s
     | MACHINE_PENT512 \<Rightarrow> pentagon512_memory_map hk s
     | MACHINE_PENT1024 \<Rightarrow> pentagon1024_memory_map hk s
     | MACHINE_SCORP \<Rightarrow> scorpion_memory_map hk s
     | MACHINE_TC2048 \<Rightarrow> tc2068_memory_map hk s
     | MACHINE_TC2068 \<Rightarrow> tc2068_memory_map hk s
     | MACHINE_TS2068 \<Rightarrow> tc2068_memory_map hk s
     | MACHINE_SE \<Rightarrow> spec_se_memory_map hk s
     | _ \<Rightarrow> fuse_abort hk s)"

definition spec128_memoryport_write ::
  "('u, 'z) machine_state_scheme paging_hooks \<Rightarrow> u8 \<Rightarrow> ('u, 'z) machine_state_scheme \<Rightarrow> ('u, 'z) machine_state_scheme" where
  "spec128_memoryport_write hk b s =
    (if locked (ram s) then s
     else set_ram (\<lambda>r. r\<lparr>locked := b AND 0x20 \<noteq> 0\<rparr>) (memory_map hk (set_ram (\<lambda>r. r\<lparr>last_byte := b\<rparr>) s)))"

text \<open>The test is \<open>capabilities && CAPABILITY_PLUS3_DISK\<close>, a logical and.\<close>

definition specplus3_memoryport2_write_internal ::
  "capability_bits \<Rightarrow> ('u, 'z) machine_state_scheme paging_hooks \<Rightarrow> u8 \<Rightarrow> ('u, 'z) machine_state_scheme \<Rightarrow>
   ('u, 'z) machine_state_scheme" where
  "specplus3_memoryport2_write_internal cb hk b s0 =
    (let s = printer_parallel_strobe_write hk (b AND 0x10 \<noteq> 0) s0;
         s1 = (if capabilities s \<noteq> 0 \<and> CAP_PLUS3_DISK cb \<noteq> 0 then specplus3_motors hk (b AND 0x08 \<noteq> 0) s else s)
     in memory_map hk (set_ram (\<lambda>r. r\<lparr>last_byte2 := b\<rparr>) s1))"

definition specplus3_memoryport2_write ::
  "capability_bits \<Rightarrow> ('u, 'z) machine_state_scheme paging_hooks \<Rightarrow> u8 \<Rightarrow> ('u, 'z) machine_state_scheme \<Rightarrow>
   ('u, 'z) machine_state_scheme" where
  "specplus3_memoryport2_write cb hk b s =
    (if locked (ram s) then s else specplus3_memoryport2_write_internal cb hk b s)"

definition pentagon1024_memoryport_write ::
  "('u, 'z) machine_state_scheme paging_hooks \<Rightarrow> u8 \<Rightarrow> ('u, 'z) machine_state_scheme \<Rightarrow> ('u, 'z) machine_state_scheme" where
  "pentagon1024_memoryport_write hk b s =
    (if locked (ram s) then s
     else (let s1 = memory_map hk (set_ram (\<lambda>r. r\<lparr>last_byte := b\<rparr>) s)
           in if last_byte2 (ram s1) AND 0x04 \<noteq> 0 then set_ram (\<lambda>r. r\<lparr>locked := b AND 0x20 \<noteq> 0\<rparr>) s1 else s1))"

definition pentagon1024_v22_memoryport_write ::
  "('u, 'z) machine_state_scheme paging_hooks \<Rightarrow> u8 \<Rightarrow> ('u, 'z) machine_state_scheme \<Rightarrow> ('u, 'z) machine_state_scheme" where
  "pentagon1024_v22_memoryport_write hk b s =
    (if locked (ram s) then s
     else memory_map hk (display_border_recheck hk
            ((set_ram (\<lambda>r. r\<lparr>last_byte2 := b\<rparr>) s)\<lparr>display_functions :=
               (if b AND 0x01 \<noteq> 0 then Display_pentagon_16_col else Display_sinclair)\<rparr>)))"

definition scld_dec_write ::
  "('u, 'z) machine_state_scheme paging_hooks \<Rightarrow> u8 \<Rightarrow> ('u, 'z) machine_state_scheme \<Rightarrow> ('u, 'z) machine_state_scheme" where
  "scld_dec_write hk b s =
    (let old = scld_last_dec s;
         s1 = (if scrnmode b \<noteq> scrnmode old \<or> hires b \<noteq> hires old \<or> (hires b \<and> hirescol b \<noteq> hirescol old)
               then redraw_screen hk s else s);
         s2 = s1\<lparr>scld_last_dec := b\<rparr>;
         s3 = (if intdisable old \<and> \<not> intdisable (scld_last_dec s2) then retriggered_interrupt hk s2 else s2);
         s4 = (if altmembank (scld_last_dec s3) \<noteq> altmembank old then memory_map hk s3 else s3)
     in set_hires_border hk (hires_convert_dec (scld_last_dec s4)) s4)"

definition scld_hsr_write ::
  "('u, 'z) machine_state_scheme paging_hooks \<Rightarrow> u8 \<Rightarrow> ('u, 'z) machine_state_scheme \<Rightarrow> ('u, 'z) machine_state_scheme" where
  "scld_hsr_write hk b s = memory_map hk (s\<lparr>scld_last_hsr := b\<rparr>)"

text \<open>
  \<open>load_rom\<close> stands for \<open>machine_load_rom_bank_from_snapshot\<close> on the system ROM table.
\<close>

definition memory_from_snapshot ::
  "capability_bits \<Rightarrow> ('u, 'z) machine_state_scheme paging_hooks \<Rightarrow>
   (nat \<Rightarrow> u8 list \<Rightarrow> ('u, 'z) machine_state_scheme \<Rightarrow> ('u, 'z) machine_state_scheme) \<Rightarrow>
   memory_snap \<Rightarrow> ('u, 'z) machine_state_scheme \<Rightarrow> ('u, 'z) machine_state_scheme" where
  "memory_from_snapshot cb hk load_rom sn s =
    (let caps = capabilities s;
         s1 = (if caps AND CAP_PENT1024_MEMORY cb \<noteq> 0
               then pentagon1024_v22_memoryport_write hk (snap_out_plus3_memoryport sn)
                      (pentagon1024_memoryport_write hk (snap_out_128_memoryport sn) s)
               else (let s' = (if caps AND CAP_128_MEMORY cb \<noteq> 0
                               then spec128_memoryport_write hk (snap_out_128_memoryport sn) s else s)
                     in if caps AND CAP_PLUS3_MEMORY cb \<noteq> 0 \<or> caps AND CAP_SCORP_MEMORY cb \<noteq> 0
                        then specplus3_memoryport2_write_internal cb hk (snap_out_plus3_memoryport sn) s' else s'));
         s2 = fold (\<lambda>i s. case snap_pages sn i of None \<Rightarrow> s
                | Some bs \<Rightarrow> s\<lparr>mem := (mem s)(RAM i := fill_block bs (mem s (RAM i)))\<rparr>) [0..<64] s1
     in if snap_custom_rom sn
        then fold (\<lambda>i s. case snap_roms sn i of None \<Rightarrow> s | Some bs \<Rightarrow> load_rom i bs s)
               [0..<min (snap_custom_rom_pages sn) 4] s2
        else s2)"

section \<open>The specification\<close>

text \<open>What is at each 16K slot, as a function of the machine, the two paging bytes and the Beta interface.\<close>

datatype bank = Rom_bank nat | Ram_bank nat

definition bitn :: "u8 \<Rightarrow> nat \<Rightarrow> nat" where
  "bitn b n = of_bool (bit b n)"

definition low_page :: "u8 \<Rightarrow> nat" where
  "low_page b = bitn b 0 + 2 * bitn b 1 + 4 * bitn b 2"

fun paging_spec :: "libspectrum_machine \<Rightarrow> bool \<Rightarrow> u8 \<Rightarrow> u8 \<Rightarrow> bank list" where
  "paging_spec MACHINE_128 beta p7 p1 = [Rom_bank (bitn p7 4), Ram_bank 5, Ram_bank 2, Ram_bank (low_page p7)]"
| "paging_spec MACHINE_PLUS2 beta p7 p1 = [Rom_bank (bitn p7 4), Ram_bank 5, Ram_bank 2, Ram_bank (low_page p7)]"
| "paging_spec MACHINE_PENT beta p7 p1 = [Rom_bank (bitn p7 4), Ram_bank 5, Ram_bank 2, Ram_bank (low_page p7)]"
| "paging_spec MACHINE_PENT512 beta p7 p1 =
    [Rom_bank (if beta \<and> \<not> bit p7 4 then 2 else bitn p7 4), Ram_bank 5, Ram_bank 2,
     Ram_bank (low_page p7 + 8 * bitn p7 6 + 16 * bitn p7 7)]"
| "paging_spec MACHINE_PENT1024 beta p7 p1 =
    [if bit p1 3 then Ram_bank 0 else Rom_bank (if beta \<and> \<not> bit p7 4 then 2 else bitn p7 4), Ram_bank 5, Ram_bank 2,
     Ram_bank (low_page p7 + (if bit p1 2 then 0 else 8 * bitn p7 6 + 16 * bitn p7 7 + 32 * bitn p7 5))]"
| "paging_spec MACHINE_SCORP beta p7 p1 =
    [if bit p1 0 then Ram_bank 0 else Rom_bank (if bit p1 1 then 2 else bitn p7 4), Ram_bank 5, Ram_bank 2,
     Ram_bank (low_page p7 + 8 * bitn p1 4)]"
| "paging_spec m beta p7 p1 =
    (if m \<in> {MACHINE_PLUS2A, MACHINE_PLUS3, MACHINE_PLUS3E} then
       (if bit p1 0 then
          (if \<not> bit p1 1 \<and> \<not> bit p1 2 then [Ram_bank 0, Ram_bank 1, Ram_bank 2, Ram_bank 3]
           else if \<not> bit p1 2 then [Ram_bank 4, Ram_bank 5, Ram_bank 6, Ram_bank 7]
           else if \<not> bit p1 1 then [Ram_bank 4, Ram_bank 5, Ram_bank 6, Ram_bank 3]
           else [Ram_bank 4, Ram_bank 7, Ram_bank 6, Ram_bank 3])
       else [Rom_bank (bitn p7 4 + 2 * bitn p1 2), Ram_bank 5, Ram_bank 2, Ram_bank (low_page p7)])
     else [])"

definition plus3_type :: "libspectrum_machine \<Rightarrow> bool" where
  "plus3_type m \<longleftrightarrow> m \<in> {MACHINE_PLUS2A, MACHINE_PLUS3, MACHINE_PLUS3E}"

text \<open>The machines whose whole map is a function of the two paging bytes.\<close>

definition paged_machine :: "libspectrum_machine \<Rightarrow> bool" where
  "paged_machine m \<longleftrightarrow> plus3_type m \<or>
     m \<in> {MACHINE_128, MACHINE_PLUS2, MACHINE_PENT, MACHINE_PENT512, MACHINE_PENT1024, MACHINE_SCORP}"


fun bank_chunk :: "('u, 'z) machine_state_scheme \<Rightarrow> bank \<Rightarrow> nat \<Rightarrow> memory_page" where
  "bank_chunk s (Rom_bank n) k = memory_map_rom s ! (n * 8 + k)"
| "bank_chunk s (Ram_bank n) k = memory_map_ram s ! (n * 8 + k)"

text \<open>The tables hold these four banks, for reading and for writing.\<close>

definition shows_banks :: "bank list \<Rightarrow> ('u, 'z) machine_state_scheme \<Rightarrow> bool" where
  "shows_banks bs s \<longleftrightarrow> length (memory_map_read s) = 32 \<and> length (memory_map_write s) = 32 \<and>
     (\<forall>a. read_mapping a s = bank_chunk s (bs ! (unat a div 0x4000)) (unat a div 2048 mod 8) \<and>
          write_mapping a s = bank_chunk s (bs ! (unat a div 0x4000)) (unat a div 2048 mod 8))"

definition hooks_ok :: "('u, 'z) machine_state_scheme paging_hooks \<Rightarrow> bool" where
  "hooks_ok hk \<longleftrightarrow>
    (\<forall>s. machine_state.truncate (redraw_screen hk s) = machine_state.truncate s) \<and>
    (\<forall>s. machine_state.truncate (display_border_recheck hk s) = machine_state.truncate s) \<and>
    (\<forall>b s. machine_state.truncate (printer_parallel_strobe_write hk b s) = machine_state.truncate s) \<and>
    (\<forall>b s. machine_state.truncate (specplus3_motors hk b s) = machine_state.truncate s)"

text \<open>
  The invariant of the paging ports: the tables are those of the specification for the bytes last
  written, the screen is the one of bit 3, and the lock is bit 5 of the last byte.
\<close>

definition paging_inv :: "('u, 'z) machine_state_scheme \<Rightarrow> bool" where
  "paging_inv s \<longleftrightarrow> paged_machine (machine s) \<and> \<not> romcs (ram s) \<and>
     memory_current_screen s = screen_bit (last_byte (ram s)) \<and>
     (if machine s = MACHINE_PENT1024 then locked (ram s) \<longrightarrow> bit (last_byte (ram s)) 5
      else locked (ram s) = bit (last_byte (ram s)) 5) \<and>
     shows_banks (paging_spec (machine s) (beta_active (disks s)) (last_byte (ram s)) (last_byte2 (ram s))) s"

text \<open>The three paging ports; 0x7ffd is decoded by another function on the Pentagon 1024.\<close>

datatype paging_op = Port_7ffd u8 | Port_1ffd u8 | Port_eff7 u8

fun paging_step ::
  "capability_bits \<Rightarrow> ('u, 'z) machine_state_scheme paging_hooks \<Rightarrow> paging_op \<Rightarrow> ('u, 'z) machine_state_scheme \<Rightarrow>
   ('u, 'z) machine_state_scheme" where
  "paging_step cb hk (Port_7ffd b) s =
    (if machine s = MACHINE_PENT1024 then pentagon1024_memoryport_write hk b s else spec128_memoryport_write hk b s)"
| "paging_step cb hk (Port_1ffd b) s = specplus3_memoryport2_write cb hk b s"
| "paging_step cb hk (Port_eff7 b) s = pentagon1024_v22_memoryport_write hk b s"

definition keeps_paging :: "('u, 'z) machine_state_scheme \<Rightarrow> ('u, 'z) machine_state_scheme \<Rightarrow> bool" where
  "keeps_paging s s' \<longleftrightarrow> machine s' = machine s \<and> disks s' = disks s \<and> mem s' = mem s \<and>
     memory_map_ram s' = memory_map_ram s \<and> memory_map_rom s' = memory_map_rom s \<and>
     last_byte (ram s') = last_byte (ram s) \<and> last_byte2 (ram s') = last_byte2 (ram s) \<and>
     locked (ram s') = locked (ram s) \<and> romcs (ram s') = romcs (ram s)"

text \<open>The memory part of the resets of the paged machines.\<close>

definition machine_common_reset :: "bool \<Rightarrow> ('u, 'z) machine_state_scheme \<Rightarrow> ('u, 'z) machine_state_scheme" where
  "machine_common_reset contention s =
    (if plus3_type (machine s) then specplus3_plus2a_common_reset s else spec128_common_reset contention s)"

section \<open>The maps refine the specification\<close>

lemma mapped_bits:
  fixes b c :: u8
  shows "unat (b AND 0x07) = low_page b" "unat (drop_bit 4 (b AND 0x10)) = bitn b 4"
    "unat (drop_bit 4 (b AND 0x10) OR drop_bit 1 (c AND 0x04)) = bitn b 4 + 2 * bitn c 2"
    "unat (drop_bit 1 (c AND 0x06)) = bitn c 1 + 2 * bitn c 2"
    "unat (drop_bit 1 (c AND 0x10) OR (b AND 0x07)) = low_page b + 8 * bitn c 4"
    "unat (drop_bit 3 (b AND 0xC0)) = 8 * bitn b 6 + 16 * bitn b 7" "unat (b AND 0x20) = 32 * bitn b 5"
proof -
  have "b AND 0x07 = of_bool (bit b 0) OR push_bit 1 (of_bool (bit b 1)) OR push_bit 2 (of_bool (bit b 2))"
    "drop_bit 4 (b AND 0x10) = of_bool (bit b 4)"
    "drop_bit 4 (b AND 0x10) OR drop_bit 1 (c AND 0x04) = of_bool (bit b 4) OR push_bit 1 (of_bool (bit c 2))"
    "drop_bit 1 (c AND 0x06) = of_bool (bit c 1) OR push_bit 1 (of_bool (bit c 2))"
    "drop_bit 1 (c AND 0x10) OR (b AND 0x07) =
       of_bool (bit b 0) OR push_bit 1 (of_bool (bit b 1)) OR push_bit 2 (of_bool (bit b 2)) OR push_bit 3 (of_bool (bit c 4))"
    "drop_bit 3 (b AND 0xC0) = push_bit 3 (of_bool (bit b 6)) OR push_bit 4 (of_bool (bit b 7))"
    "b AND 0x20 = push_bit 5 (of_bool (bit b 5))"
    by (rule u8_eqI; simp add: bit_simps; simp add: eval_nat_numeral)+
  then show "unat (b AND 0x07) = low_page b" "unat (drop_bit 4 (b AND 0x10)) = bitn b 4"
    "unat (drop_bit 4 (b AND 0x10) OR drop_bit 1 (c AND 0x04)) = bitn b 4 + 2 * bitn c 2"
    "unat (drop_bit 1 (c AND 0x06)) = bitn c 1 + 2 * bitn c 2"
    "unat (drop_bit 1 (c AND 0x10) OR (b AND 0x07)) = low_page b + 8 * bitn c 4"
    "unat (drop_bit 3 (b AND 0xC0)) = 8 * bitn b 6 + 16 * bitn b 7" "unat (b AND 0x20) = 32 * bitn b 5"
    by (simp_all add: low_page_def bitn_def)
qed

lemma tested_bits:
  fixes b :: u8
  shows "b AND 0x01 = 0 \<longleftrightarrow> \<not> bit b 0" "b AND 0x02 = 0 \<longleftrightarrow> \<not> bit b 1" "b AND 0x04 = 0 \<longleftrightarrow> \<not> bit b 2"
    "b AND 0x08 = 0 \<longleftrightarrow> \<not> bit b 3" "b AND 0x10 = 0 \<longleftrightarrow> \<not> bit b 4" "b AND 0x20 = 0 \<longleftrightarrow> \<not> bit b 5"
  using and_exp_eq_0_iff_not_bit [of b 0] and_exp_eq_0_iff_not_bit [of b 1] and_exp_eq_0_iff_not_bit [of b 2]
    and_exp_eq_0_iff_not_bit [of b 3] and_exp_eq_0_iff_not_bit [of b 4] and_exp_eq_0_iff_not_bit [of b 5] by simp_all

lemma map_16k_frame [simp]:
  assumes "unat address mod 0x4000 = 0"
  shows "memory_map_ram (memory_map_16k address src k s) = memory_map_ram s"
    "memory_map_rom (memory_map_16k address src k s) = memory_map_rom s"
    "ram (memory_map_16k address src k s) = ram s"
    "memory_current_screen (memory_map_16k address src k s) = memory_current_screen s"
    "mem (memory_map_16k address src k s) = mem s"
    "machine (memory_map_16k address src k t) = machine t"
    "disks (memory_map_16k address src k t) = disks t"
  using aligned_slot(3) [OF assms] by (simp_all add: memory_map_16k_def r16k.map_law)

lemma set_ram_frame [simp]:
  "memory_map_ram (set_ram f s) = memory_map_ram s" "memory_map_rom (set_ram f s) = memory_map_rom s"
  "ram (set_ram f s) = f (ram s)" "memory_current_screen (set_ram f s) = memory_current_screen s"
  "mem (set_ram f s) = mem s" "machine (set_ram f s) = machine s" "disks (set_ram f s) = disks s"
  "shows_banks bs (set_ram f s) = shows_banks bs s"
proof -
  have "bank_chunk (set_ram f s) b k = bank_chunk s b k" for b k by (cases b) (simp_all add: set_ram_def)
  then show "shows_banks bs (set_ram f s) = shows_banks bs s"
    by (simp add: shows_banks_def read_mapping_def write_mapping_def) (simp add: set_ram_def)
qed (simp_all add: set_ram_def)

lemma shows_map:
  assumes s: "shows_banks bs s" "length bs = 4" and a: "unat address = 0x4000 * i" "i < 4"
  shows "shows_banks (bs[i := Ram_bank n]) (memory_map_16k address (memory_map_ram s) n s)"
    "shows_banks (bs[i := Rom_bank n]) (memory_map_16k address (memory_map_rom s) n s)"
proof -
  have al: "unat address mod 0x4000 = 0" "unat address div 0x4000 = i" using a by simp_all
  have len: "length (memory_map_read s) = 32" "length (memory_map_write s) = 32"
    using s(1) by (simp_all add: shows_banks_def)
  have c: "bank_chunk (memory_map_16k address src n s) b k = bank_chunk s b k" for src b k
    by (cases b) (simp_all add: al(1))
  have b: "bs[i := b] ! j = (if j = i then b else bs ! j)" if "j < 4" for j b
    using s(2) that by (cases "j = i") auto
  have lt: "unat x div 0x4000 < 4" for x :: u16
    using unat_u16_bound [of x] by (simp add: less_mult_imp_div_less)
  show "shows_banks (bs[i := Ram_bank n]) (memory_map_16k address (memory_map_ram s) n s)"
    "shows_banks (bs[i := Rom_bank n]) (memory_map_16k address (memory_map_rom s) n s)"
    using s(1) by (simp_all add: shows_banks_def map_16k_reads [OF al(1) len] al len c b [OF lt])
qed

lemma truncate_machine:
  assumes "machine_state.truncate s' = machine_state.truncate s"
  shows "ram s' = ram s" "machine s' = machine s" "disks s' = disks s" "mem s' = mem s"
     "memory_map_ram s' = memory_map_ram s" "memory_map_rom s' = memory_map_rom s" "shows_banks bs s' = shows_banks bs s"
     "capabilities s' = capabilities s" "memory_current_screen s' = memory_current_screen s"
proof -
  have f: "memory_map_read s' = memory_map_read s" "memory_map_write s' = memory_map_write s"
    "memory_map_ram s' = memory_map_ram s" "memory_map_rom s' = memory_map_rom s"
    using arg_cong [OF assms, of memory_map_read] arg_cong [OF assms, of memory_map_write]
      arg_cong [OF assms, of memory_map_ram] arg_cong [OF assms, of memory_map_rom]
    by (simp_all add: machine_state.truncate_def)
  have "bank_chunk s' b k = bank_chunk s b k" for b k using f by (cases b) simp_all
  then show "shows_banks bs s' = shows_banks bs s"
    by (simp add: shows_banks_def read_mapping_def write_mapping_def f)
  show "memory_map_ram s' = memory_map_ram s" "memory_map_rom s' = memory_map_rom s" by (rule f)+
  show "ram s' = ram s" "machine s' = machine s" "disks s' = disks s" "mem s' = mem s"
    "capabilities s' = capabilities s" "memory_current_screen s' = memory_current_screen s"
    using arg_cong [OF assms, of ram] arg_cong [OF assms, of machine] arg_cong [OF assms, of disks]
      arg_cong [OF assms, of mem] arg_cong [OF assms, of capabilities] arg_cong [OF assms, of memory_current_screen]
    by (simp_all add: machine_state.truncate_def)
qed

lemma update_screen_frame:
  assumes "hooks_ok hk"
  shows "ram (update_screen hk s) = ram s" "machine (update_screen hk s) = machine s" "disks (update_screen hk s) = disks s"
    "mem (update_screen hk s) = mem s"
    "memory_map_ram (update_screen hk s) = memory_map_ram s" "memory_map_rom (update_screen hk s) = memory_map_rom s"
    "shows_banks bs (update_screen hk s) = shows_banks bs s"
    "memory_current_screen (update_screen hk s) = screen_bit (last_byte (ram s))"
proof -
  have h: "machine_state.truncate (redraw_screen hk s) = machine_state.truncate s"
    using assms by (simp add: hooks_ok_def)
  have "bank_chunk (t\<lparr>memory_current_screen := x\<rparr>) b k = bank_chunk t b k" for t :: "('a, 'b) machine_state_scheme" and x b k
    by (cases b) simp_all
  then have m: "shows_banks bs (t\<lparr>memory_current_screen := x\<rparr>) = shows_banks bs t" for t :: "('a, 'b) machine_state_scheme" and x
    by (simp add: shows_banks_def read_mapping_def write_mapping_def)
  show "ram (update_screen hk s) = ram s" "machine (update_screen hk s) = machine s" "disks (update_screen hk s) = disks s"
    "mem (update_screen hk s) = mem s"
    "memory_map_ram (update_screen hk s) = memory_map_ram s" "memory_map_rom (update_screen hk s) = memory_map_rom s"
    "shows_banks bs (update_screen hk s) = shows_banks bs s"
    "memory_current_screen (update_screen hk s) = screen_bit (last_byte (ram s))"
    using truncate_machine [OF h] by (simp_all add: update_screen_def Let_def m)
qed


lemma update_four: "length bs = 4 \<Longrightarrow> bs[0 := a, Suc 0 := b, 2 := c, 3 := d] = [a, b, c, d]"
  by (auto simp: length_Suc_conv eval_nat_numeral)

lemma shows_select:
  assumes "shows_banks bs s" "length bs = 4"
  shows "shows_banks (bs[0 := Rom_bank n]) (spec128_select_rom n s)" "shows_banks (bs[3 := Ram_bank n]) (spec128_select_page n s)"
    "shows_banks (bs[0 := Ram_bank n]) (memory_map_16k 0 (memory_map_ram s) n s)"
    "shows_banks [Rom_bank m, Ram_bank 5, Ram_bank 2, Ram_bank n] (normal_memory_map m n s)"
    "shows_banks [Ram_bank i, Ram_bank j, Ram_bank k, Ram_bank l] (select_special_map i j k l s)"
proof -
  show "shows_banks (bs[0 := Rom_bank n]) (spec128_select_rom n s)" "shows_banks (bs[3 := Ram_bank n]) (spec128_select_page n s)"
    "shows_banks (bs[0 := Ram_bank n]) (memory_map_16k 0 (memory_map_ram s) n s)"
    using shows_map [OF assms, of 0 0 n] shows_map(1) [OF assms, of "0xc000" 3 n]
    by (simp_all add: spec128_select_rom_def spec128_select_page_def)
  have top: "shows_banks [b, Ram_bank x, Ram_bank y, Ram_bank z]
      (memory_map_16k 0xc000 (memory_map_ram t) z (memory_map_16k 0x8000 (memory_map_ram t) y (memory_map_16k 0x4000 (memory_map_ram t) x t)))"
    if t: "shows_banks (bs[0 := b]) t" for b x y z and t :: "('a, 'b) machine_state_scheme"
  proof -
    have 1: "shows_banks (bs[0 := b, Suc 0 := Ram_bank x]) (memory_map_16k 0x4000 (memory_map_ram t) x t)" (is "shows_banks _ ?t1")
      using shows_map(1) [OF t, of "0x4000" 1 x] assms(2) by simp
    have 2: "shows_banks (bs[0 := b, Suc 0 := Ram_bank x, 2 := Ram_bank y]) (memory_map_16k 0x8000 (memory_map_ram t) y ?t1)" (is "shows_banks _ ?t2")
      using shows_map(1) [OF 1, of "0x8000" 2 y] assms(2) by simp
    show ?thesis
      using shows_map(1) [OF 2, of "0xc000" 3 z] assms(2) by (simp add: update_four)
  qed
  show "shows_banks [Rom_bank m, Ram_bank 5, Ram_bank 2, Ram_bank n] (normal_memory_map m n s)"
    using top [OF shows_map(2) [OF assms, of 0 0 m], of 5 2 n] by (simp add: normal_memory_map_def Let_def)
  show "shows_banks [Ram_bank i, Ram_bank j, Ram_bank k, Ram_bank l] (select_special_map i j k l s)"
    using top [OF shows_map(1) [OF assms, of 0 0 i], of j k l] by (simp add: select_special_map_def Let_def)
qed

lemma select_frame:
  "keeps_paging s (spec128_select_rom n s)" "keeps_paging s (spec128_select_page n s)"
  "keeps_paging s (normal_memory_map m n s)" "keeps_paging s (select_special_map i j k l s)"
  "memory_current_screen (spec128_select_rom n s) = memory_current_screen s"
  "memory_current_screen (spec128_select_page n s) = memory_current_screen s"
  "memory_current_screen (normal_memory_map m n s) = memory_current_screen s"
  "memory_current_screen (select_special_map i j k l s) = memory_current_screen s"
  by (simp_all add: keeps_paging_def spec128_select_rom_def spec128_select_page_def normal_memory_map_def select_special_map_def Let_def)

text \<open>Every map function installs the banks of the specification, whatever was in slots it sets itself.\<close>

lemma spec128_map_shows:
  assumes hk: "hooks_ok hk" and s: "\<not> romcs (ram s)" "shows_banks [b0, Ram_bank 5, Ram_bank 2, b3] s"
  shows "shows_banks [Rom_bank (bitn (last_byte (ram s)) 4), Ram_bank 5, Ram_bank 2, Ram_bank (low_page (last_byte (ram s)))]
      (spec128_memory_map hk s)"
    "keeps_paging s (spec128_memory_map hk s)"
    "memory_current_screen (spec128_memory_map hk s) = screen_bit (last_byte (ram s))"
    "current_page (ram (spec128_memory_map hk s)) = low_page (last_byte (ram s))"
    "current_rom (ram (spec128_memory_map hk s)) = bitn (last_byte (ram s)) 4"
proof -
  note u = update_screen_frame [OF hk, where s = s]
  have 0: "shows_banks [b0, Ram_bank 5, Ram_bank 2, b3] (update_screen hk s)" using s(2) u by simp
  note 1 = shows_select(1) [OF 0, where n = "bitn (last_byte (ram s)) 4", simplified]
  note 2 = shows_select(2) [OF 1, where n = "low_page (last_byte (ram s))", simplified]
  show "shows_banks [Rom_bank (bitn (last_byte (ram s)) 4), Ram_bank 5, Ram_bank 2, Ram_bank (low_page (last_byte (ram s)))]
      (spec128_memory_map hk s)"
    using 2 s(1) u unfolding spec128_memory_map_def Let_def mapped_bits
    by (simp add: memory_romcs_map_def spec128_select_rom_def spec128_select_page_def)
  show "keeps_paging s (spec128_memory_map hk s)"
    "memory_current_screen (spec128_memory_map hk s) = screen_bit (last_byte (ram s))"
    "current_page (ram (spec128_memory_map hk s)) = low_page (last_byte (ram s))"
    "current_rom (ram (spec128_memory_map hk s)) = bitn (last_byte (ram s)) 4"
    using s(1) u unfolding spec128_memory_map_def Let_def mapped_bits
    by (simp_all add: memory_romcs_map_def keeps_paging_def spec128_select_rom_def spec128_select_page_def)
qed

lemma spec128_frame [simp]:
  "memory_map_ram (spec128_select_rom n s) = memory_map_ram s" "memory_map_rom (spec128_select_rom n s) = memory_map_rom s"
  "ram (spec128_select_rom n s) = (ram s)\<lparr>current_rom := n\<rparr>" "ram (spec128_select_page n s) = (ram s)\<lparr>current_page := n\<rparr>"
  "memory_map_ram (spec128_select_page n s) = memory_map_ram s" "memory_map_rom (spec128_select_page n s) = memory_map_rom s"
  "machine (spec128_select_rom n s) = machine s" "machine (spec128_select_page n s) = machine s"
  "disks (spec128_select_rom n s) = disks s" "disks (spec128_select_page n s) = disks s"
  "mem (spec128_select_rom n s) = mem s" "mem (spec128_select_page n s) = mem s"
  "memory_current_screen (spec128_select_rom n s) = memory_current_screen s"
  "memory_current_screen (spec128_select_page n s) = memory_current_screen s"
  by (simp_all add: spec128_select_rom_def spec128_select_page_def)

text \<open>The Russian machines choose between a ROM and RAM 0 at the bottom, then map the top page.\<close>

lemma bottom_and_top:
  assumes "shows_banks [b0, Ram_bank 5, Ram_bank 2, b3] t"
  shows "shows_banks [if c then Ram_bank 0 else Rom_bank n, Ram_bank 5, Ram_bank 2, Ram_bank m]
     (spec128_select_page m (if c then set_ram f (memory_map_16k 0 (memory_map_ram t) 0 t) else spec128_select_rom n t))"
proof -
  have "shows_banks [if c then Ram_bank 0 else Rom_bank n, Ram_bank 5, Ram_bank 2, b3]
     (if c then set_ram f (memory_map_16k 0 (memory_map_ram t) 0 t) else spec128_select_rom n t)"
    using shows_select(1,3) [OF assms] by simp
  from shows_select(2) [OF this] show ?thesis by simp
qed

lemma scorpion_map_shows:
  assumes hk: "hooks_ok hk" and s: "\<not> romcs (ram s)" "shows_banks [b0, Ram_bank 5, Ram_bank 2, b3] s"
  shows "shows_banks (paging_spec MACHINE_SCORP beta (last_byte (ram s)) (last_byte2 (ram s))) (scorpion_memory_map hk s)"
    "keeps_paging s (scorpion_memory_map hk s)"
    "memory_current_screen (scorpion_memory_map hk s) = screen_bit (last_byte (ram s))"
proof -
  note u = update_screen_frame [OF hk, where s = s]
  define rom where "rom = (if bit (last_byte2 (ram s)) 1 then 2 else bitn (last_byte (ram s)) 4)"
  have "shows_banks [b0, Ram_bank 5, Ram_bank 2, b3] (set_ram (\<lambda>r. r\<lparr>current_rom := rom\<rparr>) (update_screen hk s))"
    using s(2) u by simp
  from bottom_and_top [OF this, of "bit (last_byte2 (ram s)) 0" rom "low_page (last_byte (ram s)) + 8 * bitn (last_byte2 (ram s)) 4"]
  show "shows_banks (paging_spec MACHINE_SCORP beta (last_byte (ram s)) (last_byte2 (ram s))) (scorpion_memory_map hk s)"
    using s(1) u unfolding scorpion_memory_map_def Let_def mapped_bits tested_bits
    by (auto simp: memory_romcs_map_def rom_def mapped_bits tested_bits)
  show "keeps_paging s (scorpion_memory_map hk s)"
    "memory_current_screen (scorpion_memory_map hk s) = screen_bit (last_byte (ram s))"
    using s(1) u unfolding scorpion_memory_map_def Let_def mapped_bits tested_bits
    by (simp_all add: memory_romcs_map_def keeps_paging_def)
qed

lemma pentagon512_map_shows:
  assumes hk: "hooks_ok hk" and s: "\<not> romcs (ram s)" "shows_banks [b0, Ram_bank 5, Ram_bank 2, b3] s"
  shows "shows_banks (paging_spec MACHINE_PENT512 (beta_active (disks s)) (last_byte (ram s)) (last_byte2 (ram s)))
      (pentagon512_memory_map hk s)"
    "keeps_paging s (pentagon512_memory_map hk s)"
    "memory_current_screen (pentagon512_memory_map hk s) = screen_bit (last_byte (ram s))"
proof -
  note u = update_screen_frame [OF hk, where s = s]
  define rom where "rom = (if beta_active (disks s) \<and> \<not> bit (last_byte (ram s)) 4 then 2 else bitn (last_byte (ram s)) 4)"
  have "shows_banks [b0, Ram_bank 5, Ram_bank 2, b3] (set_ram (\<lambda>r. r\<lparr>current_rom := rom\<rparr>) (update_screen hk s))"
    using s(2) u by simp
  from bottom_and_top [OF this, of False rom "low_page (last_byte (ram s)) + (8 * bitn (last_byte (ram s)) 6 + 16 * bitn (last_byte (ram s)) 7)"]
  show "shows_banks (paging_spec MACHINE_PENT512 (beta_active (disks s)) (last_byte (ram s)) (last_byte2 (ram s)))
      (pentagon512_memory_map hk s)"
    using s(1) u unfolding pentagon512_memory_map_def Let_def mapped_bits tested_bits
    by (auto simp: memory_romcs_map_def rom_def add.assoc)
  show "keeps_paging s (pentagon512_memory_map hk s)"
    "memory_current_screen (pentagon512_memory_map hk s) = screen_bit (last_byte (ram s))"
    using s(1) u unfolding pentagon512_memory_map_def Let_def mapped_bits tested_bits
    by (simp_all add: memory_romcs_map_def keeps_paging_def)
qed

lemma pentagon1024_map_shows:
  assumes hk: "hooks_ok hk" and s: "\<not> romcs (ram s)" "shows_banks [b0, Ram_bank 5, Ram_bank 2, b3] s"
  shows "shows_banks (paging_spec MACHINE_PENT1024 (beta_active (disks s)) (last_byte (ram s)) (last_byte2 (ram s)))
      (pentagon1024_memory_map hk s)"
    "keeps_paging s (pentagon1024_memory_map hk s)"
    "memory_current_screen (pentagon1024_memory_map hk s) = screen_bit (last_byte (ram s))"
proof -
  note u = update_screen_frame [OF hk, where s = s]
  define rom where "rom = (if beta_active (disks s) \<and> \<not> bit (last_byte (ram s)) 4 then 2 else bitn (last_byte (ram s)) 4)"
  have "shows_banks [b0, Ram_bank 5, Ram_bank 2, b3] (set_ram (\<lambda>r. r\<lparr>current_rom := rom\<rparr>) (update_screen hk s))"
    using s(2) u by simp
  from bottom_and_top [OF this, of "bit (last_byte2 (ram s)) 3" rom "low_page (last_byte (ram s)) + (if bit (last_byte2 (ram s)) 2 then 0
      else 8 * bitn (last_byte (ram s)) 6 + 16 * bitn (last_byte (ram s)) 7 + 32 * bitn (last_byte (ram s)) 5)"]
  show "shows_banks (paging_spec MACHINE_PENT1024 (beta_active (disks s)) (last_byte (ram s)) (last_byte2 (ram s)))
      (pentagon1024_memory_map hk s)"
    using s(1) u unfolding pentagon1024_memory_map_def Let_def mapped_bits tested_bits
    by (auto simp: memory_romcs_map_def rom_def split: if_splits)
  show "keeps_paging s (pentagon1024_memory_map hk s)"
    "memory_current_screen (pentagon1024_memory_map hk s) = screen_bit (last_byte (ram s))"
    using s(1) u unfolding pentagon1024_memory_map_def Let_def mapped_bits tested_bits
    by (simp_all add: memory_romcs_map_def keeps_paging_def)
qed

lemma plus3_spec:
  "plus3_type m \<Longrightarrow> paging_spec m beta p7 p1 =
    (if bit p1 0 then
       (if \<not> bit p1 1 \<and> \<not> bit p1 2 then [Ram_bank 0, Ram_bank 1, Ram_bank 2, Ram_bank 3]
        else if \<not> bit p1 2 then [Ram_bank 4, Ram_bank 5, Ram_bank 6, Ram_bank 7]
        else if \<not> bit p1 1 then [Ram_bank 4, Ram_bank 5, Ram_bank 6, Ram_bank 3]
        else [Ram_bank 4, Ram_bank 7, Ram_bank 6, Ram_bank 3])
     else [Rom_bank (bitn p7 4 + 2 * bitn p1 2), Ram_bank 5, Ram_bank 2, Ram_bank (low_page p7)])"
  by (auto simp: plus3_type_def)

lemma special_map:
  assumes "shows_banks bs s" "length bs = 4"
  shows "shows_banks (if \<not> p \<and> \<not> q then [Ram_bank 0, Ram_bank 1, Ram_bank 2, Ram_bank 3]
        else if \<not> q then [Ram_bank 4, Ram_bank 5, Ram_bank 6, Ram_bank 7]
        else if \<not> p then [Ram_bank 4, Ram_bank 5, Ram_bank 6, Ram_bank 3]
        else [Ram_bank 4, Ram_bank 7, Ram_bank 6, Ram_bank 3]) (special_memory_map hk (of_bool p + 2 * of_bool q) s)"
    "keeps_paging s (special_memory_map hk (of_bool p + 2 * of_bool q) s)"
    "memory_current_screen (special_memory_map hk (of_bool p + 2 * of_bool q) s) = memory_current_screen s"
  using shows_select(5) [OF assms] by (simp_all add: special_memory_map_def select_frame)

lemma keeps_paging_trans: "keeps_paging s t \<Longrightarrow> keeps_paging t u \<Longrightarrow> keeps_paging s u"
  by (simp add: keeps_paging_def)

lemma specplus3_map_shows:
  assumes hk: "hooks_ok hk" and s: "\<not> romcs (ram s)" "shows_banks bs s" "length bs = 4" "plus3_type m"
  shows "shows_banks (paging_spec m beta (last_byte (ram s)) (last_byte2 (ram s))) (specplus3_memory_map hk s)"
    "keeps_paging s (specplus3_memory_map hk s)"
    "memory_current_screen (specplus3_memory_map hk s) = screen_bit (last_byte (ram s))"
proof -
  note u = update_screen_frame [OF hk, where s = s]
  define t where "t = update_screen hk s"
  have t: "keeps_paging s (set_ram f t) \<longleftrightarrow> keeps_paging s (s\<lparr>ram := f (ram s)\<rparr>)" for f
    using u by (simp add: t_def keeps_paging_def)
  have sh: "shows_banks bs (set_ram f t)" for f using s(2) u by (simp add: t_def)
  note sp = special_map [OF sh s(3)] and nm = shows_select(4) [OF sh s(3)] and nf = select_frame(3)
  have tr: "keeps_paging (set_ram (\<lambda>r. r\<lparr>special := x\<rparr>) t) y \<Longrightarrow> keeps_paging s y" for x y
    using u by (simp add: t_def keeps_paging_def)
  have cs: "memory_current_screen t = screen_bit (last_byte (ram s))" "ram t = ram s" using u by (simp_all add: t_def)
  have e: "keeps_paging s (set_ram (\<lambda>r. r\<lparr>current_page := a, current_rom := b\<rparr>) y) = keeps_paging s y" for a b y
    by (simp add: keeps_paging_def)
  define m1 where "m1 = (if bit (last_byte2 (ram s)) 0
      then special_memory_map hk (bitn (last_byte2 (ram s)) 1 + 2 * bitn (last_byte2 (ram s)) 2) (set_ram (\<lambda>r. r\<lparr>special := True\<rparr>) t)
      else normal_memory_map (bitn (last_byte (ram s)) 4 + 2 * bitn (last_byte2 (ram s)) 2) (low_page (last_byte (ram s)))
             (set_ram (\<lambda>r. r\<lparr>special := False\<rparr>) t))"
  have m1: "shows_banks (paging_spec m beta (last_byte (ram s)) (last_byte2 (ram s))) m1" "keeps_paging s m1"
    "memory_current_screen m1 = screen_bit (last_byte (ram s))"
    unfolding plus3_spec [OF s(4)] m1_def bitn_def
    using sp(1) [where hk = hk] nm tr [OF nf] tr [OF sp(2)] cs sp(3) [where hk = hk]
    by (cases "bit (last_byte2 (ram s)) 0"; simp only: if_True if_False select_frame set_ram_frame)+
  then have nr: "\<not> romcs (ram m1)" using s(1) by (simp add: keeps_paging_def)
  have r: "specplus3_memory_map hk s = set_ram (\<lambda>r. r\<lparr>current_page := low_page (last_byte (ram s)),
      current_rom := bitn (last_byte (ram s)) 4 + 2 * bitn (last_byte2 (ram s)) 2\<rparr>) m1"
    unfolding specplus3_memory_map_def Let_def t_def [symmetric] cs(2) mapped_bits tested_bits not_not m1_def [symmetric]
    by (simp add: memory_romcs_map_def nr)
  show "shows_banks (paging_spec m beta (last_byte (ram s)) (last_byte2 (ram s))) (specplus3_memory_map hk s)"
    "keeps_paging s (specplus3_memory_map hk s)"
    "memory_current_screen (specplus3_memory_map hk s) = screen_bit (last_byte (ram s))"
    unfolding r e using m1 by simp_all
qed

lemma paging_spec_shape:
  assumes "paged_machine m"
  shows "length (paging_spec m beta p7 p1) = 4"
    "\<not> plus3_type m \<Longrightarrow> \<exists>b0 b3. paging_spec m beta p7 p1 = [b0, Ram_bank 5, Ram_bank 2, b3]"
  using assms by (auto simp: paged_machine_def plus3_type_def)

lemma memory_map_refines:
  assumes hk: "hooks_ok hk" and m: "paged_machine (machine s)" "\<not> romcs (ram s)"
    and s: "shows_banks (paging_spec (machine s) beta p7 p1) s"
  shows "shows_banks (paging_spec (machine s) (beta_active (disks s)) (last_byte (ram s)) (last_byte2 (ram s))) (memory_map hk s)"
    "keeps_paging s (memory_map hk s)" "memory_current_screen (memory_map hk s) = screen_bit (last_byte (ram s))"
proof -
  have "shows_banks (paging_spec (machine s) (beta_active (disks s)) (last_byte (ram s)) (last_byte2 (ram s))) (memory_map hk s) \<and>
    keeps_paging s (memory_map hk s) \<and> memory_current_screen (memory_map hk s) = screen_bit (last_byte (ram s))"
  proof (cases "plus3_type (machine s)")
    case True
    have "memory_map hk s = specplus3_memory_map hk s" using True by (auto simp: plus3_type_def memory_map_def)
    then show ?thesis
      using specplus3_map_shows [OF hk m(2) s paging_spec_shape(1) [OF m(1)] True] by simp
  next
    case False
    then obtain b0 b3 where b: "shows_banks [b0, Ram_bank 5, Ram_bank 2, b3] s"
      using s paging_spec_shape(2) [OF m(1)] by metis
    show ?thesis
      using False m(1) spec128_map_shows [OF hk m(2) b] scorpion_map_shows [OF hk m(2) b]
        pentagon512_map_shows [OF hk m(2) b] pentagon1024_map_shows [OF hk m(2) b]
      by (auto simp: paged_machine_def memory_map_def)
  qed
  then show "shows_banks (paging_spec (machine s) (beta_active (disks s)) (last_byte (ram s)) (last_byte2 (ram s))) (memory_map hk s)"
    "keeps_paging s (memory_map hk s)" "memory_current_screen (memory_map hk s) = screen_bit (last_byte (ram s))" by blast+
qed

section \<open>The ports keep the invariant\<close>

declare paging_spec.simps [simp del]

text \<open>Storing a byte and calling \<open>memory_map\<close>.\<close>

lemma store_and_map:
  assumes hk: "hooks_ok hk" and s: "paged_machine (machine s)" "\<not> romcs (ram s)"
     "shows_banks (paging_spec (machine s) beta p7 p1) s" and f: "romcs (f (ram s)) = romcs (ram s)"
  shows "machine (memory_map hk (set_ram f s)) = machine s" "disks (memory_map hk (set_ram f s)) = disks s"
    "mem (memory_map hk (set_ram f s)) = mem s"
    "memory_map_ram (memory_map hk (set_ram f s)) = memory_map_ram s"
    "memory_map_rom (memory_map hk (set_ram f s)) = memory_map_rom s"
    "last_byte (ram (memory_map hk (set_ram f s))) = last_byte (f (ram s))"
    "last_byte2 (ram (memory_map hk (set_ram f s))) = last_byte2 (f (ram s))"
    "locked (ram (memory_map hk (set_ram f s))) = locked (f (ram s))"
    "\<not> romcs (ram (memory_map hk (set_ram f s)))"
    "memory_current_screen (memory_map hk (set_ram f s)) = screen_bit (last_byte (f (ram s)))"
    "shows_banks (paging_spec (machine s) (beta_active (disks s)) (last_byte (f (ram s))) (last_byte2 (f (ram s))))
       (memory_map hk (set_ram f s))"
  using memory_map_refines [OF hk, of "set_ram f s" beta p7 p1] s f
  by (simp_all add: keeps_paging_def)

lemma spec128_port_inv:
  assumes "hooks_ok hk" "paging_inv s" "machine s \<noteq> MACHINE_PENT1024"
  shows "paging_inv (spec128_memoryport_write hk b s)"
  using assms store_and_map [OF assms(1), of s "beta_active (disks s)" "last_byte (ram s)" "last_byte2 (ram s)" "\<lambda>r. r\<lparr>last_byte := b\<rparr>"]
  by (simp add: paging_inv_def spec128_memoryport_write_def tested_bits)

lemma pentagon1024_port_inv:
  assumes "hooks_ok hk" "paging_inv s" "machine s = MACHINE_PENT1024"
  shows "paging_inv (pentagon1024_memoryport_write hk b s)"
  using assms store_and_map [OF assms(1), of s "beta_active (disks s)" "last_byte (ram s)" "last_byte2 (ram s)" "\<lambda>r. r\<lparr>last_byte := b\<rparr>"]
  by (simp add: paging_inv_def pentagon1024_memoryport_write_def tested_bits Let_def)

lemma truncate_inv: "machine_state.truncate s' = machine_state.truncate s \<Longrightarrow> paging_inv s' = paging_inv s"
  by (simp add: paging_inv_def truncate_machine [of s' s])

lemma plus3_internal_inv:
  assumes hk: "hooks_ok hk" and s: "paging_inv s"
  shows "paging_inv (specplus3_memoryport2_write_internal cb hk b s)"
    "last_byte (ram (specplus3_memoryport2_write_internal cb hk b s)) = last_byte (ram s)"
    "last_byte2 (ram (specplus3_memoryport2_write_internal cb hk b s)) = b"
    "machine (specplus3_memoryport2_write_internal cb hk b s) = machine s"
    "disks (specplus3_memoryport2_write_internal cb hk b s) = disks s"
    "mem (specplus3_memoryport2_write_internal cb hk b s) = mem s"
    "memory_map_ram (specplus3_memoryport2_write_internal cb hk b s) = memory_map_ram s"
    "memory_map_rom (specplus3_memoryport2_write_internal cb hk b s) = memory_map_rom s"
proof -
  define t where "t = (let s' = printer_parallel_strobe_write hk (b AND 0x10 \<noteq> 0) s
     in if capabilities s' \<noteq> 0 \<and> CAP_PLUS3_DISK cb \<noteq> 0 then specplus3_motors hk (b AND 0x08 \<noteq> 0) s' else s')"
  have tt: "machine_state.truncate t = machine_state.truncate s"
    using hk by (simp add: t_def Let_def hooks_ok_def)
  have e: "specplus3_memoryport2_write_internal cb hk b s = memory_map hk (set_ram (\<lambda>r. r\<lparr>last_byte2 := b\<rparr>) t)"
    by (simp add: specplus3_memoryport2_write_internal_def t_def Let_def)
  have t: "paging_inv t" using s truncate_inv [OF tt] by simp
  note m = store_and_map [OF hk, of t "beta_active (disks t)" "last_byte (ram t)" "last_byte2 (ram t)" "\<lambda>r. r\<lparr>last_byte2 := b\<rparr>"]
  show "paging_inv (specplus3_memoryport2_write_internal cb hk b s)"
    "last_byte (ram (specplus3_memoryport2_write_internal cb hk b s)) = last_byte (ram s)"
    "last_byte2 (ram (specplus3_memoryport2_write_internal cb hk b s)) = b"
    "machine (specplus3_memoryport2_write_internal cb hk b s) = machine s"
    "disks (specplus3_memoryport2_write_internal cb hk b s) = disks s"
    "mem (specplus3_memoryport2_write_internal cb hk b s) = mem s"
    "memory_map_ram (specplus3_memoryport2_write_internal cb hk b s) = memory_map_ram s"
    "memory_map_rom (specplus3_memoryport2_write_internal cb hk b s) = memory_map_rom s"
    using m t truncate_machine [OF tt] unfolding e by (simp_all add: paging_inv_def cong: if_cong)
qed

lemma v22_port_inv:
  assumes hk: "hooks_ok hk" and s: "paging_inv s"
  shows "paging_inv (pentagon1024_v22_memoryport_write hk b s)"
    "locked (ram (pentagon1024_v22_memoryport_write hk b s)) = locked (ram s)"
proof -
  define u where "u = (set_ram (\<lambda>r. r\<lparr>last_byte2 := b\<rparr>) s)\<lparr>display_functions :=
      (if b AND 0x01 \<noteq> 0 then Display_pentagon_16_col else Display_sinclair)\<rparr>"
  define t where "t = display_border_recheck hk u"
  have tt: "machine_state.truncate t = machine_state.truncate u" using hk by (simp add: t_def hooks_ok_def)
  have "bank_chunk (s\<lparr>display_functions := d\<rparr>) b k = bank_chunk s b k" for s :: "('a, 'b) machine_state_scheme" and d b k
    by (cases b) simp_all
  then have "shows_banks bs (s\<lparr>display_functions := d\<rparr>) = shows_banks bs s" for bs and s :: "('a, 'b) machine_state_scheme" and d
    by (simp add: shows_banks_def read_mapping_def write_mapping_def)
  then have u: "shows_banks bs u = shows_banks bs s" for bs by (simp add: u_def)
  have um: "machine u = machine s" "disks u = disks s" "ram u = (ram s)\<lparr>last_byte2 := b\<rparr>" by (simp_all add: u_def)
  have e: "pentagon1024_v22_memoryport_write hk b s = (if locked (ram s) then s else memory_map hk t)"
    by (simp add: pentagon1024_v22_memoryport_write_def t_def u_def)
  have "set_ram (\<lambda>r. r) t = t" by (simp add: set_ram_def)
  then show "paging_inv (pentagon1024_v22_memoryport_write hk b s)"
    "locked (ram (pentagon1024_v22_memoryport_write hk b s)) = locked (ram s)"
    using store_and_map [OF hk, of t "beta_active (disks s)" "last_byte (ram s)" "last_byte2 (ram s)" "\<lambda>r. r"]
      truncate_machine [OF tt] um u s unfolding e
    by (simp_all add: paging_inv_def)
qed

lemma paging_step_inv: "hooks_ok hk \<Longrightarrow> paging_inv s \<Longrightarrow> paging_inv (paging_step cb hk op s)"
  by (cases op) (auto simp: spec128_port_inv pentagon1024_port_inv v22_port_inv plus3_internal_inv specplus3_memoryport2_write_def)

lemma paging_locked: "locked (ram s) \<Longrightarrow> paging_step cb hk op s = s"
  by (cases op) (simp_all add: spec128_memoryport_write_def pentagon1024_memoryport_write_def
    specplus3_memoryport2_write_def pentagon1024_v22_memoryport_write_def)


lemma slot_cases: "unat (a :: u16) div 0x4000 \<in> {0, 1, 2, 3}"
  using unat_u16_bound [of a] less_mult_imp_div_less [of "unat a" 4 "0x4000"] by auto

lemma four_maps:
  assumes "length (memory_map_read s) = 32" "length (memory_map_write s) = 32"
    "t = memory_map_16k 0xc000 d n (memory_map_16k 0x8000 c l (memory_map_16k 0x4000 b k (memory_map_16k 0 a j s)))"
  shows "read_mapping x t = [a, b, c, d] ! (unat x div 0x4000) ! ([j, k, l, n] ! (unat x div 0x4000) * 8 + unat x div 2048 mod 8)"
    "write_mapping x t = [a, b, c, d] ! (unat x div 0x4000) ! ([j, k, l, n] ! (unat x div 0x4000) * 8 + unat x div 2048 mod 8)"
  using slot_cases [of x] assms(1,2) unfolding assms(3) by (auto simp: map_16k_reads)

lemma normal_map_establishes:
  assumes "length (memory_map_read s) = 32" "length (memory_map_write s) = 32"
  shows "shows_banks [Rom_bank m, Ram_bank 5, Ram_bank 2, Ram_bank n] (normal_memory_map m n s)"
proof -
  have e: "normal_memory_map m n s = memory_map_16k 0xc000 (memory_map_ram s) n (memory_map_16k 0x8000 (memory_map_ram s) 2
      (memory_map_16k 0x4000 (memory_map_ram s) 5 (memory_map_16k 0 (memory_map_rom s) m s)))"
    by (simp add: normal_memory_map_def Let_def)
  have c: "bank_chunk (normal_memory_map m n s) b i = bank_chunk s b i" for b i by (cases b) (simp_all add: e)
  have "read_mapping a (normal_memory_map m n s) = bank_chunk s ([Rom_bank m, Ram_bank 5, Ram_bank 2, Ram_bank n] ! (unat a div 0x4000)) (unat a div 2048 mod 8)"
     "write_mapping a (normal_memory_map m n s) = bank_chunk s ([Rom_bank m, Ram_bank 5, Ram_bank 2, Ram_bank n] ! (unat a div 0x4000)) (unat a div 2048 mod 8)" for a
    using slot_cases [of a] unfolding four_maps [OF assms e] by auto
  moreover have "length (memory_map_read (normal_memory_map m n s)) = 32" "length (memory_map_write (normal_memory_map m n s)) = 32"
    using assms by (simp_all add: e)
  ultimately show ?thesis unfolding shows_banks_def c by blast
qed

lemma normal_frame:
  "machine (normal_memory_map m n s) = machine s" "ram (normal_memory_map m n s) = ram s"
  by (simp_all add: normal_memory_map_def Let_def)

lemma contention_frame [simp]:
  "memory_map_read (memory_ram_set_16k_contention k c s) = memory_map_read s"
  "memory_map_write (memory_ram_set_16k_contention k c s) = memory_map_write s"
  "ram (memory_ram_set_16k_contention k c s) = ram s"
  "machine (memory_ram_set_16k_contention k c t) = machine t" "disks (memory_ram_set_16k_contention k c t) = disks t"
  "memory_current_screen (memory_ram_set_16k_contention k c s) = memory_current_screen s"
  by (simp_all add: memory_ram_set_16k_contention_def)

lemma contention_fold [simp]:
  "memory_map_read (fold (\<lambda>i. memory_ram_set_16k_contention i (f i)) is s) = memory_map_read s"
  "memory_map_write (fold (\<lambda>i. memory_ram_set_16k_contention i (f i)) is s) = memory_map_write s"
  "ram (fold (\<lambda>i. memory_ram_set_16k_contention i (f i)) is s) = ram s"
  "machine (fold (\<lambda>i. memory_ram_set_16k_contention i (f i)) is t) = machine t"
  "disks (fold (\<lambda>i. memory_ram_set_16k_contention i (f i)) is t) = disks t"
  by (induction "is" arbitrary: s t) simp_all

lemma reset_paging_inv:
  assumes hk: "hooks_ok hk" and s: "paged_machine (machine s)" "\<not> romcs (ram s)"
    "length (memory_map_read s) = 32" "length (memory_map_write s) = 32"
  shows "paging_inv (memory_map hk (machine_common_reset c s))"
proof -
  define t where "t = machine_common_reset c s"
  have r: "machine t = machine s \<and> \<not> romcs (ram t) \<and> last_byte (ram t) = 0 \<and> \<not> locked (ram t) \<and>
      shows_banks [Rom_bank 0, Ram_bank 5, Ram_bank 2, Ram_bank 0] t"
  proof (cases "plus3_type (machine s)")
    case True
    then show ?thesis
      using s unfolding t_def
      by (simp add: normal_map_establishes machine_common_reset_def specplus3_plus2a_common_reset_def Let_def normal_frame set_ram_def)
  next
    case False
    define s3 where "s3 = fold (\<lambda>i. memory_ram_set_16k_contention i (odd i \<and> c)) [0..<16]
      ((set_ram (\<lambda>r. r\<lparr>locked := False, last_byte := 0, current_page := 0, current_rom := 0\<rparr>) s)
         \<lparr>memory_current_screen := 5, memory_screen_mask := 0xffff\<rparr>)"
    have "t = normal_memory_map 0 0 s3"
      using False by (simp add: t_def machine_common_reset_def spec128_common_reset_def normal_memory_map_def Let_def s3_def)
    then show ?thesis
      using s normal_map_establishes [of s3] by (simp add: s3_def normal_frame set_ram_def)
  qed
  have "paging_spec (machine s) False 0 0 = [Rom_bank 0, Ram_bank 5, Ram_bank 2, Ram_bank 0]"
    using s(1) by (auto simp: paged_machine_def plus3_type_def paging_spec.simps bitn_def low_page_def)
  then have "shows_banks (paging_spec (machine t) False 0 0) t" "paged_machine (machine t)" using r s(1) by simp_all
  from memory_map_refines [OF hk this(2) _ this(1)] r this(2) show ?thesis
    unfolding t_def [symmetric] by (simp add: paging_inv_def keeps_paging_def)
qed

section \<open>Snapshots\<close>

lemma restore_pages:
  fixes s :: "('u, 'z) machine_state_scheme"
  assumes g_def: "g = (\<lambda>i s. case f i of None \<Rightarrow> s | Some bs \<Rightarrow> s\<lparr>mem := (mem s)(RAM i := fill_block bs (mem s (RAM i)))\<rparr>)"
  shows "\<exists>m. fold g [0..<n] s = s\<lparr>mem := m\<rparr> \<and>
     (\<forall>i k. m (RAM i) k = (case f i of None \<Rightarrow> mem s (RAM i) k
        | Some bs \<Rightarrow> if i < n then fill_block bs (mem s (RAM i)) k else mem s (RAM i) k))"
proof (induction n)
  case 0
  show ?case by (intro exI [of _ "mem s"]) (auto split: option.splits)
next
  case (Suc n)
  then obtain m where m: "fold g [0..<n] s = s\<lparr>mem := m\<rparr>"
    "\<And>i k. m (RAM i) k = (case f i of None \<Rightarrow> mem s (RAM i) k
        | Some bs \<Rightarrow> if i < n then fill_block bs (mem s (RAM i)) k else mem s (RAM i) k)" by blast
  show ?case
  proof (cases "f n")
    case None
    then have "fold g [0..<Suc n] s = s\<lparr>mem := m\<rparr>" using m(1) by (simp add: g_def)
    then show ?thesis using m(2) None by (intro exI [of _ m]) (auto simp: less_Suc_eq split: option.splits)
  next
    case (Some bs)
    have "m (RAM n) = mem s (RAM n)" using m(2) [of n] Some by (intro ext) simp
    moreover have "g n (s\<lparr>mem := m\<rparr>) = s\<lparr>mem := m(RAM n := fill_block bs (m (RAM n)))\<rparr>"
      using Some by (simp add: g_def)
    ultimately have "fold g [0..<Suc n] s = s\<lparr>mem := m(RAM n := fill_block bs (mem s (RAM n)))\<rparr>" using m(1) by simp
    moreover have "\<forall>i k. (m(RAM n := fill_block bs (mem s (RAM n)))) (RAM i) k = (case f i of None \<Rightarrow> mem s (RAM i) k
        | Some bs \<Rightarrow> if i < Suc n then fill_block bs (mem s (RAM i)) k else mem s (RAM i) k)"
      using m(2) Some by (auto simp: less_Suc_eq split: option.splits)
    ultimately show ?thesis by blast
  qed
qed

lemma shows_mem [simp]: "shows_banks bs (s\<lparr>mem := m\<rparr>) = shows_banks bs (s :: ('u, 'z) machine_state_scheme)"
proof -
  have "bank_chunk (s\<lparr>mem := m\<rparr>) b k = bank_chunk s b k" for b k by (cases b) simp_all
  then show ?thesis by (simp add: shows_banks_def read_mapping_def write_mapping_def)
qed

lemma inv_mem [simp]: "paging_inv (s\<lparr>mem := m\<rparr>) = paging_inv (s :: ('u, 'z) machine_state_scheme)"
  by (simp add: paging_inv_def)




section \<open>The horizontal MMU of the SCLD\<close>

lemma home_fold:
  fixes s :: "('u, 'z) machine_state_scheme"
  assumes "n \<le> 32" "length (timex_home s) = 32" "length (memory_map_read s) = 32" "length (memory_map_write s) = 32"
  shows "fold (\<lambda>i s'. memory_map_page (List.map (\<lambda>r. page_at r s') (timex_home s')) i s') [0..<n] s =
    s\<lparr>memory_map_read := List.map (\<lambda>r. page_at r s) (take n (timex_home s)) @ drop n (memory_map_read s),
      memory_map_write := List.map (\<lambda>r. page_at r s) (take n (timex_home s)) @ drop n (memory_map_write s)\<rparr>"
  using assms(1)
proof (induction n)
  case (Suc n)
  have p: "page_at r (s\<lparr>memory_map_read := x, memory_map_write := y\<rparr>) = page_at r s" for r x y by (cases r) simp_all
  have u: "(List.map (\<lambda>r. page_at r s) (take n (timex_home s)) @ drop n xs)[n := page_at (timex_home s ! n) s] =
     List.map (\<lambda>r. page_at r s) (take (Suc n) (timex_home s)) @ drop (Suc n) xs" if "length xs = 32" for xs
    using Suc.prems assms(2) that
    by (simp add: list_update_append take_Suc_conv_app_nth Cons_nth_drop_Suc [symmetric])
  show ?case using Suc u assms by (simp add: memory_map_page_def p)
qed simp

lemma scld_home:
  assumes "length (timex_home s) = 32" "length (memory_map_read s) = 32" "length (memory_map_write s) = 32"
  shows "scld_memory_map_home s =
    s\<lparr>memory_map_read := List.map (\<lambda>r. page_at r s) (timex_home s), memory_map_write := List.map (\<lambda>r. page_at r s) (timex_home s)\<rparr>"
  using home_fold [of 32 s] assms by (simp add: scld_memory_map_home_def)

lemma slot8: "i < 8 \<Longrightarrow> unat (drop_bit 11 (word_of_nat (i * 0x2000) :: u16)) = 4 * i"
  by (simp add: unat_slot unat_of_nat del: of_nat_mult)

lemma scld_fold:
  fixes s :: "('u, 'z) machine_state_scheme"
  assumes "n \<le> 8" "length (memory_map_read s) = 32" "length (memory_map_write s) = 32"
  shows "\<exists>rs ws. fold (\<lambda>i s'. if scld_last_hsr s' AND push_bit i 1 \<noteq> 0
        then memory_map_8k (word_of_nat (i * 0x2000)) (exrom_dock s) i s' else s') [0..<n] s =
      s\<lparr>memory_map_read := rs, memory_map_write := ws\<rparr> \<and> length rs = 32 \<and> length ws = 32 \<and>
    (\<forall>j<32. rs ! j = (if j div 4 < n \<and> bit (scld_last_hsr s) (j div 4) then exrom_dock s ! j else memory_map_read s ! j) \<and>
            ws ! j = (if j div 4 < n \<and> bit (scld_last_hsr s) (j div 4) then exrom_dock s ! j else memory_map_write s ! j))"
  using assms(1)
proof (induction n)
  case 0
  show ?case using assms by (intro exI [of _ "memory_map_read s"] exI [of _ "memory_map_write s"]) simp
next
  case (Suc n)
  then obtain rs ws where IH: "fold (\<lambda>i s'. if scld_last_hsr s' AND push_bit i 1 \<noteq> 0
        then memory_map_8k (word_of_nat (i * 0x2000)) (exrom_dock s) i s' else s') [0..<n] s =
      s\<lparr>memory_map_read := rs, memory_map_write := ws\<rparr>" "length rs = 32" "length ws = 32"
    "\<forall>j<32. rs ! j = (if j div 4 < n \<and> bit (scld_last_hsr s) (j div 4) then exrom_dock s ! j else memory_map_read s ! j) \<and>
            ws ! j = (if j div 4 < n \<and> bit (scld_last_hsr s) (j div 4) then exrom_dock s ! j else memory_map_write s ! j)"
    by auto
  have n: "n < 8" using Suc.prems by simp
  have sl: "unat (drop_bit 11 (word_of_nat (n * 0x2000) :: u16)) = 4 * n" by (rule slot8 [OF n])
  have le: "unat (drop_bit 11 (word_of_nat (n * 0x2000) :: u16)) + 4 \<le> 32" unfolding sl using n by simp
  have j: "j div 4 < Suc n \<longleftrightarrow> j div 4 < n \<or> 4 * n \<le> j \<and> j < 4 * n + 4"
     "4 * n \<le> j \<and> j < 4 * n + 4 \<Longrightarrow> j div 4 = n \<and> n * 4 + (j - 4 * n) = j" for j by (auto simp: div_nat_eqI)
  show ?case
  proof (cases "bit (scld_last_hsr s) n")
    case True
    let ?rs = "splice (4 * n) 4 (exrom_dock s) n rs" and ?ws = "splice (4 * n) 4 (exrom_dock s) n ws"
    have "fold (\<lambda>i s'. if scld_last_hsr s' AND push_bit i 1 \<noteq> 0
        then memory_map_8k (word_of_nat (i * 0x2000)) (exrom_dock s) i s' else s') [0..<Suc n] s =
      s\<lparr>memory_map_read := ?rs, memory_map_write := ?ws\<rparr>"
      using IH(1) True unfolding upt_Suc_append [OF le0] fold_append comp_def
      by (simp add: and_exp_eq_0_iff_not_bit n memory_map_8k_def r8k.map_law [OF le] sl del: of_nat_mult)
    moreover have "\<forall>j<32. ?rs ! j = (if j div 4 < Suc n \<and> bit (scld_last_hsr s) (j div 4) then exrom_dock s ! j else memory_map_read s ! j) \<and>
            ?ws ! j = (if j div 4 < Suc n \<and> bit (scld_last_hsr s) (j div 4) then exrom_dock s ! j else memory_map_write s ! j)"
      using IH(2-4) True j by (auto simp: not_less)
    ultimately show ?thesis using IH(2,3) by (intro exI [of _ ?rs] exI [of _ ?ws]) simp
  next
    case False
    have "fold (\<lambda>i s'. if scld_last_hsr s' AND push_bit i 1 \<noteq> 0
        then memory_map_8k (word_of_nat (i * 0x2000)) (exrom_dock s) i s' else s') [0..<Suc n] s =
      s\<lparr>memory_map_read := rs, memory_map_write := ws\<rparr>"
      using IH(1) False unfolding upt_Suc_append [OF le0] fold_append comp_def by (simp add: and_exp_eq_0_iff_not_bit)
    moreover have "\<forall>j<32. rs ! j = (if j div 4 < Suc n \<and> bit (scld_last_hsr s) (j div 4) then exrom_dock s ! j else memory_map_read s ! j) \<and>
            ws ! j = (if j div 4 < Suc n \<and> bit (scld_last_hsr s) (j div 4) then exrom_dock s ! j else memory_map_write s ! j)"
      using IH(4) False j by auto
    ultimately show ?thesis using IH(2,3) by (intro exI [of _ rs] exI [of _ ws]) simp
  qed
qed

lemma tc2068_map:
  fixes s :: "('u, 'z) machine_state_scheme"
  assumes "length (timex_home s) = 32" "length (memory_map_read s) = 32" "length (memory_map_write s) = 32" "\<not> romcs (ram s)"
  shows "read_mapping a (tc2068_memory_map hk s) =
      (if bit (scld_last_hsr s) (unat a div 0x2000) then exrom_dock s ! (unat a div 2048) else page_at (timex_home s ! (unat a div 2048)) s)"
    "write_mapping a (tc2068_memory_map hk s) =
      (if bit (scld_last_hsr s) (unat a div 0x2000) then exrom_dock s ! (unat a div 2048) else page_at (timex_home s ! (unat a div 2048)) s)"
proof -
  let ?h = "scld_memory_map_home s"
  have h: "length (memory_map_read ?h) = 32" "length (memory_map_write ?h) = 32" "scld_last_hsr ?h = scld_last_hsr s"
    "exrom_dock ?h = exrom_dock s" "ram ?h = ram s"
    using assms by (simp_all add: scld_home exrom_dock_def)
  obtain rs ws where r: "scld_memory_map ?h = ?h\<lparr>memory_map_read := rs, memory_map_write := ws\<rparr>"
    "\<forall>j<32. rs ! j = (if j div 4 < 8 \<and> bit (scld_last_hsr s) (j div 4) then exrom_dock s ! j else memory_map_read ?h ! j) \<and>
            ws ! j = (if j div 4 < 8 \<and> bit (scld_last_hsr s) (j div 4) then exrom_dock s ! j else memory_map_write ?h ! j)"
    using scld_fold [of 8 ?h] h unfolding scld_memory_map_def by auto
  have j: "unat a div 2048 < 32" using unat_u16_bound [of a] by (simp add: less_mult_imp_div_less)
  have d: "unat a div 2048 div 4 = unat a div 0x2000" "unat a div 0x2000 < 8"
    using unat_u16_bound [of a] by (simp_all add: div_mult2_eq [symmetric] less_mult_imp_div_less)
  have "tc2068_memory_map hk s = ?h\<lparr>memory_map_read := rs, memory_map_write := ws\<rparr>"
    using assms(4) h(5) by (simp add: tc2068_memory_map_def r(1) memory_romcs_map_def)
  then show "read_mapping a (tc2068_memory_map hk s) =
      (if bit (scld_last_hsr s) (unat a div 0x2000) then exrom_dock s ! (unat a div 2048) else page_at (timex_home s ! (unat a div 2048)) s)"
    "write_mapping a (tc2068_memory_map hk s) =
      (if bit (scld_last_hsr s) (unat a div 0x2000) then exrom_dock s ! (unat a div 2048) else page_at (timex_home s ! (unat a div 2048)) s)"
    using r(2) j d assms by (simp_all add: read_mapping_def write_mapping_def unat_slot scld_home)
qed

section \<open>The contract of the paging ports\<close>

locale paging_ports =
  fixes cb :: capability_bits and hk :: "('u, 'z) machine_state_scheme paging_hooks"
  assumes hooks: "hooks_ok hk"

sublocale paging_ports \<subseteq> step_machine "paging_step cb hk" paging_inv "\<lambda>op s. True"
  by unfold_locales (rule paging_step_inv [OF hooks])

context paging_ports
begin

lemma ports_inv: "paging_inv s \<Longrightarrow> paging_inv (fold (paging_step cb hk) ops s)"
proof -
  have "run_ok ops t" for t by (induction ops arbitrary: t) simp_all
  then show "paging_inv s \<Longrightarrow> paging_inv (fold (paging_step cb hk) ops s)" using run_inv by blast
qed

lemma locked_stays: "locked (ram s) \<Longrightarrow> fold (paging_step cb hk) ops s = s"
  by (induction ops) (simp_all add: paging_locked)

end

definition no_hooks :: "'s paging_hooks" where
  "no_hooks = \<lparr>redraw_screen = (\<lambda>s. s), module_romcs = (\<lambda>s. s), display_border_recheck = (\<lambda>s. s),
     printer_parallel_strobe_write = (\<lambda>_ s. s), specplus3_motors = (\<lambda>_ s. s), retriggered_interrupt = (\<lambda>s. s),
     set_hires_border = (\<lambda>_ s. s), fuse_abort = (\<lambda>s. s)\<rparr>"

lemma no_hooks_ok: "hooks_ok no_hooks"
  by (simp add: hooks_ok_def no_hooks_def)

definition demo_caps :: capability_bits where
  "demo_caps = \<lparr>CAP_128_MEMORY = 1, CAP_PLUS3_MEMORY = 2, CAP_PLUS3_DISK = 4, CAP_SCORP_MEMORY = 8, CAP_PENT1024_MEMORY = 16\<rparr>"

interpretation demo_ports: paging_ports demo_caps "no_hooks :: (unit, unit) machine_state_scheme paging_hooks"
  by unfold_locales (rule no_hooks_ok)

text \<open>A machine with blank memory, to apply the theorems to.\<close>

definition demo_machine :: "libspectrum_machine \<Rightarrow> u32 \<Rightarrow> unit machine_state" where
  "demo_machine m caps = memory_state.extend blank_memory (machine_state.fields m caps
     \<lparr>plusd_available = False, plusd_active = False, disciple_available = False, disciple_active = False,
      opus_available = False, beta_active = False\<rparr> Display_sinclair 0 0
     (List.map Ref_rom [0..<8] @ List.map (\<lambda>i. Ref_ram (40 + i)) [0..<8] @ List.map (\<lambda>i. Ref_ram (16 + i)) [0..<8] @ List.map Ref_ram [0..<8])
     (replicate 32 blank_page) (replicate 32 (blank_page\<lparr>page_num := 1\<rparr>)))"

lemma demo_machine_facts:
  "machine (demo_machine m caps) = m" "capabilities (demo_machine m caps) = caps"
  "length (memory_map_read (demo_machine m caps)) = 32" "length (memory_map_write (demo_machine m caps)) = 32"
  "\<not> romcs (ram (demo_machine m caps))" "\<not> locked (ram (demo_machine m caps))"
  "last_byte2 (ram (demo_machine m caps)) = 0" "length (timex_home (demo_machine m caps)) = 32"
  by (simp_all add: demo_machine_def memory_state.extend_def machine_state.fields_def blank_memory_def
      memory_init_def memory_source_register_def Let_def)

section \<open>The properties\<close>

text \<open>
  C1. Every machine with 128K paging implements its specification: after a reset and any writes to
  the paging ports, what the Z80 reads and writes at every address is the bank the specification
  gives for the bytes last accepted, the screen is that of bit 3, and the lock that of bit 5.
\<close>

theorem paging_refines_spec:
  assumes "hooks_ok hk" "paged_machine (machine s)" "\<not> romcs (ram s)"
    "length (memory_map_read s) = 32" "length (memory_map_write s) = 32"
  shows "paging_inv (fold (paging_step cb hk) ops (memory_map hk (machine_common_reset c s)))"
  using paging_ports.ports_inv [OF paging_ports.intro [OF assms(1)]] reset_paging_inv [OF assms] by blast

theorem paging_refines_spec_witness:
  "paging_inv (fold (paging_step demo_caps no_hooks) [Port_7ffd 0x17, Port_1ffd 0x05, Port_7ffd 0x20, Port_1ffd 0x00]
     (memory_map no_hooks (machine_common_reset True (demo_machine MACHINE_PLUS3 7))))"
  by (rule paging_refines_spec [OF no_hooks_ok]) (simp_all add: demo_machine_facts paged_machine_def plus3_type_def)





lemma demo_inv: "paged_machine m \<Longrightarrow> paging_inv (memory_map no_hooks (machine_common_reset True (demo_machine m caps)))"
  by (rule reset_paging_inv [OF no_hooks_ok]) (simp_all add: demo_machine_facts)



definition empty_snap :: memory_snap where
  "empty_snap = \<lparr>snap_out_128_memoryport = 0, snap_out_plus3_memoryport = 0, snap_pages = (\<lambda>_. None),
     snap_custom_rom = False, snap_custom_rom_pages = 0, snap_roms = (\<lambda>_. None)\<rparr>"




text \<open>
  C6. On a Pentagon 1024 the lock does not survive a snapshot: whatever the snapshot holds, the
  machine comes back unlocked, because port 0x7ffd is replayed while the extended paging bit that
  makes its lock bit count is still clear.
\<close>

theorem pentagon1024_snapshot_loses_lock:
  assumes "hooks_ok hk" "paging_inv s2" "machine s2 = MACHINE_PENT1024" "\<not> locked (ram s2)" "\<not> bit (last_byte2 (ram s2)) 2"
    "capabilities s2 AND CAP_PENT1024_MEMORY cb \<noteq> 0" "\<not> snap_custom_rom sn"
  shows "\<not> locked (ram (memory_from_snapshot cb hk lr sn s2))"
proof -
  define t1 where "t1 = pentagon1024_memoryport_write hk (snap_out_128_memoryport sn) s2"
  note m = store_and_map [OF assms(1), of s2 "beta_active (disks s2)" "last_byte (ram s2)" "last_byte2 (ram s2)"
      "\<lambda>r. r\<lparr>last_byte := snap_out_128_memoryport sn\<rparr>"]
  have t1: "paging_inv t1" "\<not> locked (ram t1)"
    using pentagon1024_port_inv [OF assms(1-3), of "snap_out_128_memoryport sn"] m assms(2-5)
    by (simp_all add: t1_def pentagon1024_memoryport_write_def paging_inv_def Let_def tested_bits)
  define t where "t = pentagon1024_v22_memoryport_write hk (snap_out_plus3_memoryport sn) t1"
  have t: "\<not> locked (ram t)" using v22_port_inv(2) [OF assms(1) t1(1)] t1(2) by (simp add: t_def)
  obtain m where "fold (\<lambda>i s. case snap_pages sn i of None \<Rightarrow> s
      | Some bs \<Rightarrow> s\<lparr>mem := (mem s)(RAM i := fill_block bs (mem s (RAM i)))\<rparr>) [0..<64] t = t\<lparr>mem := m\<rparr>"
    using restore_pages [OF refl, where f = "snap_pages sn" and n = 64 and s = t] by blast
  then have "memory_from_snapshot cb hk lr sn s2 = t\<lparr>mem := m\<rparr>"
    using assms(6,7) by (simp add: memory_from_snapshot_def Let_def t_def t1_def)
  then show ?thesis using t by simp
qed

lemma demo_1024_facts:
  "machine (memory_map no_hooks (machine_common_reset True (demo_machine MACHINE_PENT1024 16))) = MACHINE_PENT1024"
  "capabilities (memory_map no_hooks (machine_common_reset True (demo_machine MACHINE_PENT1024 16))) = 16"
  "\<not> locked (ram (memory_map no_hooks (machine_common_reset True (demo_machine MACHINE_PENT1024 16))))"
  "last_byte2 (ram (memory_map no_hooks (machine_common_reset True (demo_machine MACHINE_PENT1024 16)))) = 0"
proof -
  have c: "capabilities (fold (\<lambda>i. memory_ram_set_16k_contention i (f i)) is t) = capabilities t" for f "is"
    and t :: "('a, 'b) machine_state_scheme"
    by (induction "is" arbitrary: t) (simp_all add: memory_ram_set_16k_contention_def)
  have k: "capabilities (memory_map_16k address src k t) = capabilities t"
    if "unat address mod 0x4000 = 0" for address src k and t :: "('a, 'b) machine_state_scheme"
    using aligned_slot(3) [OF that] by (simp add: memory_map_16k_def r16k.map_law)
  show "machine (memory_map no_hooks (machine_common_reset True (demo_machine MACHINE_PENT1024 16))) = MACHINE_PENT1024"
    "capabilities (memory_map no_hooks (machine_common_reset True (demo_machine MACHINE_PENT1024 16))) = 16"
    "\<not> locked (ram (memory_map no_hooks (machine_common_reset True (demo_machine MACHINE_PENT1024 16))))"
    "last_byte2 (ram (memory_map no_hooks (machine_common_reset True (demo_machine MACHINE_PENT1024 16)))) = 0"
    by (simp_all add: memory_map_def machine_common_reset_def plus3_type_def demo_machine_facts spec128_common_reset_def Let_def
        pentagon1024_memory_map_def memory_romcs_map_def update_screen_def no_hooks_def set_ram_def spec128_select_rom_def
        spec128_select_page_def c k)
qed

theorem pentagon1024_snapshot_loses_lock_witness:
  "\<not> locked (ram (memory_from_snapshot demo_caps no_hooks (\<lambda>_ _ s. s)
     (empty_snap\<lparr>snap_out_128_memoryport := 0x20, snap_out_plus3_memoryport := 0x04\<rparr>)
     (memory_map no_hooks (machine_common_reset True (demo_machine MACHINE_PENT1024 16)))))"
  by (rule pentagon1024_snapshot_loses_lock [OF no_hooks_ok])
    (simp_all add: demo_inv paged_machine_def demo_1024_facts demo_caps_def empty_snap_def)

text \<open>
  The SCLD's map: each 8K chunk whose bit is set in the horizontal select register comes from
  the exrom or the dock, as bit 7 of the DEC register says, and every other one from the home bank.
\<close>

lemma scld_map_effect:
  fixes s :: "('u, 'z) machine_state_scheme"
  assumes "length (timex_home s) = 32" "length (memory_map_read s) = 32" "length (memory_map_write s) = 32" "\<not> romcs (ram s)"
  shows "read_mapping a (tc2068_memory_map hk s) =
      (if bit (scld_last_hsr s) (unat a div 0x2000)
       then (if bit (scld_last_dec s) 7 then timex_exrom s else timex_dock s) ! (unat a div 2048)
       else page_at (timex_home s ! (unat a div 2048)) s) \<and>
    write_mapping a (tc2068_memory_map hk s) = read_mapping a (tc2068_memory_map hk s)"
  using tc2068_map [OF assms, of a hk] by (simp add: exrom_dock_def altmembank_def)

lemma scld_map_effect_witness:
  "read_mapping 0x2000 (tc2068_memory_map no_hooks ((demo_machine MACHINE_TC2068 0)\<lparr>scld_last_hsr := 2\<rparr>)) = blank_page\<lparr>page_num := 1\<rparr>"
  using scld_map_effect [of "(demo_machine MACHINE_TC2068 0)\<lparr>scld_last_hsr := 2\<rparr>" "0x2000" no_hooks]
  by (simp add: demo_machine_facts) (simp add: demo_machine_def memory_state.extend_def machine_state.fields_def bit_simps)

end
