(* ===== verification/Z80_Core.thy ===== *)
theory Z80_Core
  imports Z80_Alu Machine_Paging
begin

text \<open>
  The Z80 in the machine, \<open>z80/z80.c\<close>: reset, maskable and non-maskable interrupts, the
  processor part of snapshots, and the macros of \<open>z80/z80_macros.h\<close> that use the stack and the
  program counter. They run on the memory of the machine, so that pushes and pops go through
  the paging tables and take the time of the accesses.
\<close>

section \<open>State\<close>

record 'u z80_state = "'u machine_state" +
  z80 :: processor
  rzx_playback :: bool
  rzx_instruction_count :: int
  rzx_instructions_offset :: int
  z80_is_cmos :: bool
  interrupt_length :: u16
  beta_available :: bool

text \<open>What the interrupt code calls in other components.\<close>

record 's z80_hooks =
  expansion_bus_nmi_suppressed :: "'s \<Rightarrow> bool"
  expansion_bus_nmi_page :: "'s \<Rightarrow> 's"
  expansion_bus_retn :: "'s \<Rightarrow> 's"
  writeport_internal :: "u16 \<Rightarrow> u8 \<Rightarrow> 's \<Rightarrow> 's"
  beta_page :: "'s \<Rightarrow> 's"

definition set_z80 :: "(processor \<Rightarrow> processor) \<Rightarrow> ('u, 'z) z80_state_scheme \<Rightarrow> ('u, 'z) z80_state_scheme" where
  "set_z80 f s = s\<lparr>z80 := f (z80 s)\<rparr>"

definition tick :: "u32 \<Rightarrow> ('u, 'z) event_state_scheme \<Rightarrow> ('u, 'z) event_state_scheme" where
  "tick n s = s\<lparr>tstates := tstates s + n\<rparr>"

section \<open>The stack and jump macros\<close>

definition contend_read_no_mreq :: "u16 \<Rightarrow> u32 \<Rightarrow> ('u, 'z) memory_state_scheme \<Rightarrow> ('u, 'z) memory_state_scheme" where
  "contend_read_no_mreq address time s =
    (let t = (if contended (read_mapping address s) then tstates s + ucast (ula_contention_no_mreq s (tstates s)) else tstates s)
     in s\<lparr>tstates := t + time\<rparr>)"

text \<open>\<open>writebyte( --SP, b )\<close> and \<open>readbyte( SP++ )\<close>.\<close>

definition push_byte ::
  "('u, 'z) z80_state_scheme bus_devices \<Rightarrow> u8 \<Rightarrow> ('u, 'z) z80_state_scheme \<Rightarrow> ('u, 'z) z80_state_scheme" where
  "push_byte dev b s =
    (let s1 = set_z80 (\<lambda>p. p\<lparr>SP := SP p - 1\<rparr>) s in writebyte dev (SP (z80 s1)) b s1)"

definition pop_byte ::
  "('u, 'z) z80_state_scheme bus_devices \<Rightarrow> ('u, 'z) z80_state_scheme \<Rightarrow> u8 \<times> ('u, 'z) z80_state_scheme" where
  "pop_byte dev s = (let a = SP (z80 s) in readbyte dev a (set_z80 (\<lambda>p. p\<lparr>SP := SP p + 1\<rparr>) s))"

definition PUSH16 ::
  "('u, 'z) z80_state_scheme bus_devices \<Rightarrow> u16 \<Rightarrow> ('u, 'z) z80_state_scheme \<Rightarrow> ('u, 'z) z80_state_scheme" where
  "PUSH16 dev w s = push_byte dev (lo w) (push_byte dev (hi w) s)"

definition POP16 ::
  "('u, 'z) z80_state_scheme bus_devices \<Rightarrow> ('u, 'z) z80_state_scheme \<Rightarrow> u16 \<times> ('u, 'z) z80_state_scheme" where
  "POP16 dev s = (let (l, s1) = pop_byte dev s; (h, s2) = pop_byte dev s1 in (mkw h l, s2))"

definition CALL ::
  "('u, 'z) z80_state_scheme bus_devices \<Rightarrow> ('u, 'z) z80_state_scheme \<Rightarrow> ('u, 'z) z80_state_scheme" where
  "CALL dev s =
    (let s1 = contend_read_no_mreq (PC (z80 s)) 1 s;
         s2 = set_z80 (\<lambda>p. p\<lparr>PC := PC p + 1\<rparr>) s1;
         s3 = PUSH16 dev (PC (z80 s2)) s2
     in set_z80 (\<lambda>p. p\<lparr>PC := memptr p\<rparr>) s3)"

definition RET ::
  "('u, 'z) z80_state_scheme bus_devices \<Rightarrow> ('u, 'z) z80_state_scheme \<Rightarrow> ('u, 'z) z80_state_scheme" where
  "RET dev s = (let (w, s1) = POP16 dev s in set_z80 (\<lambda>p. p\<lparr>PC := w, memptr := w\<rparr>) s1)"

definition RST ::
  "('u, 'z) z80_state_scheme bus_devices \<Rightarrow> u16 \<Rightarrow> ('u, 'z) z80_state_scheme \<Rightarrow> ('u, 'z) z80_state_scheme" where
  "RST dev v s = (let s1 = PUSH16 dev (PC (z80 s)) s in set_z80 (\<lambda>p. p\<lparr>PC := v, memptr := v\<rparr>) s1)"

definition JP :: "('u, 'z) z80_state_scheme \<Rightarrow> ('u, 'z) z80_state_scheme" where
  "JP = set_z80 (\<lambda>p. p\<lparr>PC := memptr p\<rparr>)"

definition JR ::
  "('u, 'z) z80_state_scheme bus_devices \<Rightarrow> ('u, 'z) z80_state_scheme \<Rightarrow> ('u, 'z) z80_state_scheme" where
  "JR dev s =
    (let (jrtemp, s1) = readbyte dev (PC (z80 s)) s;
         s2 = ((\<lambda>s. contend_read_no_mreq (PC (z80 s)) 1 s) ^^ 5) s1
     in set_z80 (\<lambda>p. p\<lparr>PC := PC p + scast jrtemp + 1, memptr := PC p + scast jrtemp + 1\<rparr>) s2)"

text \<open>\<open>ldtemp=readbyte(PC++); ldtemp|=readbyte(PC++) << 8\<close>.\<close>

definition fetch_word ::
  "('u, 'z) z80_state_scheme bus_devices \<Rightarrow> ('u, 'z) z80_state_scheme \<Rightarrow> u16 \<times> ('u, 'z) z80_state_scheme" where
  "fetch_word dev s =
    (let (l, s1) = readbyte dev (PC (z80 s)) (set_z80 (\<lambda>p. p\<lparr>PC := PC p + 1\<rparr>) s);
         (h, s2) = readbyte dev (PC (z80 s1)) (set_z80 (\<lambda>p. p\<lparr>PC := PC p + 1\<rparr>) s1)
     in (mkw h l, s2))"

definition LD16_NNRR ::
  "('u, 'z) z80_state_scheme bus_devices \<Rightarrow> u8 \<Rightarrow> u8 \<Rightarrow> ('u, 'z) z80_state_scheme \<Rightarrow> ('u, 'z) z80_state_scheme" where
  "LD16_NNRR dev regl regh s =
    (let (ldtemp, s1) = fetch_word dev s;
         s2 = set_z80 (\<lambda>p. p\<lparr>memptr := ldtemp + 1\<rparr>) (writebyte dev ldtemp regl s1)
     in writebyte dev (ldtemp + 1) regh s2)"

text \<open>The pair of registers loaded, and the state.\<close>

definition LD16_RRNN ::
  "('u, 'z) z80_state_scheme bus_devices \<Rightarrow> ('u, 'z) z80_state_scheme \<Rightarrow> u16 \<times> ('u, 'z) z80_state_scheme" where
  "LD16_RRNN dev s =
    (let (ldtemp, s1) = fetch_word dev s;
         (regl, s2) = readbyte dev ldtemp s1;
         (regh, s3) = readbyte dev (ldtemp + 1) (set_z80 (\<lambda>p. p\<lparr>memptr := ldtemp + 1\<rparr>) s2)
     in (mkw regh regl, s3))"

section \<open>Reset and interrupts\<close>

definition z80_reset :: "bool \<Rightarrow> ('u, 'z) z80_state_scheme \<Rightarrow> ('u, 'z) z80_state_scheme" where
  "z80_reset hard_reset s =
    set_z80 (\<lambda>p.
      let p1 = p\<lparr>CLOCKL := 0, CLOCKH := 0, AF := 0xffff, AF2 := 0xffff, regI := 0, regR := 0, regR7 := 0,
                 PC := 0, SP := 0xffff, IFF1 := 0, IFF2 := 0, IM := 0, halted := False, iff2_read := False, Q := 0\<rparr>;
          p2 = (if hard_reset
                then p1\<lparr>BC := 0, DE := 0, HL := 0, BC2 := 0, DE2 := 0, HL2 := 0, IX := 0, IY := 0, memptr := 0\<rparr> else p1)
      in p2\<lparr>interrupts_enabled_at := -1\<rparr>) s"

text \<open>The conditions under which an interrupt is looked at, and under which EI puts it off.\<close>

definition interrupt_pending :: "('u, 'z) z80_state_scheme \<Rightarrow> bool" where
  "interrupt_pending s \<longleftrightarrow> IFF1 (z80 s) \<noteq> 0 \<and> tstates s < ucast (interrupt_length s) \<and> \<not> intdisable (scld_last_dec s)"

definition just_enabled :: "('u, 'z) z80_state_scheme \<Rightarrow> bool" where
  "just_enabled s \<longleftrightarrow> tstates s = interrupts_enabled_at (z80 s) \<and> (\<not> rzx_playback s \<or> rzx_instruction_count s \<le> 4)"

text \<open>The switch over the interrupt mode; \<open>None\<close> is \<open>fuse_abort\<close>, on a mode that does not exist.\<close>

definition interrupt_mode ::
  "('u, 'z) z80_state_scheme bus_devices \<Rightarrow> ('u, 'z) z80_state_scheme \<Rightarrow> (bool \<times> ('u, 'z) z80_state_scheme) option" where
  "interrupt_mode dev s =
    (if IM (z80 s) = 0 \<or> IM (z80 s) = 1 then
       Some (True, set_z80 (\<lambda>p. p\<lparr>PC := 0x0038, memptr := 0x0038, Q := 0\<rparr>) s)
     else if IM (z80 s) = 2 then
       (let inttemp = 0x100 * ucast (regI (z80 s)) + 0xff;
            (l, s1) = readbyte dev inttemp s;
            (h, s2) = readbyte dev (inttemp + 1) s1
        in Some (True, set_z80 (\<lambda>p. p\<lparr>PC := mkw h l, memptr := mkw h l, Q := 0\<rparr>) s2))
     else None)"

definition interrupt_accept ::
  "('u, 'z) z80_state_scheme bus_devices \<Rightarrow> ('u, 'z) z80_state_scheme \<Rightarrow> (bool \<times> ('u, 'z) z80_state_scheme) option" where
  "interrupt_accept dev s =
    (let s1 = (if halted (z80 s) then set_z80 (\<lambda>p. p\<lparr>PC := PC p + 1, halted := False\<rparr>) s else s);
         s2 = (set_z80 (\<lambda>p. p\<lparr>IFF1 := 0, IFF2 := 0, regR := regR p + 1\<rparr>) s1)
                \<lparr>rzx_instructions_offset := rzx_instructions_offset s1 - 1\<rparr>
     in interrupt_mode dev (PUSH16 dev (PC (z80 s2)) (tick 7 s2)))"

definition z80_interrupt ::
  "(('u event \<Rightarrow> 'u event \<Rightarrow> int) \<Rightarrow> 'u event \<Rightarrow> 'u event list \<Rightarrow> 'u event list) \<Rightarrow> int \<Rightarrow> 'u \<Rightarrow>
   ('u, 'z) z80_state_scheme bus_devices \<Rightarrow> ('u, 'z) z80_state_scheme \<Rightarrow> (bool \<times> ('u, 'z) z80_state_scheme) option" where
  "z80_interrupt ins ei_delayed_event null dev s =
    (if interrupt_pending s then
       (let s1 = (if iff2_read (z80 s) \<and> \<not> z80_is_cmos s
                  then set_z80 (\<lambda>p. set_F (F p AND NOT FLAG_P) p) s else s)
        in if just_enabled s1
           then Some (False, event_add_with_data ins (tstates s1 + 1) ei_delayed_event null s1)
           else interrupt_accept dev s1)
     else Some (False, s))"

definition z80_nmi ::
  "capability_bits \<Rightarrow> ('u, 'z) z80_state_scheme bus_devices \<Rightarrow> ('u, 'z) z80_state_scheme z80_hooks \<Rightarrow>
   ('u, 'z) z80_state_scheme \<Rightarrow> ('u, 'z) z80_state_scheme" where
  "z80_nmi cb dev hk s =
    (if expansion_bus_nmi_suppressed hk s then s
     else
       (let s1 = (if halted (z80 s) then set_z80 (\<lambda>p. p\<lparr>PC := PC p + 1, halted := False\<rparr>) s else s);
            s2 = set_z80 (\<lambda>p. p\<lparr>IFF1 := 0, regR := regR p + 1\<rparr>) s1;
            s3 = PUSH16 dev (PC (z80 s2)) (tick 5 s2);
            s4 = (if capabilities s3 AND CAP_SCORP_MEMORY cb \<noteq> 0
                  then writeport_internal hk 0x1ffd (last_byte2 (ram s3) OR 0x02) s3
                  else if beta_available s3 then beta_page hk s3 else expansion_bus_nmi_page hk s3)
        in set_z80 (\<lambda>p. p\<lparr>Q := 0, PC := 0x0066\<rparr>) s4))"

definition z80_retn :: "('u, 'z) z80_state_scheme z80_hooks \<Rightarrow> ('u, 'z) z80_state_scheme \<Rightarrow> ('u, 'z) z80_state_scheme" where
  "z80_retn hk s = expansion_bus_retn hk s"

section \<open>Snapshots\<close>

record z80_snap =
  snap_a :: u8 
  snap_f :: u8 
  snap_a2 :: u8 
  snap_f2 :: u8
  snap_bc :: u16 
  snap_de :: u16 
  snap_hl :: u16 
  snap_bc2 :: u16 
  snap_de2 :: u16 
  snap_hl2 :: u16
  snap_ix :: u16 
  snap_iy :: u16 
  snap_i :: u8 
  snap_r :: u8 
  snap_sp :: u16 
  snap_pc :: u16
  snap_memptr :: u16 
  snap_iff1 :: u8 
  snap_iff2 :: u8 
  snap_im :: u8
  snap_halted :: bool 
  snap_last_instruction_ei :: bool 
  snap_last_instruction_set_f :: bool

definition z80_from_snapshot :: "z80_snap \<Rightarrow> ('u, 'z) z80_state_scheme \<Rightarrow> ('u, 'z) z80_state_scheme" where
  "z80_from_snapshot sn s =
    set_z80 (\<lambda>p. p\<lparr>AF := mkw (snap_a sn) (snap_f sn), AF2 := mkw (snap_a2 sn) (snap_f2 sn),
      BC := snap_bc sn, DE := snap_de sn, HL := snap_hl sn, BC2 := snap_bc2 sn, DE2 := snap_de2 sn, HL2 := snap_hl2 sn,
      IX := snap_ix sn, IY := snap_iy sn, regI := snap_i sn, regR := ucast (snap_r sn), regR7 := snap_r sn,
      SP := snap_sp sn, PC := snap_pc sn, IFF1 := snap_iff1 sn, IFF2 := snap_iff2 sn, IM := snap_im sn,
      memptr := snap_memptr sn, halted := snap_halted sn,
      interrupts_enabled_at := (if snap_last_instruction_ei sn then tstates s else -1),
      Q := (if snap_last_instruction_set_f sn then snap_f sn else 0)\<rparr>) s"

definition z80_to_snapshot :: "('u, 'z) z80_state_scheme \<Rightarrow> z80_snap" where
  "z80_to_snapshot s =
    (let p = z80 s; r_register = (regR7 p AND 0x80) OR (ucast (regR p) AND 0x7f)
     in \<lparr>snap_a = A p, snap_f = F p, snap_a2 = hi (AF2 p), snap_f2 = lo (AF2 p),
         snap_bc = BC p, snap_de = DE p, snap_hl = HL p, snap_bc2 = BC2 p, snap_de2 = DE2 p, snap_hl2 = HL2 p,
         snap_ix = IX p, snap_iy = IY p, snap_i = regI p, snap_r = r_register, snap_sp = SP p, snap_pc = PC p,
         snap_memptr = memptr p, snap_iff1 = IFF1 p, snap_iff2 = IFF2 p, snap_im = IM p, snap_halted = halted p,
         snap_last_instruction_ei = (interrupts_enabled_at p = tstates s), snap_last_instruction_set_f = (Q p \<noteq> 0)\<rparr>)"

section \<open>What a machine with a plain bus does\<close>


text \<open>Marking the display dirty leaves the whole machine alone.\<close>

definition dirty_hook_ok :: "('u, 'z) z80_state_scheme bus_devices \<Rightarrow> bool" where
  "dirty_hook_ok dev \<longleftrightarrow>
    (\<forall>a b s. z80_state.truncate (memory_display_dirty dev a b s) = z80_state.truncate s)"

text \<open>What a write does to a machine with a plain bus: the byte and the time.\<close>

definition poke :: "u16 \<Rightarrow> u8 \<Rightarrow> ('u, 'z) z80_state_scheme \<Rightarrow> ('u, 'z) z80_state_scheme" where
  "poke a b s = (let t = access_time (write_mapping a s) s
     in if writes_through a s then t\<lparr>mem := store_at (page (write_mapping a s)) (page_offset a) b (mem s)\<rparr> else t)"

lemma writebyte_z80:
  assumes "plain_bus s" "dirty_hook_ok dev"
  shows "z80_state.truncate (writebyte dev a b s) = z80_state.truncate (poke a b s)"
proof -
  define t where "t = access_time (write_mapping a s) s"
  have t: "mem t = mem s" "write_mapping a t = write_mapping a s" "writes_through a t = writes_through a s"
    using assms(1) by (simp_all add: t_def writes_through_def)
  have h: "z80_state.truncate (memory_display_dirty dev a b t) = z80_state.truncate t"
    using assms(2) by (simp add: dirty_hook_ok_def)
  have hm: "mem (memory_display_dirty dev a b t) = mem t"
    using arg_cong [OF h, of mem] by (simp add: z80_state.truncate_def)
  have tr: "z80_state.truncate (x\<lparr>mem := m\<rparr>) = (z80_state.truncate x)\<lparr>mem := m\<rparr>" for x :: "('a, 'b) z80_state_scheme" and m
    by (simp add: z80_state.truncate_def)
  have w: "writebyte dev a b s = (if writes_through a s
      then (memory_display_dirty dev a b t)\<lparr>mem := store_at (page (write_mapping a s)) (page_offset a) b (mem s)\<rparr> else t)"
    using assms(1) t hm
    by (simp add: writebyte_def writebyte_internal_def writebyte_overlay_def writebyte_memory_def plain_bus_def
        writes_through_def Let_def t_def)
  show ?thesis using h by (simp add: w poke_def Let_def tr t_def [symmetric])
qed

text \<open>Reads of a machine see no more than its truncation.\<close>

lemma truncate_z80:
  assumes "z80_state.truncate s' = z80_state.truncate s"
  shows "z80 s' = z80 s" "plain_bus s' = plain_bus s" "read_mapping a s' = read_mapping a s" "write_mapping a s' = write_mapping a s"
    "mem s' = mem s" "tstates s' = tstates s" "writes_through a s' = writes_through a s"
    "ula_contention s' = ula_contention s" "ula_contention_no_mreq s' = ula_contention_no_mreq s"
    "readbyte_internal a s' = readbyte_internal a s"
  using arg_cong [OF assms, of z80] arg_cong [OF assms, of plain_bus] arg_cong [OF assms, of "read_mapping a"]
    arg_cong [OF assms, of "write_mapping a"] arg_cong [OF assms, of mem] arg_cong [OF assms, of tstates]
    arg_cong [OF assms, of "writes_through a"] arg_cong [OF assms, of ula_contention]
    arg_cong [OF assms, of ula_contention_no_mreq] arg_cong [OF assms, of "readbyte_internal a"]
  by (simp_all add: z80_state.truncate_def plain_bus_def read_mapping_def write_mapping_def writes_through_def readbyte_internal_def)

lemma truncate_set_z80: "z80_state.truncate (set_z80 f s) = (z80_state.truncate s)\<lparr>z80 := f (z80 s)\<rparr>"
  by (simp add: z80_state.truncate_def set_z80_def)

lemma set_z80_frame [simp]:
  "plain_bus (set_z80 f s) = plain_bus s" "read_mapping a (set_z80 f s) = read_mapping a s"
  "write_mapping a (set_z80 f s) = write_mapping a s" "mem (set_z80 f s) = mem s" "tstates (set_z80 f s) = tstates s"
  "writes_through a (set_z80 f s) = writes_through a s" "z80 (set_z80 f s) = f (z80 s)"
  "readbyte_internal a (set_z80 f s) = readbyte_internal a s"
  by (simp_all add: set_z80_def plain_bus_def read_mapping_def write_mapping_def writes_through_def readbyte_internal_def)

lemma poke_frame [simp]:
  "plain_bus (poke a b s) = plain_bus s" "read_mapping x (poke a b s) = read_mapping x s"
  "write_mapping x (poke a b s) = write_mapping x s" "z80 (poke a b s) = z80 s" "writes_through x (poke a b s) = writes_through x s"
  by (simp_all add: poke_def plain_bus_def read_mapping_def write_mapping_def writes_through_def access_time_def Let_def)

lemma poke_read:
  "readbyte_internal x (poke a b s) =
    (if writes_through a s \<and> phys (write_mapping a s) a \<noteq> None \<and> phys (read_mapping x s) x = phys (write_mapping a s) a
     then b else readbyte_internal x s)"
proof -
  have m: "mem (poke a b s) = (if writes_through a s then store_at (page (write_mapping a s)) (page_offset a) b (mem s) else mem s)"
    by (simp add: poke_def Let_def)
  show ?thesis
    unfolding readbyte_internal_def m poke_frame deref_phys store_phys
    by (auto split: option.splits)
qed

text \<open>RAM at an address: it reads what it writes.\<close>

definition ram_at :: "u16 \<Rightarrow> ('u, 'z) memory_state_scheme \<Rightarrow> bool" where
  "ram_at a s \<longleftrightarrow> writes_through a s \<and> phys (write_mapping a s) a \<noteq> None \<and> phys (read_mapping a s) a = phys (write_mapping a s) a"

lemma push_byte_facts:
  assumes "plain_bus s" "dirty_hook_ok dev"
  shows "z80 (push_byte dev b s) = (z80 s)\<lparr>SP := SP (z80 s) - 1\<rparr>" "plain_bus (push_byte dev b s)"
    "read_mapping x (push_byte dev b s) = read_mapping x s" "write_mapping x (push_byte dev b s) = write_mapping x s"
    "writes_through x (push_byte dev b s) = writes_through x s"
    "ram_at (SP (z80 s) - 1) s \<Longrightarrow> readbyte_internal x (push_byte dev b s) =
       (if phys (read_mapping x s) x = phys (read_mapping (SP (z80 s) - 1) s) (SP (z80 s) - 1) then b else readbyte_internal x s)"
proof -
  define t where "t = set_z80 (\<lambda>p. p\<lparr>SP := SP p - 1\<rparr>) s"
  have t: "plain_bus t" using assms(1) by (simp add: t_def)
  have e: "push_byte dev b s = writebyte dev (SP (z80 s) - 1) b t" by (simp add: push_byte_def t_def)
  note w = truncate_z80 [OF writebyte_z80 [OF t assms(2), of "SP (z80 s) - 1" b]]
  show "z80 (push_byte dev b s) = (z80 s)\<lparr>SP := SP (z80 s) - 1\<rparr>" "plain_bus (push_byte dev b s)"
    "read_mapping x (push_byte dev b s) = read_mapping x s" "write_mapping x (push_byte dev b s) = write_mapping x s"
    "writes_through x (push_byte dev b s) = writes_through x s"
    using assms(1) unfolding e w by (simp_all add: t_def)
  show "readbyte_internal x (push_byte dev b s) =
       (if phys (read_mapping x s) x = phys (read_mapping (SP (z80 s) - 1) s) (SP (z80 s) - 1) then b else readbyte_internal x s)"
    if "ram_at (SP (z80 s) - 1) s"
    using that unfolding e w poke_read by (auto simp: t_def ram_at_def)
qed

lemma access_time_z80 [simp]:
  "z80 (access_time p s) = z80 s" "plain_bus (access_time p t) = plain_bus t"
  by (simp_all add: access_time_def Let_def plain_bus_def)

lemma pop_byte_facts:
  assumes "plain_bus s"
  shows "fst (pop_byte dev s) = readbyte_internal (SP (z80 s)) s"
    "z80 (snd (pop_byte dev s)) = (z80 s)\<lparr>SP := SP (z80 s) + 1\<rparr>" "plain_bus (snd (pop_byte dev s))"
    "readbyte_internal x (snd (pop_byte dev s)) = readbyte_internal x s"
  using assms readbyte_plain [of "set_z80 (\<lambda>p. p\<lparr>SP := SP p + 1\<rparr>) s" dev "SP (z80 s)"]
  by (simp_all add: pop_byte_def Let_def)

text \<open>The two bytes of a word on the stack are two places.\<close>

definition stack_ok :: "('u, 'z) z80_state_scheme \<Rightarrow> bool" where
  "stack_ok s \<longleftrightarrow> plain_bus s \<and> ram_at (SP (z80 s) - 1) s \<and> ram_at (SP (z80 s) - 2) s \<and>
     phys (read_mapping (SP (z80 s) - 1) s) (SP (z80 s) - 1) \<noteq> phys (read_mapping (SP (z80 s) - 2) s) (SP (z80 s) - 2)"

lemma push16_facts:
  assumes "stack_ok s" "dirty_hook_ok dev"
  shows "z80 (PUSH16 dev w s) = (z80 s)\<lparr>SP := SP (z80 s) - 2\<rparr>" "plain_bus (PUSH16 dev w s)"
    "readbyte_internal (SP (z80 s) - 1) (PUSH16 dev w s) = hi w" "readbyte_internal (SP (z80 s) - 2) (PUSH16 dev w s) = lo w"
    "phys (read_mapping x s) x \<notin> {phys (read_mapping (SP (z80 s) - 1) s) (SP (z80 s) - 1), phys (read_mapping (SP (z80 s) - 2) s) (SP (z80 s) - 2)}
      \<Longrightarrow> readbyte_internal x (PUSH16 dev w s) = readbyte_internal x s"
proof -
  have s: "plain_bus s" "ram_at (SP (z80 s) - 1) s" "ram_at (SP (z80 s) - 2) s"
    "phys (read_mapping (SP (z80 s) - 1) s) (SP (z80 s) - 1) \<noteq> phys (read_mapping (SP (z80 s) - 2) s) (SP (z80 s) - 2)"
    using assms(1) by (simp_all add: stack_ok_def)
  define t where "t = push_byte dev (hi w) s"
  note t = push_byte_facts [OF s(1) assms(2), where b = "hi w", folded t_def]
  have sp: "SP (z80 t) - 1 = SP (z80 s) - 2" using t(1) by simp
  have ra: "ram_at (SP (z80 t) - 1) t" using s(3) t unfolding sp by (simp add: ram_at_def)
  note u = push_byte_facts [OF t(2) assms(2), where b = "lo w"]
  have e: "PUSH16 dev w s = push_byte dev (lo w) t" by (simp add: PUSH16_def t_def)
  show "z80 (PUSH16 dev w s) = (z80 s)\<lparr>SP := SP (z80 s) - 2\<rparr>" "plain_bus (PUSH16 dev w s)"
    using u(1,2) t(1) by (simp_all add: e)
  show "readbyte_internal (SP (z80 s) - 1) (PUSH16 dev w s) = hi w" "readbyte_internal (SP (z80 s) - 2) (PUSH16 dev w s) = lo w"
    "phys (read_mapping x s) x \<notin> {phys (read_mapping (SP (z80 s) - 1) s) (SP (z80 s) - 1), phys (read_mapping (SP (z80 s) - 2) s) (SP (z80 s) - 2)}
      \<Longrightarrow> readbyte_internal x (PUSH16 dev w s) = readbyte_internal x s"
    using u(6) [OF ra] t(3) t(6) [OF s(2)] s(4) unfolding e sp by (simp_all split: if_splits)
qed

lemma pop16_facts:
  assumes "plain_bus s"
  shows "fst (POP16 dev s) = mkw (readbyte_internal (SP (z80 s) + 1) s) (readbyte_internal (SP (z80 s)) s)"
    "z80 (snd (POP16 dev s)) = (z80 s)\<lparr>SP := SP (z80 s) + 2\<rparr>" "plain_bus (snd (POP16 dev s))"
    "readbyte_internal x (snd (POP16 dev s)) = readbyte_internal x s"
  using pop_byte_facts [OF assms, where dev = dev] pop_byte_facts [OF pop_byte_facts(3) [OF assms, where dev = dev], where dev = dev]
  by (simp_all add: POP16_def Let_def case_prod_beta add.commute)


lemma stack_ok_frame:
  assumes "stack_ok s" "SP (f (z80 s)) = SP (z80 s)"
  shows "stack_ok (set_z80 f s)" 
proof -
  have "ram_at a (set_z80 f s) = ram_at a s" for a by (simp add: ram_at_def)
  then show ?thesis using assms by (simp add: stack_ok_def)
qed

lemma stack_ok_tstates [simp]: "stack_ok (s\<lparr>tstates := t\<rparr>) = stack_ok s" "stack_ok (s\<lparr>rzx_instructions_offset := r\<rparr>) = stack_ok s"
  by (simp_all add: stack_ok_def ram_at_def plain_bus_def writes_through_def read_mapping_def write_mapping_def)

lemma push_pop:
  assumes "stack_ok s" "dirty_hook_ok dev"
  shows "fst (POP16 dev (PUSH16 dev w s)) = w" "z80 (snd (POP16 dev (PUSH16 dev w s))) = z80 s"
  using pop16_facts [OF push16_facts(2) [OF assms, of w], where dev = dev] push16_facts [OF assms, of w]
  by (simp_all add: algebra_simps)

lemma contend_frame [simp]:
  "z80 (contend_read_no_mreq a n s) = z80 s" "stack_ok (contend_read_no_mreq a n s) = stack_ok s"
  by (simp_all add: contend_read_no_mreq_def Let_def)

lemma call_ret:
  assumes "stack_ok s" "dirty_hook_ok dev"
  shows "z80 (RET dev (CALL dev s)) = (z80 s)\<lparr>PC := PC (z80 s) + 1, memptr := PC (z80 s) + 1\<rparr>"
    "PC (z80 (CALL dev s)) = memptr (z80 s)"
proof -
  define t where "t = set_z80 (\<lambda>p. p\<lparr>PC := PC p + 1\<rparr>) (contend_read_no_mreq (PC (z80 s)) 1 s)"
  define u where "u = PUSH16 dev (PC (z80 t)) t"
  have t: "stack_ok t" unfolding t_def by (rule stack_ok_frame) (simp_all add: assms)
  note f = push16_facts [OF t assms(2), of "PC (z80 t)", folded u_def]
  have c: "CALL dev s = set_z80 (\<lambda>p. p\<lparr>PC := memptr p\<rparr>) u" by (simp add: CALL_def Let_def t_def u_def)
  have p: "plain_bus (CALL dev s)" "z80 (CALL dev s) = (z80 t)\<lparr>SP := SP (z80 t) - 2, PC := memptr (z80 t)\<rparr>"
     "readbyte_internal x (CALL dev s) = readbyte_internal x u" for x
    using f(1,2) by (simp_all add: c)
  have zt: "z80 t = (z80 s)\<lparr>PC := PC (z80 s) + 1\<rparr>" by (simp add: t_def)
  show "z80 (RET dev (CALL dev s)) = (z80 s)\<lparr>PC := PC (z80 s) + 1, memptr := PC (z80 s) + 1\<rparr>"
    using pop16_facts [OF p(1), where dev = dev] p f(3,4) zt
    by (simp add: RET_def case_prod_beta algebra_simps)
  show "PC (z80 (CALL dev s)) = memptr (z80 s)" using p(2) zt by simp
qed


lemma flag_fix_frame [simp]:
  "SP (set_F v p) = SP p" "PC (set_F v p) = PC p" "halted (set_F v p) = halted p" "IM (set_F v p) = IM p"
  "regI (set_F v p) = regI p" "regR (set_F v p) = regR p" "interrupts_enabled_at (set_F v p) = interrupts_enabled_at p"
  "IFF1 (set_F v p) = IFF1 p" "A (set_F v p) = A p"
  by (simp_all add: set_F_def A_def)

lemma interrupt_mode_plain:
  assumes "plain_bus s" "IM (z80 s) < 3"
  defines "vec \<equiv> 0x100 * ucast (regI (z80 s)) + 0xff"
  obtains s' where "interrupt_mode dev s = Some (True, s')" "memptr (z80 s') = PC (z80 s')" "Q (z80 s') = 0"
    "PC (z80 s') = (if IM (z80 s) = 2 then mkw (readbyte_internal (vec + 1) s) (readbyte_internal vec s) else 0x38)"
    "z80 s' = (z80 s)\<lparr>PC := PC (z80 s'), memptr := PC (z80 s'), Q := 0\<rparr>"
    "\<And>x. readbyte_internal x s' = readbyte_internal x s"
proof (cases "IM (z80 s) = 2")
  case False
  then have im: "IM (z80 s) = 0 \<or> IM (z80 s) = 1" using assms(2) by (simp add: word_less_nat_alt word_unat_eq_iff) arith
  show thesis
    by (rule that [of "set_z80 (\<lambda>p. p\<lparr>PC := 0x0038, memptr := 0x0038, Q := 0\<rparr>) s"])
      (use im False in \<open>auto simp: interrupt_mode_def\<close>)
next
  case True
  define r5 where "r5 = access_time (read_mapping vec s) s"
  define r6 where "r6 = access_time (read_mapping (vec + 1) r5) r5"
  have r: "readbyte dev vec s = (readbyte_internal vec s, r5)" "readbyte dev (vec + 1) r5 = (readbyte_internal (vec + 1) s, r6)"
    "z80 r6 = z80 s" "readbyte_internal x r6 = readbyte_internal x s" for x
    using readbyte_plain [OF assms(1), of dev vec] readbyte_plain [of r5 dev "vec + 1"] assms(1)
    by (simp_all add: r5_def r6_def)
  show thesis
    by (rule that [of "set_z80 (\<lambda>p. p\<lparr>PC := mkw (readbyte_internal (vec + 1) s) (readbyte_internal vec s),
        memptr := mkw (readbyte_internal (vec + 1) s) (readbyte_internal vec s), Q := 0\<rparr>) r6"])
      (use True r in \<open>auto simp: interrupt_mode_def vec_def Let_def\<close>)
qed

text \<open>What an accepted interrupt leaves: the return address on the stack, both flip-flops clear.\<close>

definition entered :: "u16 \<Rightarrow> processor \<Rightarrow> ('u, 'z) z80_state_scheme \<Rightarrow> bool" where
  "entered ret p s \<longleftrightarrow>
    (let sp = SP p - 2; vec = 0x100 * ucast (regI p) + 0xff in
     IFF1 (z80 s) = 0 \<and> IFF2 (z80 s) = 0 \<and> \<not> halted (z80 s) \<and> regR (z80 s) = regR p + 1 \<and> SP (z80 s) = sp \<and> A (z80 s) = A p \<and>
     mkw (readbyte_internal (sp + 1) s) (readbyte_internal sp s) = ret \<and>
     PC (z80 s) = (if IM p = 2 then mkw (readbyte_internal (vec + 1) s) (readbyte_internal vec s) else 0x38) \<and>
     memptr (z80 s) = PC (z80 s) \<and> Q (z80 s) = 0)"

lemma interrupt_accept_enters:
  assumes "stack_ok s" "dirty_hook_ok dev" "IM (z80 s) < 3"
  shows "\<exists>s'. interrupt_accept dev s = Some (True, s') \<and> entered (PC (z80 s) + (if halted (z80 s) then 1 else 0)) (z80 s) s'"
proof -
  define ret where "ret = PC (z80 s) + (if halted (z80 s) then 1 else 0)"
  define s2 where "s2 = (if halted (z80 s) then set_z80 (\<lambda>p. p\<lparr>PC := PC p + 1, halted := False\<rparr>) s else s)"
  define s3 where "s3 = (set_z80 (\<lambda>p. p\<lparr>IFF1 := 0, IFF2 := 0, regR := regR p + 1\<rparr>) s2)\<lparr>rzx_instructions_offset := rzx_instructions_offset s2 - 1\<rparr>"
  define s4 where "s4 = PUSH16 dev (PC (z80 s3)) (tick 7 s3)"
  have s2: "stack_ok s2" "PC (z80 s2) = ret" "\<not> halted (z80 s2)" "SP (z80 s2) = SP (z80 s)" "IM (z80 s2) = IM (z80 s)"
     "regI (z80 s2) = regI (z80 s)" "regR (z80 s2) = regR (z80 s)" "A (z80 s2) = A (z80 s)"
    using stack_ok_frame [OF assms(1), of "\<lambda>p. p\<lparr>PC := PC p + 1, halted := False\<rparr>"] assms(1)
    by (simp_all add: s2_def ret_def A_def)
  have s3: "stack_ok s3" "z80 s3 = (z80 s2)\<lparr>IFF1 := 0, IFF2 := 0, regR := regR (z80 s2) + 1\<rparr>"
    using stack_ok_frame [OF s2(1), of "\<lambda>p. p\<lparr>IFF1 := 0, IFF2 := 0, regR := regR p + 1\<rparr>"]
    by (simp_all add: s3_def)
  have t: "stack_ok (tick 7 s3)" "z80 (tick 7 s3) = z80 s3" using s3(1) by (simp_all add: tick_def)
  note f = push16_facts [OF t(1) assms(2), of "PC (z80 s3)", folded s4_def, unfolded t(2)]
  have z4: "z80 s4 = (z80 s2)\<lparr>IFF1 := 0, IFF2 := 0, regR := regR (z80 s2) + 1, SP := SP (z80 s) - 2\<rparr>"
    using f(1) s3(2) s2(4) by simp
  have st: "readbyte_internal (SP (z80 s) - 1) s4 = hi ret" "readbyte_internal (SP (z80 s) - 2) s4 = lo ret"
    using f(3,4) s3(2) s2(2,4) by simp_all
  have im: "IM (z80 s4) < 3" using z4 s2(5) assms(3) by simp
  have e: "interrupt_accept dev s = interrupt_mode dev s4"
    unfolding interrupt_accept_def Let_def s2_def [symmetric] s3_def [symmetric] s4_def [symmetric] ..
  from interrupt_mode_plain [OF f(2) im, of dev] obtain s' where
    m: "interrupt_mode dev s4 = Some (True, s')" "memptr (z80 s') = PC (z80 s')" "Q (z80 s') = 0"
    "PC (z80 s') = (if IM (z80 s4) = 2 then mkw (readbyte_internal (0x100 * ucast (regI (z80 s4)) + 0xff + 1) s4)
       (readbyte_internal (0x100 * ucast (regI (z80 s4)) + 0xff) s4) else 0x38)"
    "z80 s' = (z80 s4)\<lparr>PC := PC (z80 s'), memptr := PC (z80 s'), Q := 0\<rparr>"
    "\<And>x. readbyte_internal x s' = readbyte_internal x s4" by metis
  have regs: "IFF1 (z80 s') = 0" "IFF2 (z80 s') = 0" "\<not> halted (z80 s')" "regR (z80 s') = regR (z80 s) + 1"
    "SP (z80 s') = SP (z80 s) - 2" "A (z80 s') = A (z80 s)"
    by (subst m(5), use z4 s2 in \<open>simp add: A_def\<close>)+
  have "entered ret (z80 s) s'"
    unfolding entered_def Let_def using regs m(2,3) m(4) m(6) st z4 s2 by (simp add: algebra_simps)
  then show ?thesis using e m(1) by (simp add: ret_def)
qed

section \<open>A machine to apply the theorems to\<close>

text \<open>A 48K machine with RAM 5 at 0x4000 and its stack there.\<close>

definition demo_ram :: "unit machine_state" where
  "demo_ram = memory_map_16k 0x4000 (memory_map_ram (demo_machine MACHINE_48 0)) 5 (demo_machine MACHINE_48 0)"

definition demo_processor :: processor where
  "demo_processor = \<lparr>AF = 0x1234, BC = 0, DE = 0, HL = 0, AF2 = 0, BC2 = 0, DE2 = 0, HL2 = 0, IX = 0, IY = 0, regI = 0x3f, regR = 0,
     regR7 = 0, SP = 0x8000, PC = 0x5678, memptr = 0x6000, iff2_read = False, IFF1 = 1, IFF2 = 1, IM = 1, halted = True,
     CLOCKL = 0, CLOCKH = 0, Q = 0, interrupts_enabled_at = 7\<rparr>"

definition demo_z80 :: "unit z80_state" where
  "demo_z80 = machine_state.extend demo_ram (z80_state.fields demo_processor False 0 0 False 32 False)"

lemma demo_ram_facts:
  "plain_bus demo_ram" "read_mapping 0x7fff demo_ram = init_ram_page 5 7 blank_page" "write_mapping 0x7fff demo_ram = init_ram_page 5 7 blank_page"
  "read_mapping 0x7ffe demo_ram = init_ram_page 5 7 blank_page" "write_mapping 0x7ffe demo_ram = init_ram_page 5 7 blank_page"
proof -
  have r: "memory_map_ram (demo_machine MACHINE_48 0) = memory_map_ram blank_memory"
    by (simp add: demo_machine_def memory_state.extend_def machine_state.fields_def)
  have "plain_bus (demo_machine MACHINE_48 0) = plain_bus blank_memory"
    by (simp add: plain_bus_def demo_machine_def memory_state.extend_def machine_state.fields_def)
  then show "plain_bus demo_ram"
    using blank_memory_facts(3) aligned_slot(3) [of "0x4000"]
    by (simp add: demo_ram_def memory_map_16k_def r16k.map_law plain_bus_def)
  show "read_mapping 0x7fff demo_ram = init_ram_page 5 7 blank_page" "write_mapping 0x7fff demo_ram = init_ram_page 5 7 blank_page"
    "read_mapping 0x7ffe demo_ram = init_ram_page 5 7 blank_page" "write_mapping 0x7ffe demo_ram = init_ram_page 5 7 blank_page"
    by (simp_all add: demo_ram_def map_16k_reads demo_machine_facts r blank_memory_facts)
qed

lemma demo_z80_facts:
  "z80 demo_z80 = demo_processor" "tstates demo_z80 = 0" "interrupt_length demo_z80 = 32" "scld_last_dec demo_z80 = 0"
  "rzx_playback demo_z80 = False" "stack_ok demo_z80"
proof -
  have t: "tstates demo_ram = 0" "scld_last_dec demo_ram = 0"
    using aligned_slot(3) [of "0x4000"]
    by (simp_all add: demo_ram_def memory_map_16k_def r16k.map_law)
      (simp_all add: demo_machine_def memory_state.extend_def machine_state.fields_def blank_memory_def memory_init_def
        memory_source_register_def Let_def)
  show "z80 demo_z80 = demo_processor" "tstates demo_z80 = 0" "interrupt_length demo_z80 = 32" "scld_last_dec demo_z80 = 0"
    "rzx_playback demo_z80 = False"
    by (simp_all add: demo_z80_def machine_state.extend_def z80_state.fields_def t)
  have m: "read_mapping a demo_z80 = read_mapping a demo_ram" "write_mapping a demo_z80 = write_mapping a demo_ram" 
      "plain_bus demo_z80 = plain_bus demo_ram" "writable_roms demo_z80 = writable_roms demo_ram" for a
    by (simp_all add: demo_z80_def machine_state.extend_def z80_state.fields_def read_mapping_def write_mapping_def plain_bus_def)
  show "stack_ok demo_z80"
    by (simp add: stack_ok_def demo_z80_def [symmetric] \<open>z80 demo_z80 = demo_processor\<close> demo_processor_def ram_at_def writes_through_def
        m demo_ram_facts) (simp add: init_ram_page_def phys_def page_offset_def)
qed

lemma no_devices_dirty: "dirty_hook_ok no_devices"
  by (simp add: dirty_hook_ok_def no_devices_def)

section \<open>The properties\<close>

text \<open>
  C11. The stack, through the paging tables: when the two places below SP are RAM, a word pushed is
  popped again with SP back where it was, and RET returns behind the operand of the CALL with every other
  register as before.
\<close>

theorem z80_stack_roundtrip:
  assumes "stack_ok s" "dirty_hook_ok dev"
  shows "fst (POP16 dev (PUSH16 dev w s)) = w \<and> z80 (snd (POP16 dev (PUSH16 dev w s))) = z80 s \<and>
    PC (z80 (CALL dev s)) = memptr (z80 s) \<and>
    z80 (RET dev (CALL dev s)) = (z80 s)\<lparr>PC := PC (z80 s) + 1, memptr := PC (z80 s) + 1\<rparr>"
  using push_pop [OF assms] call_ret [OF assms] by simp

theorem z80_stack_roundtrip_witness:
  "fst (POP16 no_devices (PUSH16 no_devices 0xabcd demo_z80)) = 0xabcd"
  using z80_stack_roundtrip [OF demo_z80_facts(6) no_devices_dirty, of "0xabcd"] by simp

text \<open>
  C10. An interrupt that is pending and not put off by EI is accepted: the return address (behind the
  HALT, if the processor was halted) is on the stack, R counts one more, the program counter comes from the
  vector table in mode 2 and is 0x38 in modes 0 and 1, and both flip-flops are clear, so the same interrupt is
  not taken again.
\<close>

theorem z80_interrupt_accepted:
  assumes "stack_ok s" "dirty_hook_ok dev" "interrupt_pending s" "\<not> just_enabled s" "IM (z80 s) < 3"
  shows "\<exists>s'. z80_interrupt ins ei null dev s = Some (True, s') \<and>
    entered (PC (z80 s) + (if halted (z80 s) then 1 else 0)) (z80 s) s' \<and>
    z80_interrupt ins ei null dev s' = Some (False, s')"
proof -
  define s1 where "s1 = (if iff2_read (z80 s) \<and> \<not> z80_is_cmos s then set_z80 (\<lambda>p. set_F (F p AND NOT FLAG_P) p) s else s)"
  have s1: "stack_ok s1" "interrupts_enabled_at (z80 s1) = interrupts_enabled_at (z80 s)" "tstates s1 = tstates s"
     "rzx_playback s1 = rzx_playback s" "rzx_instruction_count s1 = rzx_instruction_count s" "SP (z80 s1) = SP (z80 s)"
     "halted (z80 s1) = halted (z80 s)" "PC (z80 s1) = PC (z80 s)" "IM (z80 s1) = IM (z80 s)" "regI (z80 s1) = regI (z80 s)"
     "regR (z80 s1) = regR (z80 s)" "A (z80 s1) = A (z80 s)"
    using stack_ok_frame [OF assms(1), of "\<lambda>p. set_F (F p AND NOT FLAG_P) p"] assms(1)
    by (simp_all add: s1_def) (simp_all add: set_z80_def)
  have e: "entered r (z80 s1) = (entered r (z80 s) :: ('a, 'b) z80_state_scheme \<Rightarrow> bool)" for r
    by (simp add: entered_def fun_eq_iff s1)
  have "just_enabled s1 = just_enabled s" by (simp add: just_enabled_def s1)
  then have i: "z80_interrupt ins ei null dev s = interrupt_accept dev s1"
    using assms(3,4) unfolding z80_interrupt_def Let_def s1_def [symmetric] by simp
  obtain s' where s': "interrupt_accept dev s1 = Some (True, s')" "entered (PC (z80 s) + (if halted (z80 s) then 1 else 0)) (z80 s) s'"
    using interrupt_accept_enters [OF s1(1) assms(2)] assms(5) unfolding e s1(7,8,9) by blast
  have "\<not> interrupt_pending s'" using s'(2) by (simp add: entered_def interrupt_pending_def Let_def)
  then show ?thesis using i s' by (auto simp: z80_interrupt_def)
qed

theorem z80_interrupt_accepted_witness:
  "\<exists>s'. z80_interrupt insert_sorted_ref 1 () no_devices demo_z80 = Some (True, s') \<and> entered 0x5679 demo_processor s'"
  using z80_interrupt_accepted [OF demo_z80_facts(6) no_devices_dirty, of insert_sorted_ref 1 "()"]
  by (auto simp: demo_z80_facts interrupt_pending_def just_enabled_def intdisable_def demo_processor_def)

text \<open>
  An interrupt is not taken while it is masked, late in the frame or disabled by the SCLD: nothing
  changes then. Right after EI it is put off: one event at the next T-state is queued, the queue stays ordered,
  and the program counter, stack pointer and flip-flops stay.
\<close>

lemma z80_interrupt_put_off:
  assumes "insert_sorted_law ins" "event_inv s"
  shows "(\<not> interrupt_pending s \<longrightarrow> z80_interrupt ins ei null dev s = Some (False, s)) \<and>
    (interrupt_pending s \<and> just_enabled s \<longrightarrow>
      (\<exists>s'. z80_interrupt ins ei null dev s = Some (False, s') \<and> event_inv s' \<and>
         mset (event_list s') = add_mset \<lparr>ev_tstates = tstates s + 1, ev_type = ei, user_data = null\<rparr> (mset (event_list s)) \<and>
         PC (z80 s') = PC (z80 s) \<and> SP (z80 s') = SP (z80 s) \<and> IFF1 (z80 s') = IFF1 (z80 s) \<and> mem s' = mem s))"
proof -
  define s1 where "s1 = (if iff2_read (z80 s) \<and> \<not> z80_is_cmos s then set_z80 (\<lambda>p. set_F (F p AND NOT FLAG_P) p) s else s)"
  have s1: "event_inv s1" "just_enabled s1 = just_enabled s" "tstates s1 = tstates s" "event_list s1 = event_list s" "mem s1 = mem s"
     "PC (z80 s1) = PC (z80 s)" "SP (z80 s1) = SP (z80 s)" "IFF1 (z80 s1) = IFF1 (z80 s)"
    using assms(2) by (simp_all add: s1_def event_inv_def just_enabled_def set_z80_def)
  have a: "z80 (event_add_with_data ins t ty d u) = z80 u" "mem (event_add_with_data ins t ty d u) = mem u"
    for t ty d and u :: "('a, 'b) z80_state_scheme"
    by (simp_all add: event_add_with_data_def Let_def)
  show ?thesis
    using event_add_inv [OF assms(1) s1(1), of "tstates s + 1" ei null] event_add_times [OF assms(1) s1(1), of "tstates s + 1" ei null] s1 a
    unfolding z80_interrupt_def Let_def s1_def [symmetric] by simp
qed

lemma z80_interrupt_put_off_witness:
  "\<exists>s'. z80_interrupt insert_sorted_ref 1 () no_devices (demo_z80\<lparr>tstates := 7\<rparr>) = Some (False, s') \<and>
     PC (z80 s') = 0x5678 \<and> event_list s' = [\<lparr>ev_tstates = 8, ev_type = 1, user_data = ()\<rparr>]"
proof -
  have l: "event_list (demo_z80\<lparr>tstates := 7\<rparr>) = []" "event_next_event (demo_z80\<lparr>tstates := 7\<rparr>) = event_no_events"
    using aligned_slot(3) [of "0x4000"]
    by (simp_all add: demo_z80_def machine_state.extend_def demo_ram_def memory_map_16k_def r16k.map_law)
      (simp_all add: demo_machine_def memory_state.extend_def machine_state.fields_def blank_memory_def memory_init_def
        memory_source_register_def Let_def)
  then have i: "event_inv (demo_z80\<lparr>tstates := 7\<rparr>)" by (simp add: event_inv_def)
  have "interrupt_pending (demo_z80\<lparr>tstates := 7\<rparr>)" "just_enabled (demo_z80\<lparr>tstates := 7\<rparr>)"
    by (simp_all add: interrupt_pending_def just_enabled_def demo_z80_facts intdisable_def demo_processor_def)
  then show ?thesis
    using z80_interrupt_put_off [OF insert_sorted_ref_law i, of 1 "()" no_devices] l
    by (auto simp: demo_z80_facts demo_processor_def)
qed

text \<open>
  C12. The processor part of a snapshot: loading and saving again gives the snapshot back, R and its top
  bit included, if the clock is not at the mark for never and Q is set only from flags that are not zero; and
  saving and loading restores every register pair, the stack pointer and the program counter.
\<close>

theorem z80_snapshot_roundtrip:
  assumes "tstates s \<noteq> -1" "snap_last_instruction_set_f sn \<Longrightarrow> snap_f sn \<noteq> 0"
  shows "z80_to_snapshot (z80_from_snapshot sn s) = sn \<and>
    (let p = z80 (z80_from_snapshot (z80_to_snapshot t) s)
     in (AF p, BC p, DE p, HL p, AF2 p, BC2 p, DE2 p, HL2 p, IX p, IY p, SP p, PC p, memptr p) =
        (AF (z80 t), BC (z80 t), DE (z80 t), HL (z80 t), AF2 (z80 t), BC2 (z80 t), DE2 (z80 t), HL2 (z80 t), IX (z80 t), IY (z80 t),
         SP (z80 t), PC (z80 t), memptr (z80 t)) \<and>
        regI p = regI (z80 t) \<and> IFF1 p = IFF1 (z80 t) \<and> IFF2 p = IFF2 (z80 t) \<and> IM p = IM (z80 t) \<and> halted p = halted (z80 t))"
proof -
  have r: "(v AND 0x80) OR (ucast (ucast v :: u16) AND 0x7f) = v" for v :: u8
    by (rule u8_eqI) (simp_all add: bit_simps)
  have f: "mkw (A p) (F p) = AF p" for p by (simp add: A_def F_def)
  show ?thesis
    using assms by (simp add: z80_to_snapshot_def z80_from_snapshot_def Let_def r f A_def F_def)
qed

theorem z80_snapshot_roundtrip_witness:
  "z80_to_snapshot (z80_from_snapshot ((z80_to_snapshot demo_z80)\<lparr>snap_r := 0xfe\<rparr>) demo_z80) = (z80_to_snapshot demo_z80)\<lparr>snap_r := 0xfe\<rparr>"
proof -
  have "\<not> snap_last_instruction_set_f ((z80_to_snapshot demo_z80)\<lparr>snap_r := 0xfe\<rparr>)"
    by (simp add: z80_to_snapshot_def demo_z80_facts demo_processor_def Let_def)
  then show ?thesis
    using z80_snapshot_roundtrip [of demo_z80 "(z80_to_snapshot demo_z80)\<lparr>snap_r := 0xfe\<rparr>" demo_z80]
    by (simp add: demo_z80_facts)
qed

end
