(* ===== verification/Sfifo.thy ===== *)
theory Sfifo
  imports Prelude
begin

text \<open>
  The ring buffer \<open>sound/sfifo.c\<close> between the emulation, which writes sound samples, and the sound
  driver, which reads them. The buffer has a power of two of bytes and holds one less; both
  positions may rest at the end of the buffer before they wrap to its start. The model keeps the
  buffer, its size and the positions as the structure does, and the locale \<open>byte_queue\<close> states
  what the writer and the reader rely on.
\<close>

section \<open>State and operations\<close>

record sfifo =
  fifo_buffer :: "u8 list option"
  fifo_size :: int
  readpos :: int
  writepos :: int

datatype errno = EINVAL | ENOMEM | ENODEV

definition SFIFO_MAX_BUFFER_SIZE :: int where
  "SFIFO_MAX_BUFFER_SIZE = 0x7fffffff"

definition SFIFO_SIZEMASK :: "sfifo \<Rightarrow> int" where
  "SFIFO_SIZEMASK x = fifo_size x - 1"

definition sfifo_used :: "sfifo \<Rightarrow> int" where
  "sfifo_used x = (writepos x - readpos x) AND SFIFO_SIZEMASK x"

definition sfifo_space :: "sfifo \<Rightarrow> int" where
  "sfifo_space x = fifo_size x - 1 - sfifo_used x"

text \<open>
  The loop \<open>for( ; f->size <= size; f->size <<= 1 )\<close> on a 32-bit \<open>int\<close> that wraps around.
  \<open>None\<close> is a loop that does not end.
\<close>

partial_function (option) next_size :: "int \<Rightarrow> int \<Rightarrow> int option" where
  "next_size req s = (if s \<le> req then next_size req (signed_take_bit 31 (s * 2)) else Some s)"

text \<open>\<open>alloc\<close> says whether \<open>malloc\<close> finds the memory; what it holds at first is \<open>junk\<close>.\<close>

definition sfifo_init :: "(int \<Rightarrow> bool) \<Rightarrow> (nat \<Rightarrow> u8) \<Rightarrow> int \<Rightarrow> (errno + sfifo) option" where
  "sfifo_init alloc junk req =
    (if req > SFIFO_MAX_BUFFER_SIZE then Some (Inl EINVAL)
     else case next_size req 1 of
       None \<Rightarrow> None
     | Some s \<Rightarrow> Some (if \<not> alloc s then Inl ENOMEM
         else Inr \<lparr>fifo_buffer = Some (map junk [0..<nat s]), fifo_size = s, readpos = 0, writepos = 0\<rparr>))"

definition sfifo_close :: "sfifo \<Rightarrow> sfifo" where
  "sfifo_close f = f"

definition sfifo_flush :: "sfifo \<Rightarrow> sfifo" where
  "sfifo_flush f = f\<lparr>readpos := 0, writepos := 0\<rparr>"

text \<open>\<open>memcpy( buffer + i, bs, length )\<close>.\<close>

definition copy_at :: "int \<Rightarrow> u8 list \<Rightarrow> u8 list \<Rightarrow> u8 list" where
  "copy_at i bs buf = take (nat i) buf @ bs @ drop (nat i + length bs) buf"

definition sfifo_write :: "sfifo \<Rightarrow> u8 list \<Rightarrow> int \<Rightarrow> errno + int \<times> sfifo" where
  "sfifo_write f buf len =
    (case fifo_buffer f of
       None \<Rightarrow> Inl ENODEV
     | Some b \<Rightarrow>
         (let total = sfifo_space f;
              (len, total) = (if len > total then (total, total) else (len, len));
              i = writepos f
          in if i + len > fifo_size f
             then (let n = fifo_size f - i;
                       b1 = copy_at i (take (nat n) buf) b;
                       buf1 = drop (nat n) buf;
                       len1 = len - n
                   in Inr (total, f\<lparr>fifo_buffer := Some (copy_at 0 (take (nat len1) buf1) b1), writepos := len1\<rparr>))
             else Inr (total, f\<lparr>fifo_buffer := Some (copy_at i (take (nat len) buf) b), writepos := i + len\<rparr>)))"

text \<open>The bytes read, in the order in which they are put at \<open>_buf\<close>.\<close>

definition sfifo_read :: "sfifo \<Rightarrow> int \<Rightarrow> errno + int \<times> u8 list \<times> sfifo" where
  "sfifo_read f len =
    (case fifo_buffer f of
       None \<Rightarrow> Inl ENODEV
     | Some b \<Rightarrow>
         (let total = sfifo_used f;
              (len, total) = (if len > total then (total, total) else (len, len));
              i = readpos f
          in if i + len > fifo_size f
             then (let n = fifo_size f - i; len1 = len - n
                   in Inr (total, take (nat n) (drop (nat i) b) @ take (nat len1) b, f\<lparr>readpos := len1\<rparr>))
             else Inr (total, take (nat len) (drop (nat i) b), f\<lparr>readpos := i + len\<rparr>)))"

section \<open>The size loop\<close>

lemma next_size_simps:
  "s \<le> req \<Longrightarrow> next_size req s = next_size req (signed_take_bit 31 (s * 2))" "req < s \<Longrightarrow> next_size req s = Some s"
  by (subst next_size.simps, simp)+

lemma double_small: "k < 30 \<Longrightarrow> signed_take_bit 31 ((2::int) ^ k * 2) = 2 ^ Suc k"
proof -
  assume "k < 30"
  then have "(2::int) ^ Suc k < 2 ^ 31" by (intro power_strict_increasing) auto
  moreover have "- (2 ^ 31) \<le> (2::int) ^ Suc k" by (rule order_trans [of _ 0]) simp_all
  ultimately have "signed_take_bit 31 ((2::int) ^ Suc k) = 2 ^ Suc k" by (intro signed_take_bit_int_eq_self)
  then show ?thesis by (simp add: mult.commute)
qed

lemma next_size_ends:
  assumes "req < 2 ^ 30" "k \<le> 30" "k = 0 \<or> 2 ^ (k - 1) \<le> req"
  shows "\<exists>m. next_size req (2 ^ k) = Some (2 ^ m) \<and> m \<le> 30 \<and> req < 2 ^ m \<and> (m = 0 \<or> 2 ^ (m - 1) \<le> req)"
  using assms(2,3)
proof (induction "30 - k" arbitrary: k)
  case 0
  then have "k = 30" by simp
  with assms(1) 0 show ?case by (intro exI [of _ 30]) (simp add: next_size_simps)
next
  case (Suc d)
  show ?case
  proof (cases "2 ^ k \<le> req")
    case True
    have k: "d = 30 - Suc k" "Suc k \<le> 30" using Suc.hyps(2) by linarith+
    have "next_size req (2 ^ k) = next_size req (2 ^ Suc k)"
      using True k by (simp add: next_size_simps(1) double_small del: power_Suc)
    then show ?thesis using Suc.hyps(1) [OF k] True by simp
  next
    case False
    then show ?thesis using Suc.prems by (intro exI [of _ k]) (simp add: next_size_simps)
  qed
qed

text \<open>From 2 \<open>^\<close> 30 on the size overflows to a negative number, then to 0, where it stays.\<close>

definition size_values :: "int set" where
  "size_values = insert 0 (insert (- (2 ^ 31)) ((\<lambda>k. 2 ^ k) ` {..30}))"

lemma size_values_step:
  assumes "s \<in> size_values" shows "signed_take_bit 31 (s * 2) \<in> size_values"
proof -
  have z: "signed_take_bit 31 ((2::int) ^ 30 * 2) = - (2 ^ 31)" "signed_take_bit 31 (- (2 ^ 31) * 2 :: int) = 0" by code_simp+
  consider "s = 0" | "s = - (2 ^ 31)" | "s = 2 ^ 30" | k where "k < 30" "s = 2 ^ k"
    using assms unfolding size_values_def by (auto simp: le_less)
  then show ?thesis
  proof cases
    case (4 k)
    then show ?thesis unfolding 4(2) double_small [OF 4(1)] by (auto simp: size_values_def simp del: power_Suc)
  qed (simp_all only: z, simp_all add: size_values_def)
qed

lemma next_size_never: "next_size req s = Some y \<Longrightarrow> \<not> (s \<in> size_values \<and> 2 ^ 30 \<le> req)"
proof (erule next_size.raw_induct [rotated])
  fix f :: "int \<Rightarrow> int \<Rightarrow> int option" and req s y
  assume ih: "\<And>s b y. f s b = Some y \<Longrightarrow> \<not> (b \<in> size_values \<and> 2 ^ 30 \<le> s)"
    and body: "(if s \<le> req then f req (signed_take_bit 31 (s * 2)) else Some s) = Some y"
  show "\<not> (s \<in> size_values \<and> 2 ^ 30 \<le> req)"
  proof
    assume a: "s \<in> size_values \<and> 2 ^ 30 \<le> req"
    have "s \<le> 2 ^ 30" using a power_increasing [of _ 30 "2::int"] by (fastforce simp: size_values_def)
    then have "f req (signed_take_bit 31 (s * 2)) = Some y" using body a by simp
    from ih [OF this] show False using a size_values_step by blast
  qed
qed

lemma next_size_loops: "2 ^ 30 \<le> req \<Longrightarrow> s \<in> size_values \<Longrightarrow> next_size req s = None"
  using next_size_never by (cases "next_size req s") auto

section \<open>The bytes in the buffer\<close>

definition sfifo_ok :: "sfifo \<Rightarrow> bool" where
  "sfifo_ok f \<longleftrightarrow> (\<exists>b k. fifo_buffer f = Some b \<and> fifo_size f = 2 ^ k \<and> int (length b) = fifo_size f \<and>
     0 \<le> readpos f \<and> readpos f \<le> fifo_size f \<and> 0 \<le> writepos f \<and> writepos f \<le> fifo_size f)"

definition sfifo_contents :: "sfifo \<Rightarrow> u8 list" where
  "sfifo_contents f = (case fifo_buffer f of None \<Rightarrow> []
     | Some b \<Rightarrow> map (\<lambda>j. b ! nat ((readpos f + int j) mod fifo_size f)) [0..<nat (sfifo_used f)])"

lemma used_mod: "fifo_size f = 2 ^ k \<Longrightarrow> sfifo_used f = (writepos f - readpos f) mod fifo_size f"
  by (simp add: sfifo_used_def SFIFO_SIZEMASK_def take_bit_eq_mod take_bit_eq_mask mask_eq_exp_minus_1 flip: take_bit_eq_mod)

lemma wrap_mod:
  fixes x w n :: int
  assumes "0 \<le> x" "x < n" "0 \<le> w" "w \<le> n"
  shows "(x - w) mod n = (if w \<le> x then x - w else x - w + n)" "(x + w) mod n = (if x + w < n then x + w else x + w - n)"
proof -
  have "(x - w + n) mod n = x - w + n" if "x < w" using assms that by (intro mod_pos_pos_trivial) auto
  then show "(x - w) mod n = (if w \<le> x then x - w else x - w + n)" using assms by (auto simp: mod_pos_pos_trivial)
  have "(x + w - n) mod n = x + w - n" if "n \<le> x + w" using assms that by (intro mod_pos_pos_trivial) auto
  then show "(x + w) mod n = (if x + w < n then x + w else x + w - n)" using assms
    by (auto simp: mod_pos_pos_trivial)
qed

lemma used_cases:
  assumes "sfifo_ok f"
  shows "sfifo_used f = (if readpos f \<le> writepos f then (if writepos f - readpos f = fifo_size f then 0 else writepos f - readpos f)
     else writepos f - readpos f + fifo_size f)" "0 \<le> sfifo_used f" "sfifo_used f < fifo_size f" "0 < fifo_size f"
proof -
  obtain k where k: "fifo_size f = 2 ^ k" "0 \<le> readpos f" "readpos f \<le> fifo_size f" "0 \<le> writepos f" "writepos f \<le> fifo_size f"
    using assms by (auto simp: sfifo_ok_def)
  note u = used_mod [OF k(1)]
  show p: "0 < fifo_size f" by (simp add: k(1))
  show "0 \<le> sfifo_used f" "sfifo_used f < fifo_size f" using p u by simp_all
  show "sfifo_used f = (if readpos f \<le> writepos f then (if writepos f - readpos f = fifo_size f then 0 else writepos f - readpos f)
     else writepos f - readpos f + fifo_size f)"
  proof (cases "writepos f = fifo_size f")
    case True
    then have "sfifo_used f = (- readpos f) mod fifo_size f" using u by (simp add: mod_diff_left_eq flip: mod_diff_left_eq)
    then show ?thesis using True k p wrap_mod(1) [of 0 "fifo_size f" "readpos f"] by auto
  next
    case False
    then show ?thesis using u k p wrap_mod(1) [of "writepos f" "fifo_size f" "readpos f"] by auto
  qed
qed

lemma copy_at_nth:
  assumes "0 \<le> i" "nat i + length bs \<le> length b" "x < length b"
  shows "length (copy_at i bs b) = length b"
    "copy_at i bs b ! x = (if nat i \<le> x \<and> x < nat i + length bs then bs ! (x - nat i) else b ! x)"
  using assms by (auto simp: copy_at_def nth_append)

lemma write_bytes:
  assumes "sfifo_ok f" "0 \<le> len" "len \<le> int (length buf)"
  defines "n \<equiv> min len (sfifo_space f)"
  obtains b b' where "fifo_buffer f = Some b" "length b' = length b" "int (length b) = fifo_size f"
    "sfifo_write f buf len = Inr (n, f\<lparr>fifo_buffer := Some b',
       writepos := (if writepos f + n > fifo_size f then writepos f + n - fifo_size f else writepos f + n)\<rparr>)"
    "\<And>x. 0 \<le> x \<Longrightarrow> x < fifo_size f \<Longrightarrow> b' ! nat x =
       (if (x - writepos f) mod fifo_size f < n then buf ! nat ((x - writepos f) mod fifo_size f) else b ! nat x)"
proof -
  obtain b k where b: "fifo_buffer f = Some b" "fifo_size f = 2 ^ k" "int (length b) = fifo_size f"
     "0 \<le> writepos f" "writepos f \<le> fifo_size f"
    using assms(1) by (auto simp: sfifo_ok_def)
  define i where "i = writepos f"
  define s where "s = fifo_size f"
  have s: "int (length b) = s" "0 \<le> i" "i \<le> s" using b by (simp_all add: i_def s_def)
  have n: "0 \<le> n" "n < s" "n \<le> int (length buf)"
    using used_cases [OF assms(1)] assms(2,3) by (simp_all add: n_def s_def sfifo_space_def min_def)
  define b1 where "b1 = copy_at i (take (nat (s - i)) buf) b"
  define b' where "b' = (if i + n > s then copy_at 0 (take (nat (n - (s - i))) (drop (nat (s - i)) buf)) b1
     else copy_at i (take (nat n) buf) b)"
  have w: "sfifo_write f buf len = Inr (n, f\<lparr>fifo_buffer := Some b', writepos := (if i + n > s then i + n - s else i + n)\<rparr>)"
    using b(1) by (simp add: sfifo_write_def Let_def n_def b'_def b1_def i_def s_def min_def algebra_simps)
  have len: "length b' = length b"
    using s n by (auto simp: b'_def b1_def copy_at_def)
  have "b' ! nat x = (if (x - i) mod s < n then buf ! nat ((x - i) mod s) else b ! nat x)" if "0 \<le> x" "x < s" for x
  proof (cases "i + n > s")
    case True
    have "length (take (nat (s - i)) buf) = nat (s - i)" "length (take (nat (n - (s - i))) (drop (nat (s - i)) buf)) = nat (n - (s - i))"
      using True n s by auto
    then show ?thesis
      using True that s n copy_at_nth [of i "take (nat (s - i)) buf" b "nat x"]
        copy_at_nth [of 0 "take (nat (n - (s - i))) (drop (nat (s - i)) buf)" b1 "nat x"] 
      by (auto simp: b'_def b1_def wrap_mod nat_less_iff nat_le_iff nth_append algebra_simps simp flip: nat_diff_distrib nat_add_distrib)
  next
    case False
    have "length (take (nat n) buf) = nat n" using n by auto
    then show ?thesis
      using False that s n copy_at_nth [of i "take (nat n) buf" b "nat x"]
      by (auto simp: b'_def wrap_mod nat_less_iff nat_le_iff simp flip: nat_diff_distrib nat_add_distrib)
  qed
  then show thesis using that [OF b(1) len b(3)] w by (simp add: i_def s_def)
qed

lemma contents_nth:
  assumes "sfifo_ok f" "fifo_buffer f = Some b"
  shows "length (sfifo_contents f) = nat (sfifo_used f)"
    "j < nat (sfifo_used f) \<Longrightarrow> sfifo_contents f ! j = b ! nat ((readpos f + int j) mod fifo_size f)"
  by (simp_all add: sfifo_contents_def assms(2))

lemma write_facts:
  assumes "sfifo_ok f" "0 \<le> len" "len \<le> int (length buf)"
  shows "\<exists>f'. sfifo_write f buf len = Inr (min len (sfifo_space f), f') \<and> sfifo_ok f' \<and> fifo_size f' = fifo_size f \<and>
     sfifo_contents f' = sfifo_contents f @ take (nat (min len (sfifo_space f))) buf"
proof -
  define n where "n = min len (sfifo_space f)"
  obtain b b' where w: "fifo_buffer f = Some b" "length b' = length b" "int (length b) = fifo_size f"
    "sfifo_write f buf len = Inr (n, f\<lparr>fifo_buffer := Some b',
       writepos := (if writepos f + n > fifo_size f then writepos f + n - fifo_size f else writepos f + n)\<rparr>)"
    "\<And>x. 0 \<le> x \<Longrightarrow> x < fifo_size f \<Longrightarrow> b' ! nat x =
       (if (x - writepos f) mod fifo_size f < n then buf ! nat ((x - writepos f) mod fifo_size f) else b ! nat x)"
    using write_bytes [OF assms] unfolding n_def by metis
  define f' where "f' = f\<lparr>fifo_buffer := Some b', writepos := (if writepos f + n > fifo_size f then writepos f + n - fifo_size f else writepos f + n)\<rparr>"
  note u = used_cases [OF assms(1)]
  have n: "0 \<le> n" "n \<le> fifo_size f - 1 - sfifo_used f" "n \<le> int (length buf)" using u assms(2,3) by (simp_all add: n_def sfifo_space_def min_def)
  have r: "0 \<le> readpos f" "readpos f \<le> fifo_size f" "0 \<le> writepos f" "writepos f \<le> fifo_size f"
    using assms(1) by (auto simp: sfifo_ok_def)
  have ok: "sfifo_ok f'" using assms(1) n r u w(1,2,3) by (auto simp: sfifo_ok_def f'_def)
  have used: "sfifo_used f' = sfifo_used f + n"
    using used_cases(1) [OF ok] u(1) n r u(4) by (simp add: f'_def split: if_splits)
  have "sfifo_contents f' = sfifo_contents f @ take (nat n) buf"
  proof (rule nth_equalityI)
    show l: "length (sfifo_contents f') = length (sfifo_contents f @ take (nat n) buf)"
      using contents_nth(1) [OF ok, of b'] contents_nth(1) [OF assms(1) w(1)] used u(2) n by (auto simp: f'_def nat_add_distrib min_def)
    fix j assume "j < length (sfifo_contents f')"
    then have j: "int j < sfifo_used f + n" using contents_nth(1) [OF ok, of b'] used u n by (simp add: f'_def)
    define x where "x = (readpos f + int j) mod fifo_size f"
    have x: "0 \<le> x" "x < fifo_size f" using u(4) by (simp_all add: x_def)
    have "(x - writepos f) mod fifo_size f = (int j - sfifo_used f) mod fifo_size f"
    proof -
      obtain k where k: "fifo_size f = 2 ^ k" using assms(1) by (auto simp: sfifo_ok_def)
      show ?thesis unfolding x_def used_mod [OF k] by (simp add: mod_diff_right_eq mod_diff_left_eq algebra_simps)
    qed
    also have "\<dots> = (if sfifo_used f \<le> int j then int j - sfifo_used f else int j - sfifo_used f + fifo_size f)"
      using wrap_mod(1) [of "int j" "fifo_size f" "sfifo_used f"] u j n by simp
    finally have d: "(x - writepos f) mod fifo_size f = (if sfifo_used f \<le> int j then int j - sfifo_used f else int j - sfifo_used f + fifo_size f)" .
    have "sfifo_contents f' ! j = b' ! nat x"
      using contents_nth(2) [OF ok, of b' j] j used by (simp add: f'_def x_def zless_nat_eq_int_zless)
    also have "\<dots> = (if sfifo_used f \<le> int j then buf ! nat (int j - sfifo_used f) else b ! nat x)"
      using w(5) [OF x] d j n by auto
    also have "\<dots> = (sfifo_contents f @ take (nat n) buf) ! j"
      using contents_nth(1) [OF assms(1) w(1)] contents_nth(2) [OF assms(1) w(1), of j] j n u by (auto simp: nth_append x_def nat_diff_distrib nat_less_iff nat_le_iff)
    finally show "sfifo_contents f' ! j = (sfifo_contents f @ take (nat n) buf) ! j" .
  qed
  then show ?thesis using w(4) ok unfolding n_def [symmetric] f'_def [symmetric] by (auto simp: f'_def)
qed

lemma read_facts:
  assumes "sfifo_ok f" "0 \<le> len"
  shows "\<exists>f'. sfifo_read f len = Inr (min len (sfifo_used f), take (nat (min len (sfifo_used f))) (sfifo_contents f), f') \<and>
     sfifo_ok f' \<and> fifo_size f' = fifo_size f \<and> sfifo_contents f' = drop (nat (min len (sfifo_used f))) (sfifo_contents f)"
proof -
  define n where "n = min len (sfifo_used f)"
  obtain b k where b: "fifo_buffer f = Some b" "fifo_size f = 2 ^ k" "int (length b) = fifo_size f"
      "0 \<le> readpos f" "readpos f \<le> fifo_size f" "0 \<le> writepos f" "writepos f \<le> fifo_size f"
    using assms(1) by (auto simp: sfifo_ok_def)
  note u = used_cases [OF assms(1)]
  have n: "0 \<le> n" "n \<le> sfifo_used f" "n < fifo_size f" using u assms(2) by (simp_all add: n_def)
  define f' where "f' = f\<lparr>readpos := (if readpos f + n > fifo_size f then readpos f + n - fifo_size f else readpos f + n)\<rparr>"
  define out where "out = (if readpos f + n > fifo_size f
     then take (nat (fifo_size f - readpos f)) (drop (nat (readpos f)) b) @ take (nat (n - (fifo_size f - readpos f))) b
     else take (nat n) (drop (nat (readpos f)) b))"
  have w: "sfifo_read f len = Inr (n, out, f')"
    using b(1) by (simp add: sfifo_read_def Let_def n_def out_def f'_def min_def algebra_simps)
  have ok: "sfifo_ok f'" using assms(1) n b by (auto simp: sfifo_ok_def f'_def)
  have used: "sfifo_used f' = sfifo_used f - n"
    using used_cases(1) [OF ok] u n b(4-7) by (auto simp: f'_def split: if_splits)
  have "out = take (nat n) (sfifo_contents f)"
  proof (rule nth_equalityI)
    show l: "length out = length (take (nat n) (sfifo_contents f))"
      using contents_nth(1) [OF assms(1) b(1)] n b(3-5) by (auto simp: out_def min_def nat_le_iff nat_less_iff)
    fix j assume "j < length out"
    then have j: "int j < n" using l by auto
    then have "int j < fifo_size f" using n(3) by simp
    then have "(readpos f + int j) mod fifo_size f = (if int j + readpos f < fifo_size f then int j + readpos f else int j + readpos f - fifo_size f)"
      using wrap_mod(2) [of "int j" "fifo_size f" "readpos f"] b(4,5) by (simp add: add.commute)
    then have "sfifo_contents f ! j = b ! nat (if int j + readpos f < fifo_size f then int j + readpos f else int j + readpos f - fifo_size f)"
      using contents_nth(2) [OF assms(1) b(1), of j] j n(2) by (simp add: zless_nat_eq_int_zless)
    moreover have nb: "nat (fifo_size f) = length b" using b(3) by linarith
    have "out ! j = b ! nat (if int j + readpos f < fifo_size f then int j + readpos f else int j + readpos f - fifo_size f)"
      using j n b(3-5) nb by (auto simp: out_def nth_append nat_less_iff nat_le_iff nat_add_distrib nat_diff_distrib add.commute)
    ultimately show "out ! j = take (nat n) (sfifo_contents f) ! j" using j by (simp add: zless_nat_eq_int_zless)
  qed
  moreover have "sfifo_contents f' = drop (nat n) (sfifo_contents f)"
  proof (rule nth_equalityI)
    show l: "length (sfifo_contents f') = length (drop (nat n) (sfifo_contents f))"
      using contents_nth(1) [OF ok, of b] contents_nth(1) [OF assms(1) b(1)] used n b(1) by (simp add: f'_def nat_diff_distrib)
    fix j assume "j < length (sfifo_contents f')"
    then have j: "int j < sfifo_used f - n" using contents_nth(1) [OF ok, of b] used b(1) by (simp add: f'_def)
    have "(readpos f' + int j) mod fifo_size f = (readpos f + int (nat n + j)) mod fifo_size f"
      using n(1) by (auto simp: f'_def algebra_simps mod_diff_left_eq intro: mod_add_self1)
    then show "sfifo_contents f' ! j = drop (nat n) (sfifo_contents f) ! j"
      using contents_nth(2) [OF ok, of b j] contents_nth [OF assms(1) b(1)] j used n b(1)
      by (simp add: f'_def zless_nat_eq_int_zless nth_drop)
  qed
  ultimately show ?thesis using w ok unfolding n_def [symmetric] by (auto simp: f'_def)
qed

section \<open>What writer and reader rely on\<close>

locale byte_queue =
  fixes put :: "'q \<Rightarrow> u8 list \<Rightarrow> int \<Rightarrow> errno + int \<times> 'q"
    and get :: "'q \<Rightarrow> int \<Rightarrow> errno + int \<times> u8 list \<times> 'q"
    and contents :: "'q \<Rightarrow> u8 list" and ok :: "'q \<Rightarrow> bool" and space :: "'q \<Rightarrow> int" and capacity :: "'q \<Rightarrow> int"
  assumes put_law: "ok q \<Longrightarrow> 0 \<le> len \<Longrightarrow> len \<le> int (length bs) \<Longrightarrow>
      \<exists>q'. put q bs len = Inr (min len (space q), q') \<and> ok q' \<and> capacity q' = capacity q \<and>
         contents q' = contents q @ take (nat (min len (space q))) bs"
    and get_law: "ok q \<Longrightarrow> 0 \<le> len \<Longrightarrow>
      \<exists>q'. get q len = Inr (min len (int (length (contents q))), take (nat (min len (int (length (contents q))))) (contents q), q') \<and>
         ok q' \<and> capacity q' = capacity q \<and> contents q' = drop (nat (min len (int (length (contents q))))) (contents q)"
    and space_law: "ok q \<Longrightarrow> space q = capacity q - int (length (contents q)) \<and> 0 \<le> space q"

datatype queue_op = Write "u8 list" | Read int

text \<open>The bytes taken and the bytes given back by a sequence of calls; \<open>None\<close> when one fails.\<close>

fun queue_run ::
  "('q \<Rightarrow> u8 list \<Rightarrow> int \<Rightarrow> errno + int \<times> 'q) \<Rightarrow> ('q \<Rightarrow> int \<Rightarrow> errno + int \<times> u8 list \<times> 'q) \<Rightarrow>
   queue_op list \<Rightarrow> 'q \<Rightarrow> (u8 list \<times> u8 list \<times> 'q) option" where
  "queue_run w r [] q = Some ([], [], q)"
| "queue_run w r (Write bs # ops) q =
    (case w q bs (int (length bs)) of
       Inl e \<Rightarrow> None
     | Inr (n, q') \<Rightarrow> map_option (\<lambda>(taken, given, q''). (take (nat n) bs @ taken, given, q'')) (queue_run w r ops q'))"
| "queue_run w r (Read len # ops) q =
    (case r q len of
       Inl e \<Rightarrow> None
     | Inr (n, out, q') \<Rightarrow> map_option (\<lambda>(taken, given, q''). (taken, out @ given, q'')) (queue_run w r ops q'))"

fun op_ok :: "queue_op \<Rightarrow> bool" where
  "op_ok (Write bs) = True"
| "op_ok (Read len) = (0 \<le> len)"

context byte_queue
begin

lemma run_in_order:
  assumes "ok q" "list_all op_ok ops"
  shows "\<exists>taken given q'. queue_run put get ops q = Some (taken, given, q') \<and> ok q' \<and> capacity q' = capacity q \<and>
    contents q @ taken = given @ contents q' \<and> int (length (contents q')) \<le> capacity q"
  using assms
proof (induction ops arbitrary: q)
  case Nil
  then show ?case using space_law [of q] by simp
next
  case (Cons x ops)
  show ?case
  proof (cases x)
    case (Write bs)
    obtain q1 where q1: "put q bs (int (length bs)) = Inr (min (int (length bs)) (space q), q1)" "ok q1" "capacity q1 = capacity q"
      "contents q1 = contents q @ take (nat (min (int (length bs)) (space q))) bs"
      using put_law [OF Cons.prems(1), of "int (length bs)" bs] by auto
    from Cons.IH [OF q1(2)] Cons.prems(2) obtain taken given q' where
      "queue_run put get ops q1 = Some (taken, given, q')" "ok q'" "capacity q' = capacity q1"
      "contents q1 @ taken = given @ contents q'" "int (length (contents q')) \<le> capacity q1" by auto
    then show ?thesis using q1 Write by simp
  next
    case (Read len)
    obtain q1 where q1: "get q len = Inr (min len (int (length (contents q))), take (nat (min len (int (length (contents q))))) (contents q), q1)"
      "ok q1" "capacity q1 = capacity q" "contents q1 = drop (nat (min len (int (length (contents q))))) (contents q)"
      using get_law [OF Cons.prems(1), of len] Cons.prems(2) Read by auto
    from Cons.IH [OF q1(2)] Cons.prems(2) obtain taken given q' where
      i: "queue_run put get ops q1 = Some (taken, given, q')" "ok q'" "capacity q' = capacity q1"
      "contents q1 @ taken = given @ contents q'" "int (length (contents q')) \<le> capacity q1" by auto
    have "contents q @ taken = take (nat (min len (int (length (contents q))))) (contents q) @ contents q1 @ taken"
      unfolding q1(4) append_assoc [symmetric] append_take_drop_id ..
    then show ?thesis using q1(1-3) Read i by simp
  qed
qed

end

lemma used_contents: "sfifo_ok f \<Longrightarrow> int (length (sfifo_contents f)) = sfifo_used f"
  using used_cases(2) [of f] by (auto simp: sfifo_ok_def sfifo_contents_def)

interpretation fifo: byte_queue sfifo_write sfifo_read sfifo_contents sfifo_ok sfifo_space "\<lambda>f. fifo_size f - 1"
proof
  show "\<exists>q'. sfifo_write q bs len = Inr (min len (sfifo_space q), q') \<and> sfifo_ok q' \<and> fifo_size q' - 1 = fifo_size q - 1 \<and>
      sfifo_contents q' = sfifo_contents q @ take (nat (min len (sfifo_space q))) bs"
    if "sfifo_ok q" "0 \<le> len" "len \<le> int (length bs)" for q bs len
    using write_facts [OF that] by auto
  show "\<exists>q'. sfifo_read q len = Inr (min len (int (length (sfifo_contents q))),
         take (nat (min len (int (length (sfifo_contents q))))) (sfifo_contents q), q') \<and>
         sfifo_ok q' \<and> fifo_size q' - 1 = fifo_size q - 1 \<and>
         sfifo_contents q' = drop (nat (min len (int (length (sfifo_contents q))))) (sfifo_contents q)"
    if "sfifo_ok q" "0 \<le> len" for q len
    using read_facts [OF that] unfolding used_contents [OF that(1)] by auto
  show "sfifo_space q = fifo_size q - 1 - int (length (sfifo_contents q)) \<and> 0 \<le> sfifo_space q" if "sfifo_ok q" for q
    using used_cases(3) [OF that] by (simp add: used_contents [OF that] sfifo_space_def)
qed

section \<open>The properties\<close>

lemma init_fresh:
  assumes "sfifo_init alloc junk req = Some (Inr f)" "req < 2 ^ 30"
  shows "sfifo_ok f" "sfifo_contents f = []" "max req 0 \<le> fifo_size f - 1"
proof -
  obtain m where m: "next_size req 1 = Some (2 ^ m)" "req < 2 ^ m"
    using next_size_ends [OF assms(2), of 0] by auto
  have f: "f = \<lparr>fifo_buffer = Some (map junk [0..<2 ^ m]), fifo_size = 2 ^ m, readpos = 0, writepos = 0\<rparr>"
    using assms(1) m by (simp add: sfifo_init_def nat_power_eq split: if_splits)
  then show ok: "sfifo_ok f" by (auto simp: sfifo_ok_def)
  show "sfifo_contents f = []" using used_cases(1) [OF ok] by (simp add: f sfifo_contents_def)
  show "max req 0 \<le> fifo_size f - 1" using m(2) by (simp add: f)
qed

text \<open>
  C13. The ring buffer is a queue: after initialisation, and whatever writes and reads follow, the
  bytes given back and then the bytes still in the buffer are exactly the bytes taken, in order, and
  never more than the capacity waits.
\<close>

theorem sfifo_in_order:
  assumes "sfifo_init alloc junk req = Some (Inr f)" "req < 2 ^ 30" "list_all op_ok ops"
  shows "\<exists>taken given f'. queue_run sfifo_write sfifo_read ops f = Some (taken, given, f') \<and>
    taken = given @ sfifo_contents f' \<and> int (length (sfifo_contents f')) \<le> fifo_size f - 1 \<and> req \<le> fifo_size f - 1"
  using fifo.run_in_order [OF init_fresh(1) [OF assms(1,2)] assms(3)] init_fresh(2,3) [OF assms(1,2)] by auto

theorem sfifo_in_order_witness:
  "\<exists>taken given f'. queue_run sfifo_write sfifo_read [Write [1, 2, 3], Read 2, Write [4, 5]]
      \<lparr>fifo_buffer = Some (map (\<lambda>_. 0) [0..<4]), fifo_size = 4, readpos = 0, writepos = 0\<rparr> = Some (taken, given, f') \<and>
     taken = given @ sfifo_contents f'"
proof -
  have "next_size 3 1 = Some 4"
    by (simp add: next_size_simps signed_take_bit_int_eq_self)
  then have "sfifo_init (\<lambda>_. True) (\<lambda>_. 0) 3 = Some (Inr \<lparr>fifo_buffer = Some (map (\<lambda>_. 0) [0..<4]), fifo_size = 4, readpos = 0, writepos = 0\<rparr>)"
    by (simp add: sfifo_init_def SFIFO_MAX_BUFFER_SIZE_def)
  from sfifo_in_order [OF this, of "[Write [1, 2, 3], Read 2, Write [4, 5]]"] show ?thesis by auto
qed

text \<open>
  C14. The size computed by \<open>sfifo_init\<close>: for a request below 2 \<open>^\<close> 30 the loop ends with the least
  power of two above it, and initialisation fails only for want of memory. For every larger request the
  check against \<open>SFIFO_MAX_BUFFER_SIZE\<close> lets it pass and the size overflows: the loop does not end.
\<close>

theorem sfifo_init_size:
  "(req < 2 ^ 30 \<longrightarrow> (\<exists>m. next_size req 1 = Some (2 ^ m) \<and> m \<le> 30 \<and> req < 2 ^ m \<and> (m = 0 \<or> 2 ^ (m - 1) \<le> req) \<and>
      sfifo_init alloc junk req = Some (if alloc (2 ^ m)
         then Inr \<lparr>fifo_buffer = Some (map junk [0..<2 ^ m]), fifo_size = 2 ^ m, readpos = 0, writepos = 0\<rparr> else Inl ENOMEM))) \<and>
   (2 ^ 30 \<le> req \<and> req \<le> SFIFO_MAX_BUFFER_SIZE \<longrightarrow> sfifo_init alloc junk req = None)"
proof -
  have "next_size req 1 = None" if "2 ^ 30 \<le> req"
    by (rule next_size_loops [OF that]) (auto simp: size_values_def intro: image_eqI [of _ _ 0])
  moreover have "\<exists>m. next_size req 1 = Some (2 ^ m) \<and> m \<le> 30 \<and> req < 2 ^ m \<and> (m = 0 \<or> 2 ^ (m - 1) \<le> req) \<and>
      sfifo_init alloc junk req = Some (if alloc (2 ^ m)
         then Inr \<lparr>fifo_buffer = Some (map junk [0..<2 ^ m]), fifo_size = 2 ^ m, readpos = 0, writepos = 0\<rparr> else Inl ENOMEM)"
    if r: "req < 2 ^ 30"
  proof -
    obtain m where "next_size req 1 = Some (2 ^ m)" "m \<le> 30" "req < 2 ^ m" "m = 0 \<or> 2 ^ (m - 1) \<le> req"
      using next_size_ends [OF r, of 0] by auto
    then show ?thesis
      using r by (intro exI [of _ m]) (simp add: sfifo_init_def SFIFO_MAX_BUFFER_SIZE_def nat_power_eq)
  qed
  ultimately have "(req < 2 ^ 30 \<longrightarrow> (\<exists>m. next_size req 1 = Some (2 ^ m) \<and> m \<le> 30 \<and> req < 2 ^ m \<and> (m = 0 \<or> 2 ^ (m - 1) \<le> req) \<and>
      sfifo_init alloc junk req = Some (if alloc (2 ^ m)
         then Inr \<lparr>fifo_buffer = Some (map junk [0..<2 ^ m]), fifo_size = 2 ^ m, readpos = 0, writepos = 0\<rparr> else Inl ENOMEM))) \<and> (2 ^ 30 \<le> req \<longrightarrow> next_size req 1 = None)" by blast
  then show ?thesis by (simp add: sfifo_init_def [of alloc junk req] SFIFO_MAX_BUFFER_SIZE_def)
qed

theorem sfifo_init_size_witness:
  "sfifo_init (\<lambda>_. True) (\<lambda>_. 0) 0x40000000 = None"
  using sfifo_init_size [of "0x40000000" "\<lambda>_. True" "\<lambda>_. 0"] by (simp add: SFIFO_MAX_BUFFER_SIZE_def)

end
