(* ===== verification/Flash.thy ===== *)
theory Flash
  imports Prelude "HOL-Library.Sublist"
begin

text \<open>
  The flash chip \<open>peripherals/flash/am29f010.c\<close> and the way the Spectranet reaches it
  (\<open>spectranet_flash_rom_read\<close> and \<open>_write\<close> of \<open>peripherals/spectranet.c\<close>): a state machine over bus
  writes, whose commands erase or program the 128K of memory. An access outside the memory, which C leaves
  undefined, is \<open>None\<close>.
\<close>

section \<open>The chip\<close>

datatype am29f010_flash_state =
  FLASH_STATE_RESET | FLASH_STATE_CYCLE2 | FLASH_STATE_CYCLE3 | FLASH_STATE_CYCLE4 | FLASH_STATE_CYCLE5
| FLASH_STATE_CYCLE6 | FLASH_STATE_PROGRAM | FLASH_STATE_AUTOSELECT

record flash_am29f010_t =
  flash_state :: am29f010_flash_state
  flash_memory :: "u8 list"
  modified :: bool

definition SIZE_OF_FLASH_ROM :: nat where "SIZE_OF_FLASH_ROM = 0x20000"
definition SIZE_OF_FLASH_PAGE :: nat where "SIZE_OF_FLASH_PAGE = 0x4000"

definition flash_am29f010_init :: "u8 list \<Rightarrow> flash_am29f010_t" where
  "flash_am29f010_init m = \<lparr>flash_state = FLASH_STATE_RESET, flash_memory = m, modified = False\<rparr>"

text \<open>\<open>memset( memory + start, b, length )\<close>.\<close>

definition fill :: "nat \<Rightarrow> u8 \<Rightarrow> nat \<Rightarrow> u8 list \<Rightarrow> u8 list option" where
  "fill start b n m = (if start + n \<le> length m then Some (take start m @ replicate n b @ drop (start + n) m) else None)"

definition flash_am29f010_chip_erase :: "flash_am29f010_t \<Rightarrow> flash_am29f010_t option" where
  "flash_am29f010_chip_erase self =
    map_option (\<lambda>m. self\<lparr>flash_memory := m, modified := True\<rparr>) (fill 0 0xff SIZE_OF_FLASH_ROM (flash_memory self))"

definition flash_am29f010_sector_erase :: "flash_am29f010_t \<Rightarrow> u8 \<Rightarrow> flash_am29f010_t option" where
  "flash_am29f010_sector_erase self pg =
    map_option (\<lambda>m. self\<lparr>flash_memory := m, modified := True\<rparr>)
      (fill (unat pg * SIZE_OF_FLASH_PAGE) 0xff SIZE_OF_FLASH_PAGE (flash_memory self))"

definition flash_am29f010_program :: "flash_am29f010_t \<Rightarrow> u8 \<Rightarrow> u16 \<Rightarrow> u8 \<Rightarrow> flash_am29f010_t option" where
  "flash_am29f010_program self pg address b =
    (let flash_offset = unat pg * SIZE_OF_FLASH_PAGE + unat address
     in if flash_offset < length (flash_memory self)
        then Some (self\<lparr>flash_memory := (flash_memory self)[flash_offset := b], modified := True\<rparr>) else None)"

definition flash_am29f010_set_modified :: "flash_am29f010_t \<Rightarrow> bool \<Rightarrow> flash_am29f010_t" where
  "flash_am29f010_set_modified self m = self\<lparr>modified := m\<rparr>"

definition flash_am29f010_read :: "flash_am29f010_t \<Rightarrow> u8 \<Rightarrow> u16 \<Rightarrow> u8 option" where
  "flash_am29f010_read self pg address =
    (if flash_state self = FLASH_STATE_AUTOSELECT
     then (let r = address AND 0xff in Some (if r = 0 then 0x01 else if r = 1 then 0x20 else if r = 2 then 0x00 else 0xff))
     else (let flash_offset = unat pg * SIZE_OF_FLASH_PAGE + unat address
           in if flash_offset < length (flash_memory self) then Some (flash_memory self ! flash_offset) else None))"

definition to_state :: "am29f010_flash_state \<Rightarrow> flash_am29f010_t \<Rightarrow> flash_am29f010_t" where
  "to_state st self = self\<lparr>flash_state := st\<rparr>"

definition flash_command :: "flash_am29f010_t \<Rightarrow> u8 \<Rightarrow> u16 \<Rightarrow> u8 \<Rightarrow> flash_am29f010_t option" where
  "flash_command self pg address b =
    (let flash_address = address AND 0x7ff
     in case flash_state self of
       FLASH_STATE_RESET \<Rightarrow> Some (if flash_address = 0x555 \<and> b = 0xaa then to_state FLASH_STATE_CYCLE2 self else self)
     | FLASH_STATE_CYCLE2 \<Rightarrow> Some (if flash_address = 0x2aa \<and> b = 0x55 then to_state FLASH_STATE_CYCLE3 self else self)
     | FLASH_STATE_CYCLE3 \<Rightarrow> Some (if flash_address = 0x555
         then (if b = 0xa0 then to_state FLASH_STATE_PROGRAM self
               else if b = 0x80 then to_state FLASH_STATE_CYCLE4 self
               else if b = 0x90 then to_state FLASH_STATE_AUTOSELECT self else self)
         else self)
     | FLASH_STATE_CYCLE4 \<Rightarrow> Some (if flash_address = 0x555 \<and> b = 0xaa then to_state FLASH_STATE_CYCLE5 self else self)
     | FLASH_STATE_CYCLE5 \<Rightarrow> Some (if flash_address = 0x2aa \<and> b = 0x55 then to_state FLASH_STATE_CYCLE6 self else self)
     | FLASH_STATE_CYCLE6 \<Rightarrow>
         (if flash_address = 0x555 \<and> b = 0x10 then map_option (to_state FLASH_STATE_RESET) (flash_am29f010_chip_erase self)
          else if b = 0x30 then map_option (to_state FLASH_STATE_RESET) (flash_am29f010_sector_erase self pg)
          else Some self)
     | FLASH_STATE_PROGRAM \<Rightarrow> map_option (to_state FLASH_STATE_RESET) (flash_am29f010_program self pg address b)
     | FLASH_STATE_AUTOSELECT \<Rightarrow> Some self)"

definition flash_am29f010_write :: "flash_am29f010_t \<Rightarrow> u8 \<Rightarrow> u16 \<Rightarrow> u8 \<Rightarrow> flash_am29f010_t option" where
  "flash_am29f010_write self pg address b =
    map_option (\<lambda>s. if b = 0xf0 then to_state FLASH_STATE_RESET s else s) (flash_command self pg address b)"

section \<open>The Spectranet's view of it\<close>

definition SPECTRANET_PAGE_LENGTH :: int where "SPECTRANET_PAGE_LENGTH = 0x1000"
definition SPECTRANET_ROM_LENGTH :: int where "SPECTRANET_ROM_LENGTH = 0x20000"

definition SPECTRANET_LOCAL_ROM_HEADER_LENGTH :: nat where "SPECTRANET_LOCAL_ROM_HEADER_LENGTH = 16"

definition SPECTRANET_LOCAL_ROM_LENGTH :: nat where
  "SPECTRANET_LOCAL_ROM_LENGTH = SPECTRANET_LOCAL_ROM_HEADER_LENGTH + nat SPECTRANET_ROM_LENGTH"

text \<open>
  The file \<open>spectranet.rom\<close> in the configuration directory is part of the state: its bytes, if it
  exists, and whether the system lets it be written.
\<close>

record spectranet_state =
  flash_rom :: flash_am29f010_t
  pageb_page :: int   \<comment> \<open>\<open>spectranet_current_map[2 * MEMORY_PAGES_IN_4K].page_num\<close>\<close>
  rom_path_set :: bool
  source_rom_hash :: u32
  local_file :: "u8 list option"
  can_write :: bool

text \<open>The address in the chip of an address in a 4K page.\<close>

definition flash_place :: "int \<Rightarrow> u16 \<Rightarrow> u8 \<times> u16" where
  "flash_place page_num address =
    (word_of_int (page_num div 4), word_of_int ((page_num mod 4) * SPECTRANET_PAGE_LENGTH + uint (address AND 0xfff)))"

definition spectranet_flash_rom_read :: "int \<Rightarrow> u16 \<Rightarrow> spectranet_state \<Rightarrow> u8 option" where
  "spectranet_flash_rom_read page_num address s =
    (let (flash_page, flash_address) = flash_place page_num address
     in flash_am29f010_read (flash_rom s) flash_page flash_address)"

text \<open>The FNV-1a hash of the ROM file shipped with the program.\<close>

definition spectranet_hash_rom :: "u8 list \<Rightarrow> u32" where
  "spectranet_hash_rom rom = fold (\<lambda>b h. (h XOR ucast b) * 16777619) rom 2166136261"

definition spectranet_write_header_value :: "u32 \<Rightarrow> u8 list" where
  "spectranet_write_header_value value =
    [ucast (drop_bit 24 value), ucast (drop_bit 16 value), ucast (drop_bit 8 value), ucast value]"

definition spectranet_read_header_value :: "u8 list \<Rightarrow> u32" where
  "spectranet_read_header_value buffer =
    push_bit 24 (ucast (buffer ! 0)) OR push_bit 16 (ucast (buffer ! 1)) OR push_bit 8 (ucast (buffer ! 2)) OR ucast (buffer ! 3)"

text \<open>FSNROM01.\<close>

definition rom_magic :: "u8 list" where
  "rom_magic = [0x46, 0x53, 0x4e, 0x52, 0x4f, 0x4d, 0x30, 0x31]"

definition spectranet_local_rom_header_matches :: "u8 list \<Rightarrow> spectranet_state \<Rightarrow> bool" where
  "spectranet_local_rom_header_matches file s \<longleftrightarrow>
    length file = SPECTRANET_LOCAL_ROM_LENGTH \<and> take 8 file = rom_magic \<and>
    spectranet_read_header_value (drop 12 file) = word_of_int SPECTRANET_ROM_LENGTH \<and>
    spectranet_read_header_value (drop 8 file) = source_rom_hash s"

text \<open>The error flag, and the state with the file written.\<close>

definition spectranet_write_local_rom :: "u8 list \<Rightarrow> spectranet_state \<Rightarrow> bool \<times> spectranet_state" where
  "spectranet_write_local_rom rom s =
    (if \<not> rom_path_set s then (True, s)
     else
       (let buffer = rom_magic @ spectranet_write_header_value (source_rom_hash s) @
              spectranet_write_header_value (word_of_int SPECTRANET_ROM_LENGTH) @ take (nat SPECTRANET_ROM_LENGTH) rom
        in if can_write s then (False, s\<lparr>local_file := Some buffer\<rparr>) else (True, s)))"

definition spectranet_save_flash_rom :: "spectranet_state \<Rightarrow> spectranet_state" where
  "spectranet_save_flash_rom s =
    (if \<not> modified (flash_rom s) \<or> \<not> rom_path_set s then s
     else
       (let (error, s1) = spectranet_write_local_rom (flash_memory (flash_rom s)) s
        in if \<not> error then s1\<lparr>flash_rom := flash_am29f010_set_modified (flash_rom s1) False\<rparr> else s1))"

text \<open>\<open>memcpy( rom, bytes, SPECTRANET_ROM_LENGTH )\<close> into the memory of the chip.\<close>

definition put_rom :: "u8 list \<Rightarrow> spectranet_state \<Rightarrow> spectranet_state" where
  "put_rom bs s = s\<lparr>flash_rom := (flash_rom s)\<lparr>flash_memory := take (nat SPECTRANET_ROM_LENGTH) bs\<rparr>\<rparr>"

text \<open>The end of \<open>spectranet_load_flash_rom\<close>: a fresh copy of the ROM, in the chip and in the file.\<close>

definition write_new :: "u8 list \<Rightarrow> spectranet_state \<Rightarrow> bool \<times> spectranet_state" where
  "write_new rom s =
    (let s1 = put_rom rom s
     in if rom_path_set s1
        then (let (error, s2) = spectranet_write_local_rom (flash_memory (flash_rom s1)) s1
              in (True, if error then s2\<lparr>rom_path_set := False\<rparr> else s2))
        else (True, s1))"

text \<open>\<open>config\<close> says whether there is a configuration directory, \<open>auxiliary\<close> is the ROM file shipped.\<close>

definition spectranet_load_flash_rom :: "bool \<Rightarrow> u8 list option \<Rightarrow> spectranet_state \<Rightarrow> bool \<times> spectranet_state" where
  "spectranet_load_flash_rom config auxiliary s =
    (let s1 = s\<lparr>rom_path_set := config\<rparr>;
         loaded = (case auxiliary of None \<Rightarrow> False | Some rom \<Rightarrow> int (length rom) = SPECTRANET_ROM_LENGTH)
     in if loaded then
          (let rom = the auxiliary;
               s2 = s1\<lparr>source_rom_hash := spectranet_hash_rom rom\<rparr>
           in case (if rom_path_set s2 then local_file s2 else None) of
                Some file \<Rightarrow>
                  (if spectranet_local_rom_header_matches file s2
                   then (True, put_rom (drop SPECTRANET_LOCAL_ROM_HEADER_LENGTH file) s2)
                   else write_new rom s2)
              | None \<Rightarrow> write_new rom s2)
        else (False, s1\<lparr>rom_path_set := False\<rparr>))"

definition spectranet_flash_rom_write :: "u16 \<Rightarrow> u8 \<Rightarrow> spectranet_state \<Rightarrow> spectranet_state option" where
  "spectranet_flash_rom_write address b s =
    (if pageb_page s < SPECTRANET_ROM_LENGTH div SPECTRANET_PAGE_LENGTH
     then (let (flash_page, flash_address) = flash_place (pageb_page s) address
           in map_option (\<lambda>f. spectranet_save_flash_rom (s\<lparr>flash_rom := f\<rparr>))
                (flash_am29f010_write (flash_rom s) flash_page flash_address b))
     else Some s)"

section \<open>Commands need their unlock cycles\<close>

type_synonym bus_write = "u8 \<times> u16 \<times> u8"

fun flash_run :: "bus_write list \<Rightarrow> flash_am29f010_t \<Rightarrow> flash_am29f010_t option" where
  "flash_run [] f = Some f"
| "flash_run ((pg, a, b) # ws) f = (case flash_am29f010_write f pg a b of None \<Rightarrow> None | Some f' \<Rightarrow> flash_run ws f')"

definition cycle :: "u16 \<Rightarrow> u8 \<Rightarrow> bus_write \<Rightarrow> bool" where
  "cycle a b w \<longleftrightarrow> (case w of (pg, a', b') \<Rightarrow> a' AND 0x7ff = a \<and> b' = b)"

definition erase_cycle :: "bus_write \<Rightarrow> bool" where
  "erase_cycle w \<longleftrightarrow> cycle 0x555 0x10 w \<or> (case w of (pg, a, b) \<Rightarrow> b = 0x30)"

text \<open>The writes that lead to a state, and the whole commands.\<close>

primrec progress :: "am29f010_flash_state \<Rightarrow> (bus_write \<Rightarrow> bool) list" where
  "progress FLASH_STATE_RESET = []"
| "progress FLASH_STATE_CYCLE2 = [cycle 0x555 0xaa]"
| "progress FLASH_STATE_CYCLE3 = [cycle 0x555 0xaa, cycle 0x2aa 0x55]"
| "progress FLASH_STATE_CYCLE4 = [cycle 0x555 0xaa, cycle 0x2aa 0x55, cycle 0x555 0x80]"
| "progress FLASH_STATE_CYCLE5 = [cycle 0x555 0xaa, cycle 0x2aa 0x55, cycle 0x555 0x80, cycle 0x555 0xaa]"
| "progress FLASH_STATE_CYCLE6 =
     [cycle 0x555 0xaa, cycle 0x2aa 0x55, cycle 0x555 0x80, cycle 0x555 0xaa, cycle 0x2aa 0x55]"
| "progress FLASH_STATE_PROGRAM = [cycle 0x555 0xaa, cycle 0x2aa 0x55, cycle 0x555 0xa0]"
| "progress FLASH_STATE_AUTOSELECT = []"

definition program_command :: "(bus_write \<Rightarrow> bool) list" where
  "program_command = progress FLASH_STATE_PROGRAM @ [\<lambda>w. True]"

definition erase_command :: "(bus_write \<Rightarrow> bool) list" where
  "erase_command = progress FLASH_STATE_CYCLE6 @ [erase_cycle]"

text \<open>Among the writes there are some that match the cycles, in order.\<close>

definition contains :: "(bus_write \<Rightarrow> bool) list \<Rightarrow> bus_write list \<Rightarrow> bool" where
  "contains ps ws \<longleftrightarrow> (\<exists>us. subseq us ws \<and> list_all2 (\<lambda>p w. p w) ps us)"

lemma contains_Nil [simp]: "contains [] ws"
  by (auto simp: contains_def)

lemma contains_more: "contains ps ws \<Longrightarrow> contains ps (ws @ vs)"
  by (auto simp: contains_def intro: subseq_rev_drop_many)

lemma contains_step: "contains ps ws \<Longrightarrow> p w \<Longrightarrow> contains (ps @ [p]) (ws @ [w])"
proof -
  assume "contains ps ws" "p w"
  then obtain us where "subseq us ws" "list_all2 (\<lambda>p w. p w) ps us" by (auto simp: contains_def)
  then have "subseq (us @ [w]) (ws @ [w])" "list_all2 (\<lambda>p w. p w) (ps @ [p]) (us @ [w])"
    using \<open>p w\<close> by (auto intro: list_all2_appendI)
  then show ?thesis unfolding contains_def by blast
qed

lemma flash_run_append: "flash_run (ws @ vs) f = (case flash_run ws f of None \<Rightarrow> None | Some f' \<Rightarrow> flash_run vs f')"
  by (induction ws f rule: flash_run.induct) (auto split: option.splits)

text \<open>One write: the state follows the cycles, and the memory changes only at the end of a command.\<close>

lemma write_progress:
  assumes "flash_am29f010_write f pg a b = Some f'" "contains (progress (flash_state f)) ws"
  shows "contains (progress (flash_state f')) (ws @ [(pg, a, b)])"
    "flash_memory f' \<noteq> flash_memory f \<Longrightarrow> contains program_command (ws @ [(pg, a, b)]) \<or> contains erase_command (ws @ [(pg, a, b)])"
proof -
  have c: "p (pg, a, b) \<Longrightarrow> contains (progress (flash_state f) @ [p]) (ws @ [(pg, a, b)])" for p
    using contains_step [OF assms(2)] .
  have m: "contains (progress (flash_state f)) (ws @ [(pg, a, b)])" by (rule contains_more [OF assms(2)])
  obtain g where g: "flash_command f pg a b = Some g" "f' = (if b = 0xf0 then to_state FLASH_STATE_RESET g else g)"
    using assms(1) by (auto simp: flash_am29f010_write_def)
  have s: "contains (progress (flash_state g)) (ws @ [(pg, a, b)])"
    using g(1) m c [of "cycle 0x555 0xaa"] c [of "cycle 0x2aa 0x55"] c [of "cycle 0x555 0x80"] c [of "cycle 0x555 0xa0"]
    by (cases "flash_state f")
      (auto simp: flash_command_def Let_def to_state_def cycle_def split: if_splits)
  then show "contains (progress (flash_state f')) (ws @ [(pg, a, b)])" using g(2) by (simp add: to_state_def)
  assume "flash_memory f' \<noteq> flash_memory f"
  then have "flash_memory g \<noteq> flash_memory f" using g(2) by (auto simp: to_state_def split: if_splits)
  then have "flash_state f = FLASH_STATE_PROGRAM \<or> flash_state f = FLASH_STATE_CYCLE6 \<and> erase_cycle (pg, a, b)"
    using g(1) by (cases "flash_state f")
      (auto simp: flash_command_def Let_def to_state_def erase_cycle_def cycle_def split: if_splits)
  then show "contains program_command (ws @ [(pg, a, b)]) \<or> contains erase_command (ws @ [(pg, a, b)])"
    using c [of "\<lambda>w. True"] c [of erase_cycle] by (auto simp: program_command_def erase_command_def)
qed

lemma run_progress:
  assumes "flash_run ws f = Some f'" "flash_state f = FLASH_STATE_RESET"
  shows "contains (progress (flash_state f')) ws \<and>
    (flash_memory f' \<noteq> flash_memory f \<longrightarrow> contains program_command ws \<or> contains erase_command ws)"
  using assms(1)
proof (induction ws arbitrary: f' rule: rev_induct)
  case Nil
  then show ?case using assms(2) by simp
next
  case (snoc w ws)
  obtain pg a b where w: "w = (pg, a, b)" by (cases w)
  obtain g where g: "flash_run ws f = Some g" "flash_am29f010_write g pg a b = Some f'"
    using snoc.prems by (auto simp: flash_run_append w split: option.splits)
  note i = snoc.IH [OF g(1)] and s = write_progress [OF g(2)]
  show ?case
  proof (cases "flash_memory f' = flash_memory g")
    case True
    then show ?thesis using i s unfolding w by (auto intro: contains_more)
  next
    case False
    then show ?thesis using i s unfolding w by blast
  qed
qed

section \<open>Places in the chip\<close>

definition flash_offset :: "int \<Rightarrow> u16 \<Rightarrow> nat" where
  "flash_offset page_num address = nat page_num * 0x1000 + unat (address AND 0xfff)"

lemma unat_and_fff: "unat ((a :: u16) AND 0xfff) = unat a mod 0x1000"
proof -
  have "a AND 0xfff = take_bit 12 a" by (simp add: take_bit_eq_mask mask_eq_exp_minus_1)
  moreover have "unat (take_bit 12 a) = take_bit 12 (unat a)" by (rule unsigned_take_bit_eq)
  moreover have "take_bit 12 (unat a) = unat a mod 0x1000" by (simp add: take_bit_eq_mod)
  ultimately show ?thesis by simp
qed

lemma place_bounds:
  assumes "0 \<le> n" "n < 32"
  shows "unat (fst (flash_place n a)) = nat n div 4" "unat (snd (flash_place n a)) = (nat n mod 4) * 0x1000 + unat a mod 0x1000"
    "unat (fst (flash_place n a)) * SIZE_OF_FLASH_PAGE + unat (snd (flash_place n a)) = flash_offset n a" "flash_offset n a < 0x20000"
proof -
  define k where "k = nat n"
  have k: "n = int k" "k < 32" using assms by (simp_all add: k_def)
  have e: "n div 4 = int (k div 4)" "(n mod 4) * 0x1000 + uint (a AND 0xfff) = int ((k mod 4) * 0x1000 + unat a mod 0x1000)"
    by (simp_all add: k zdiv_int zmod_int unat_and_fff [symmetric])
  have p: "fst (flash_place n a) = word_of_nat (k div 4)" "snd (flash_place n a) = word_of_nat ((k mod 4) * 0x1000 + unat a mod 0x1000)"
    unfolding flash_place_def SPECTRANET_PAGE_LENGTH_def e by (simp_all only: fst_conv snd_conv of_int_of_nat_eq)
  have b: "(k mod 4) * 0x1000 + unat a mod 0x1000 < 0x4000" by (simp add: le_less_trans [of _ "3 * 0x1000 + 0xfff"] add_le_mono)
  show u: "unat (fst (flash_place n a)) = nat n div 4" unfolding p(1) using k by (simp add: unat_of_nat)
  show v: "unat (snd (flash_place n a)) = (nat n mod 4) * 0x1000 + unat a mod 0x1000" unfolding p(2) using b k by (simp add: unat_of_nat del: of_nat_add of_nat_mult)
  have "k div 4 * 0x4000 + (k mod 4) * 0x1000 = k * 0x1000" using div_mult_mod_eq [of k 4] by linarith
  then show "unat (fst (flash_place n a)) * SIZE_OF_FLASH_PAGE + unat (snd (flash_place n a)) = flash_offset n a"
    unfolding u v using k by (simp add: SIZE_OF_FLASH_PAGE_def flash_offset_def unat_and_fff)
  have "unat a mod 0x1000 < 0x1000" by simp
  then show "flash_offset n a < 0x20000" using k by (simp add: flash_offset_def unat_and_fff)
qed

section \<open>Programming a byte\<close>

lemma in_chip:
  assumes "length (flash_memory f) = 0x20000" "0 \<le> n" "n < 32" "flash_state f \<noteq> FLASH_STATE_AUTOSELECT"
  shows "flash_am29f010_read f (fst (flash_place n a)) (snd (flash_place n a)) = Some (flash_memory f ! flash_offset n a)"
    "flash_am29f010_program f (fst (flash_place n a)) (snd (flash_place n a)) b =
       Some (f\<lparr>flash_memory := (flash_memory f)[flash_offset n a := b], modified := True\<rparr>)"
  using place_bounds(3,4) [OF assms(2,3), of a] assms(1,4)
  by (simp_all add: flash_am29f010_read_def flash_am29f010_program_def Let_def)

text \<open>The low bits of the address in the chip are those of the address.\<close>

lemma place_low:
  assumes "0 \<le> n" "n < 32"
  shows "unat (snd (flash_place n a) AND 0x7ff) = unat a mod 0x800"
proof -
  have l: "unat (x AND 0x7ff) = unat x mod 0x800" for x :: u16
  proof -
    have "x AND 0x7ff = take_bit 11 x" by (simp add: take_bit_eq_mask mask_eq_exp_minus_1)
    moreover have "unat (take_bit 11 x) = take_bit 11 (unat x)" by (rule unsigned_take_bit_eq)
    moreover have "take_bit 11 (unat x) = unat x mod 0x800" by (simp add: take_bit_eq_mod)
    ultimately show ?thesis by simp
  qed
  have "((nat n mod 4) * 0x1000 + unat a mod 0x1000) mod 0x800 = (unat a mod 0x1000) mod 0x800"
    using mod_mult_self3 [of "(nat n mod 4) * 2" "0x800" "unat a mod 0x1000"] by (simp add: mult.assoc)
  then show ?thesis unfolding l place_bounds(2) [OF assms] by (simp add: mod_mod_cancel)
qed

fun spectranet_run :: "(u16 \<times> u8) list \<Rightarrow> spectranet_state \<Rightarrow> spectranet_state option" where
  "spectranet_run [] s = Some s"
| "spectranet_run ((a, b) # ws) s = (case spectranet_flash_rom_write a b s of None \<Rightarrow> None | Some s' \<Rightarrow> spectranet_run ws s')"

lemma save_frame [simp]:
  "flash_memory (flash_rom (spectranet_save_flash_rom s)) = flash_memory (flash_rom s)"
  "flash_state (flash_rom (spectranet_save_flash_rom s)) = flash_state (flash_rom s)"
  "pageb_page (spectranet_save_flash_rom s) = pageb_page s" "can_write (spectranet_save_flash_rom s) = can_write s"
  "source_rom_hash (spectranet_save_flash_rom s) = source_rom_hash s" "rom_path_set (spectranet_save_flash_rom s) = rom_path_set s"
  by (simp_all add: spectranet_save_flash_rom_def spectranet_write_local_rom_def flash_am29f010_set_modified_def Let_def)

lemma spectranet_cycle:
  assumes "0 \<le> pageb_page s" "pageb_page s < 32" "flash_am29f010_write (flash_rom s) (fst (flash_place (pageb_page s) a)) (snd (flash_place (pageb_page s) a)) b = Some f"
  shows "spectranet_flash_rom_write a b s = Some (spectranet_save_flash_rom (s\<lparr>flash_rom := f\<rparr>))"
  using assms by (simp add: spectranet_flash_rom_write_def SPECTRANET_ROM_LENGTH_def SPECTRANET_PAGE_LENGTH_def case_prod_beta)

lemma unlock_cycle:
  assumes "0 \<le> pageb_page s" "pageb_page s < 32" "b \<noteq> 0xf0"
    "(flash_state (flash_rom s), unat a mod 0x800, b, st) \<in>
      {(FLASH_STATE_RESET, 0x555, 0xaa, FLASH_STATE_CYCLE2), (FLASH_STATE_CYCLE2, 0x2aa, 0x55, FLASH_STATE_CYCLE3),
       (FLASH_STATE_CYCLE3, 0x555, 0xa0, FLASH_STATE_PROGRAM)}"
  shows "spectranet_flash_rom_write a b s = Some (spectranet_save_flash_rom (s\<lparr>flash_rom := to_state st (flash_rom s)\<rparr>))"
proof -
  have e: "unat (w :: u16) = 0x555 \<longleftrightarrow> w = 0x555" "unat w = 0x2aa \<longleftrightarrow> w = 0x2aa" for w
    by (simp_all add: word_unat_eq_iff)
  note l = place_low [OF assms(1,2), of a]
  show ?thesis
    using assms(3,4) l e by (intro spectranet_cycle assms(1,2)) (auto simp: flash_am29f010_write_def flash_command_def Let_def)
qed

text \<open>\<open>(k, a)\<close> is the place of \<open>(n, b)\<close> exactly when page and low address agree.\<close>

lemma offset_eq_iff:
  assumes "0 \<le> n" "0 \<le> k" shows "flash_offset n a = flash_offset k b \<longleftrightarrow> n = k \<and> a AND 0xfff = b AND 0xfff"
proof -
  have key: "x < 0x1000 \<Longrightarrow> y < 0x1000 \<Longrightarrow> p * 0x1000 + x = q * 0x1000 + y \<longleftrightarrow> p = q \<and> x = y" for x y p q :: nat
  proof -
    assume "x < 0x1000" "y < 0x1000"
    then have "(p * 0x1000 + x) div 0x1000 = p" "(q * 0x1000 + y) div 0x1000 = q" "(p * 0x1000 + x) mod 0x1000 = x" "(q * 0x1000 + y) mod 0x1000 = y"
      by simp_all
    then show ?thesis by metis
  qed
  have "unat (a AND 0xfff) < 0x1000" "unat (b AND 0xfff) < 0x1000" by (simp_all add: unat_and_fff)
  then have "flash_offset n a = flash_offset k b \<longleftrightarrow> nat n = nat k \<and> unat (a AND 0xfff) = unat (b AND 0xfff)"
    unfolding flash_offset_def by (rule key)
  then show ?thesis using assms by (simp add: word_unat_eq_iff eq_nat_nat_iff)
qed

section \<open>The copy in the file\<close>

lemma header_roundtrip:
  "length (spectranet_write_header_value v) = 4" "spectranet_read_header_value (spectranet_write_header_value v @ bs) = v"
  "length bs = 4 \<Longrightarrow> spectranet_write_header_value (spectranet_read_header_value bs) = bs"
proof -
  show "length (spectranet_write_header_value v) = 4" by (simp add: spectranet_write_header_value_def)
  show "spectranet_read_header_value (spectranet_write_header_value v @ bs) = v"
  proof (rule bit_word_eqI)
    fix n assume "n < LENGTH(32)"
    then consider "n < 8" | "8 \<le> n" "n < 16" | "16 \<le> n" "n < 24" | "24 \<le> n" "n < 32" by fastforce
    then show "bit (spectranet_read_header_value (spectranet_write_header_value v @ bs)) n = bit v n"
      by cases (auto simp: spectranet_read_header_value_def spectranet_write_header_value_def bit_simps)
  qed
  assume "length bs = 4"
  then obtain a b c d where bs: "bs = [a, b, c, d]" by (auto simp: numeral_eq_Suc length_Suc_conv)
  show "spectranet_write_header_value (spectranet_read_header_value bs) = bs"
    unfolding bs spectranet_read_header_value_def spectranet_write_header_value_def
    by (simp, intro conjI; rule u8_eqI) (auto simp: bit_simps dest: bit_imp_le_length)
qed

definition rom_image :: "u32 \<Rightarrow> u8 list \<Rightarrow> u8 list" where
  "rom_image h m = rom_magic @ spectranet_write_header_value h @ spectranet_write_header_value (word_of_int SPECTRANET_ROM_LENGTH) @ m"

lemma image_facts:
  assumes "length m = 0x20000"
  shows "length (rom_image h m) = SPECTRANET_LOCAL_ROM_LENGTH" "drop SPECTRANET_LOCAL_ROM_HEADER_LENGTH (rom_image h m) = m"
    "spectranet_local_rom_header_matches (rom_image h m) s \<longleftrightarrow> h = source_rom_hash s"
  using assms header_roundtrip(1) [of h] header_roundtrip(1) [of "word_of_int SPECTRANET_ROM_LENGTH"]
    header_roundtrip(2) [of h] header_roundtrip(2) [of "word_of_int SPECTRANET_ROM_LENGTH"]
  by (simp_all add: rom_image_def SPECTRANET_LOCAL_ROM_LENGTH_def SPECTRANET_LOCAL_ROM_HEADER_LENGTH_def SPECTRANET_ROM_LENGTH_def
      rom_magic_def spectranet_local_rom_header_matches_def)

lemma image_of_file:
  assumes "spectranet_local_rom_header_matches file s"
  shows "file = rom_image (source_rom_hash s) (drop SPECTRANET_LOCAL_ROM_HEADER_LENGTH file)"
    "length (drop SPECTRANET_LOCAL_ROM_HEADER_LENGTH file) = 0x20000"
proof -
  have f: "length file = 0x20010" "take 8 file = rom_magic" "spectranet_read_header_value (drop 12 file) = word_of_int SPECTRANET_ROM_LENGTH"
    "spectranet_read_header_value (drop 8 file) = source_rom_hash s"
    using assms by (simp_all add: spectranet_local_rom_header_matches_def SPECTRANET_LOCAL_ROM_LENGTH_def
        SPECTRANET_LOCAL_ROM_HEADER_LENGTH_def SPECTRANET_ROM_LENGTH_def)
  have h: "spectranet_write_header_value (spectranet_read_header_value bs) = take 4 bs" if "4 \<le> length bs" for bs
  proof -
    have "spectranet_read_header_value bs = spectranet_read_header_value (take 4 bs)" using that by (simp add: spectranet_read_header_value_def)
    then show ?thesis using header_roundtrip(3) [of "take 4 bs"] that by simp
  qed
  have "take 4 (drop 8 file) = spectranet_write_header_value (source_rom_hash s)"
    "take 4 (drop 12 file) = spectranet_write_header_value (word_of_int SPECTRANET_ROM_LENGTH)"
    using h [of "drop 8 file"] h [of "drop 12 file"] f(1,3,4) by simp_all
  moreover have "file = take 8 file @ take 4 (drop 8 file) @ take 4 (drop 12 file) @ drop 16 file"
    using append_take_drop_id [of 8 "file"] append_take_drop_id [of 4 "drop 8 file"] append_take_drop_id [of 4 "drop 12 file"] by simp
  ultimately show "file = rom_image (source_rom_hash s) (drop SPECTRANET_LOCAL_ROM_HEADER_LENGTH file)"
    using f(2) by (simp add: rom_image_def SPECTRANET_LOCAL_ROM_HEADER_LENGTH_def)
  show "length (drop SPECTRANET_LOCAL_ROM_HEADER_LENGTH file) = 0x20000"
    using f(1) by (simp add: SPECTRANET_LOCAL_ROM_HEADER_LENGTH_def)
qed

text \<open>The file holds the memory, or the chip knows that it does not yet.\<close>

definition synced :: "u32 \<Rightarrow> spectranet_state \<Rightarrow> bool" where
  "synced h s \<longleftrightarrow> rom_path_set s \<and> can_write s \<and> source_rom_hash s = h \<and> length (flash_memory (flash_rom s)) = 0x20000 \<and>
     \<not> modified (flash_rom s) \<and> local_file s = Some (rom_image h (flash_memory (flash_rom s)))"

lemma write_local_image:
  assumes "rom_path_set s" "can_write s" "length m = 0x20000"
  shows "spectranet_write_local_rom m s = (False, s\<lparr>local_file := Some (rom_image (source_rom_hash s) m)\<rparr>)"
  using assms by (simp add: spectranet_write_local_rom_def rom_image_def SPECTRANET_ROM_LENGTH_def)

lemma load_synced:
  assumes "length rom = 0x20000" "can_write s" "\<not> modified (flash_rom s)"
  shows "fst (spectranet_load_flash_rom True (Some rom) s)" 
    "synced (spectranet_hash_rom rom) (snd (spectranet_load_flash_rom True (Some rom) s))"
proof -
  define s2 where "s2 = s\<lparr>rom_path_set := True, source_rom_hash := spectranet_hash_rom rom\<rparr>"
  have n: "fst (write_new rom s2)" "synced (spectranet_hash_rom rom) (snd (write_new rom s2))"
    using assms write_local_image [of "put_rom rom s2" rom]
    by (simp_all add: write_new_def put_rom_def s2_def synced_def SPECTRANET_ROM_LENGTH_def Let_def)
  have l: "spectranet_load_flash_rom True (Some rom) s = (case local_file s of
       Some file \<Rightarrow> (if spectranet_local_rom_header_matches file s2
                   then (True, put_rom (drop SPECTRANET_LOCAL_ROM_HEADER_LENGTH file) s2) else write_new rom s2)
     | None \<Rightarrow> write_new rom s2)"
    using assms(1) unfolding s2_def by (simp add: spectranet_load_flash_rom_def Let_def SPECTRANET_ROM_LENGTH_def)
  have f: "synced (spectranet_hash_rom rom) (put_rom (drop SPECTRANET_LOCAL_ROM_HEADER_LENGTH fl) s2)"
    if "local_file s = Some fl" "spectranet_local_rom_header_matches fl s2" for fl
    using image_of_file [OF that(2)] that(1) assms by (simp add: synced_def put_rom_def s2_def SPECTRANET_ROM_LENGTH_def)
  show "fst (spectranet_load_flash_rom True (Some rom) s)" 
    "synced (spectranet_hash_rom rom) (snd (spectranet_load_flash_rom True (Some rom) s))"
    unfolding l using n f by (auto split: option.splits)
qed

lemma fill_length: "fill a b n m = Some m' \<Longrightarrow> length m' = length m"
  by (auto simp: fill_def split: if_splits)

lemma write_modified:
  assumes "flash_am29f010_write f pg a b = Some f'"
  shows "length (flash_memory f') = length (flash_memory f)"
    "\<not> modified f' \<Longrightarrow> \<not> modified f \<and> flash_memory f' = flash_memory f"
  using assms fill_length
  by (cases "flash_state f"; fastforce simp: flash_am29f010_write_def flash_command_def to_state_def Let_def
      flash_am29f010_chip_erase_def flash_am29f010_sector_erase_def flash_am29f010_program_def split: if_splits)+

lemma write_synced:
  assumes "synced h s" "spectranet_flash_rom_write a b s = Some s'"
  shows "synced h s'"
proof (cases "pageb_page s < SPECTRANET_ROM_LENGTH div SPECTRANET_PAGE_LENGTH")
  case False
  then show ?thesis using assms by (simp add: spectranet_flash_rom_write_def)
next
  case True
  obtain pg a' f where f: "flash_am29f010_write (flash_rom s) pg a' b = Some f" "s' = spectranet_save_flash_rom (s\<lparr>flash_rom := f\<rparr>)"
    using assms(2) True by (auto simp: spectranet_flash_rom_write_def split: prod.splits)
  have l: "length (flash_memory f) = 0x20000" using write_modified(1) [OF f(1)] assms(1) by (simp add: synced_def)
  show ?thesis
  proof (cases "modified f")
    case False
    then show ?thesis using write_modified(2) [OF f(1)] assms(1) f(2) by (simp add: synced_def spectranet_save_flash_rom_def)
  next
    case True
    then show ?thesis
      using write_local_image [of "s\<lparr>flash_rom := f\<rparr>" "flash_memory f"] assms(1) f(2) l
      by (simp add: synced_def spectranet_save_flash_rom_def flash_am29f010_set_modified_def)
  qed
qed

lemma run_synced: "synced h s \<Longrightarrow> spectranet_run ws s = Some s' \<Longrightarrow> synced h s'"
  by (induction ws s rule: spectranet_run.induct) (auto split: option.splits intro: write_synced)

lemma reload_synced:
  assumes "synced (spectranet_hash_rom rom) s" "length rom = 0x20000"
  shows "flash_memory (flash_rom (snd (spectranet_load_flash_rom True (Some rom)
      (t\<lparr>local_file := local_file s\<rparr>)))) = flash_memory (flash_rom s)"
  using assms image_facts(2,3) [of "flash_memory (flash_rom s)"]
  by (simp add: spectranet_load_flash_rom_def Let_def synced_def SPECTRANET_ROM_LENGTH_def put_rom_def)

section \<open>The properties\<close>

text \<open>
  C15. The chip erases or programs only on command: when any sequence of bus writes changes the memory of a
  chip that was idle, some of these writes are, in order, the unlock cycles and the last cycle of a
  program command or of an erase command.
\<close>

theorem flash_needs_unlock:
  assumes "flash_run ws f = Some f'" "flash_state f = FLASH_STATE_RESET" "flash_memory f' \<noteq> flash_memory f"
  shows "contains program_command ws \<or> contains erase_command ws"
  using run_progress [OF assms(1,2)] assms(3) by blast

definition demo_chip :: flash_am29f010_t where
  "demo_chip = flash_am29f010_init [1, 2]"

theorem flash_needs_unlock_witness:
  "contains program_command [(0, 0x555, 0xaa), (0, 9, 9), (0, 0x2aa, 0x55), (0, 0x555, 0xa0), (0, 1, 7)] \<or>
   contains erase_command [(0, 0x555, 0xaa), (0, 9, 9), (0, 0x2aa, 0x55), (0, 0x555, 0xa0), (0, 1, 7)]"
proof (rule flash_needs_unlock)
  show "flash_run [(0, 0x555, 0xaa), (0, 9, 9), (0, 0x2aa, 0x55), (0, 0x555, 0xa0), (0, 1, 7)] demo_chip =
      Some \<lparr>flash_state = FLASH_STATE_RESET, flash_memory = [1, 7], modified = True\<rparr>"
    by (simp add: demo_chip_def flash_am29f010_init_def flash_am29f010_write_def flash_command_def to_state_def Let_def
        flash_am29f010_program_def)
qed (simp_all add: demo_chip_def flash_am29f010_init_def)

text \<open>
  C16. Programming through the Spectranet: with the chip idle and a flash page in page B, the three unlock
  cycles and a write program that byte. Every flash page then reads as before at every address, except the
  byte written at that address of that page.
\<close>

theorem flash_program_roundtrip:
  assumes "flash_state (flash_rom s) = FLASH_STATE_RESET" "length (flash_memory (flash_rom s)) = 0x20000"
    "0 \<le> pageb_page s" "pageb_page s < 32" "0 \<le> n" "n < 32"
  shows "\<exists>s'. spectranet_run [(0x2555, 0xaa), (0x22aa, 0x55), (0x2555, 0xa0), (a, b)] s = Some s' \<and>
    spectranet_flash_rom_read n a' s' =
      (if n = pageb_page s \<and> a' AND 0xfff = a AND 0xfff then Some b else spectranet_flash_rom_read n a' s)"
proof -
  obtain s1 where s1: "spectranet_flash_rom_write 0x2555 0xaa s = Some s1" "flash_state (flash_rom s1) = FLASH_STATE_CYCLE2"
      "pageb_page s1 = pageb_page s" "flash_memory (flash_rom s1) = flash_memory (flash_rom s)"
    using unlock_cycle [of s "0xaa" "0x2555" FLASH_STATE_CYCLE2] assms(1,3,4) by (simp add: to_state_def)
  obtain s2 where s2: "spectranet_flash_rom_write 0x22aa 0x55 s1 = Some s2" "flash_state (flash_rom s2) = FLASH_STATE_CYCLE3"
      "pageb_page s2 = pageb_page s" "flash_memory (flash_rom s2) = flash_memory (flash_rom s)"
    using unlock_cycle [of s1 "0x55" "0x22aa" FLASH_STATE_CYCLE3] s1 assms(3,4) by (simp add: to_state_def)
  obtain s3 where s3: "spectranet_flash_rom_write 0x2555 0xa0 s2 = Some s3" "flash_state (flash_rom s3) = FLASH_STATE_PROGRAM"
      "pageb_page s3 = pageb_page s" "flash_memory (flash_rom s3) = flash_memory (flash_rom s)"
    using unlock_cycle [of s2 "0xa0" "0x2555" FLASH_STATE_PROGRAM] s2 assms(3,4) by (simp add: to_state_def)
  have "flash_am29f010_write (flash_rom s3) (fst (flash_place (pageb_page s3) a)) (snd (flash_place (pageb_page s3) a)) b =
      Some (to_state FLASH_STATE_RESET ((flash_rom s3)\<lparr>flash_memory := (flash_memory (flash_rom s))[flash_offset (pageb_page s) a := b], modified := True\<rparr>))"
    using in_chip(2) [of "flash_rom s3" "pageb_page s" a b] s3 assms(2-4)
    by (simp add: flash_am29f010_write_def flash_command_def Let_def to_state_def)
  from spectranet_cycle [OF _ _ this] obtain s4 where s4: "spectranet_flash_rom_write a b s3 = Some s4"
      "flash_state (flash_rom s4) = FLASH_STATE_RESET"
      "flash_memory (flash_rom s4) = (flash_memory (flash_rom s))[flash_offset (pageb_page s) a := b]"
    using s3(3) assms(3,4) by (simp add: to_state_def)
  have "spectranet_flash_rom_read n a' s4 =
      (if n = pageb_page s \<and> a' AND 0xfff = a AND 0xfff then Some b else spectranet_flash_rom_read n a' s)"
    using in_chip(1) [of "flash_rom s4" n a'] in_chip(1) [of "flash_rom s" n a'] s4(2,3) assms place_bounds(4) [OF assms(3,4), of a]
      offset_eq_iff [OF assms(5,3), of a' a]
    by (auto simp: spectranet_flash_rom_read_def case_prod_beta nth_list_update)
  then show ?thesis using s1(1) s2(1) s3(1) s4(1) by simp
qed

definition demo_spectranet :: spectranet_state where
  "demo_spectranet = \<lparr>flash_rom = flash_am29f010_init (replicate 0x20000 0xff), pageb_page = 5, rom_path_set = False,
     source_rom_hash = 0, local_file = None, can_write = True\<rparr>"

theorem flash_program_roundtrip_witness:
  "\<exists>s'. spectranet_run [(0x2555, 0xaa), (0x22aa, 0x55), (0x2555, 0xa0), (0x2123, 0x42)] demo_spectranet = Some s' \<and>
    spectranet_flash_rom_read 5 0x1123 s' = Some 0x42"
  using flash_program_roundtrip [of demo_spectranet 5 "0x2123" "0x42" "0x1123"]
  by (simp add: demo_spectranet_def flash_am29f010_init_def)

text \<open>
  C17. What is programmed persists: after the ROM has been loaded and any writes to the flash have been
  made, loading the same ROM again, in a later session that finds the file, gives the same memory. It
  takes a writable file in the configuration directory and a ROM of the right length.
\<close>

theorem flash_persists:
  assumes "length rom = 0x20000" "can_write s" "\<not> modified (flash_rom s)"
    "spectranet_run ws (snd (spectranet_load_flash_rom True (Some rom) s)) = Some s'"
  shows "flash_memory (flash_rom (snd (spectranet_load_flash_rom True (Some rom) (t\<lparr>local_file := local_file s'\<rparr>)))) =
    flash_memory (flash_rom s')"
  using reload_synced [OF run_synced [OF load_synced(2) [OF assms(1-3)] assms(4)] assms(1)] .

theorem flash_persists_witness:
  "\<exists>s'. spectranet_run [(0x2555, 0xaa)] (snd (spectranet_load_flash_rom True (Some (replicate 0x20000 0)) demo_spectranet)) = Some s' \<and>
     flash_memory (flash_rom (snd (spectranet_load_flash_rom True (Some (replicate 0x20000 0)) (demo_spectranet\<lparr>local_file := local_file s'\<rparr>)))) =
     flash_memory (flash_rom s')"
proof -
  define rom where "rom = replicate 0x20000 (0 :: u8)"
  define s1 where "s1 = snd (spectranet_load_flash_rom True (Some rom) demo_spectranet)"
  have l: "length rom = 0x20000" by (simp add: rom_def)
  have d: "can_write demo_spectranet" "\<not> modified (flash_rom demo_spectranet)" "local_file demo_spectranet = None"
      "pageb_page demo_spectranet = 5" "flash_state (flash_rom demo_spectranet) = FLASH_STATE_RESET"
    by (simp_all add: demo_spectranet_def flash_am29f010_init_def)
  have s1: "pageb_page s1 = 5" "flash_state (flash_rom s1) = FLASH_STATE_RESET"
    using l d by (simp_all add: s1_def spectranet_load_flash_rom_def write_new_def put_rom_def spectranet_write_local_rom_def
        SPECTRANET_ROM_LENGTH_def Let_def)
  obtain s' where s': "spectranet_run [(0x2555, 0xaa)] s1 = Some s'"
    using unlock_cycle [of s1 "0xaa" "0x2555" FLASH_STATE_CYCLE2] s1 by simp
  from flash_persists [OF l d(1,2) s' [unfolded s1_def], of demo_spectranet] s' show ?thesis
    unfolding rom_def s1_def by blast
qed

end
