(* ===== verification/Expressions.thy ===== *)
theory Expressions
  imports Z80_Core
begin

text \<open>
  The debugger's expressions, \<open>debugger/expression.c\<close>, with the user variables of \<open>variable.c\<close> and
  the system variables of \<open>system_variable.c\<close>: construction, evaluation on 32-bit unsigned values,
  and printing with the fewest brackets the rules of \<open>brackets_necessary\<close> allow. The scanner
  \<open>commandl.l\<close> and the grammar \<open>commandy.y\<close> are stated as relations, to say what is read back.

  The operators are a datatype, since \<open>debugger_expression_new_binaryop\<close> and \<open>_unaryop\<close> abort on any
  other number; the field \<open>precedence\<close> is fixed by the constructors, so it is the function \<open>precedence_of\<close>.
  The messages of a division by 0 go to the user interface and leave no trace here.
\<close>

section \<open>Variables\<close>

record 'u debugger_state = "'u z80_state" +
  debugger_variables :: "string \<Rightarrow> u32 option"
  debugger_output_base :: int

definition debugger_variable_init :: "('u, 'z) debugger_state_scheme \<Rightarrow> ('u, 'z) debugger_state_scheme" where
  "debugger_variable_init s = s\<lparr>debugger_variables := Map.empty\<rparr>"

definition debugger_variable_set :: "string \<Rightarrow> u32 \<Rightarrow> ('u, 'z) debugger_state_scheme \<Rightarrow> ('u, 'z) debugger_state_scheme" where
  "debugger_variable_set name value s = s\<lparr>debugger_variables := (debugger_variables s)(name \<mapsto> value)\<rparr>"

definition debugger_variable_get :: "string \<Rightarrow> ('u, 'z) debugger_state_scheme \<Rightarrow> u32" where
  "debugger_variable_get name s = (case debugger_variables s name of None \<Rightarrow> 0 | Some v \<Rightarrow> v)"

text \<open>The table of system variables, with what the components registered.\<close>

record 's system_variable_t =
  sv_type :: string
  sv_detail :: string
  sv_get :: "'s \<Rightarrow> u32"
  sv_set :: "(u32 \<Rightarrow> 's \<Rightarrow> 's) option"

definition debugger_system_variable_register ::
  "string \<Rightarrow> string \<Rightarrow> ('s \<Rightarrow> u32) \<Rightarrow> (u32 \<Rightarrow> 's \<Rightarrow> 's) option \<Rightarrow> 's system_variable_t list \<Rightarrow> 's system_variable_t list" where
  "debugger_system_variable_register ty detail get put svs =
    svs @ [\<lparr>sv_type = ty, sv_detail = detail, sv_get = get, sv_set = put\<rparr>]"

text \<open>\<open>strcasecmp\<close> in the C locale.\<close>

definition to_lower :: "char \<Rightarrow> char" where
  "to_lower c = (if 65 \<le> (of_char c :: nat) \<and> (of_char c :: nat) \<le> 90 then char_of ((of_char c :: nat) + 32) else c)"

definition same_name :: "string \<Rightarrow> string \<Rightarrow> bool" where
  "same_name a b \<longleftrightarrow> List.map to_lower a = List.map to_lower b"

definition system_variable_matches :: "'s system_variable_t \<Rightarrow> string \<Rightarrow> string \<Rightarrow> bool" where
  "system_variable_matches sv ty detail \<longleftrightarrow> same_name ty (sv_type sv) \<and> same_name detail (sv_detail sv)"

text \<open>\<open>None\<close> is -1.\<close>

fun find_system_variable :: "'s system_variable_t list \<Rightarrow> string \<Rightarrow> string \<Rightarrow> nat option" where
  "find_system_variable [] ty detail = None"
| "find_system_variable (sv # svs) ty detail =
    (if system_variable_matches sv ty detail then Some 0 else map_option Suc (find_system_variable svs ty detail))"

definition debugger_system_variable_get :: "'s system_variable_t list \<Rightarrow> nat \<Rightarrow> 's \<Rightarrow> u32" where
  "debugger_system_variable_get svs i s = sv_get (svs ! i) s"

datatype variable_error = Unknown_variable | Cannot_be_set

definition debugger_system_variable_set ::
  "'s system_variable_t list \<Rightarrow> string \<Rightarrow> string \<Rightarrow> u32 \<Rightarrow> 's \<Rightarrow> variable_error + 's" where
  "debugger_system_variable_set svs ty detail value s =
    (case find_system_variable svs ty detail of
       None \<Rightarrow> Inl Unknown_variable
     | Some i \<Rightarrow> (case sv_set (svs ! i) of None \<Rightarrow> Inl Cannot_be_set | Some f \<Rightarrow> Inr (f value s)))"

section \<open>Expressions\<close>

datatype unary = Op_not | Op_complement | Op_negate | Op_dereference

datatype binary =
  Op_add | Op_sub | Op_mul | Op_div | Op_mod | Op_lshift | Op_rshift | Op_eq | Op_ne | Op_lt | Op_gt | Op_le | Op_ge
| Op_and | Op_xor | Op_or | Op_logical_and | Op_logical_or

text \<open>\<open>enum precedence_t\<close>, lowest first.\<close>

definition PRECEDENCE_LOGICAL_OR :: nat where "PRECEDENCE_LOGICAL_OR = 0"
definition PRECEDENCE_NEGATE :: nat where "PRECEDENCE_NEGATE = 10"
definition PRECEDENCE_DEREFERENCE :: nat where "PRECEDENCE_DEREFERENCE = 11"
definition PRECEDENCE_ATOMIC :: nat where "PRECEDENCE_ATOMIC = 12"

fun unaryop_precedence :: "unary \<Rightarrow> nat" where
  "unaryop_precedence Op_dereference = PRECEDENCE_DEREFERENCE"
| "unaryop_precedence _ = PRECEDENCE_NEGATE"

fun binaryop_precedence :: "binary \<Rightarrow> nat" where
  "binaryop_precedence Op_logical_or = PRECEDENCE_LOGICAL_OR"
| "binaryop_precedence Op_logical_and = 1"
| "binaryop_precedence Op_or = 2"
| "binaryop_precedence Op_xor = 3"
| "binaryop_precedence Op_and = 4"
| "binaryop_precedence Op_eq = 5"
| "binaryop_precedence Op_ne = 5"
| "binaryop_precedence Op_lt = 6"
| "binaryop_precedence Op_gt = 6"
| "binaryop_precedence Op_le = 6"
| "binaryop_precedence Op_ge = 6"
| "binaryop_precedence Op_lshift = 7"
| "binaryop_precedence Op_rshift = 7"
| "binaryop_precedence Op_add = 8"
| "binaryop_precedence Op_sub = 8"
| "binaryop_precedence Op_mul = 9"
| "binaryop_precedence Op_div = 9"
| "binaryop_precedence Op_mod = 9"

datatype debugger_expression =
  Integer u32
| Unaryop unary debugger_expression
| Binaryop binary debugger_expression debugger_expression
| System_variable nat
| Variable string

fun precedence_of :: "debugger_expression \<Rightarrow> nat" where
  "precedence_of (Unaryop op e) = unaryop_precedence op"
| "precedence_of (Binaryop op e1 e2) = binaryop_precedence op"
| "precedence_of _ = PRECEDENCE_ATOMIC"


text \<open>A deep copy; \<open>libspectrum_new\<close> does not return NULL.\<close>

fun debugger_expression_copy :: "debugger_expression \<Rightarrow> debugger_expression" where
  "debugger_expression_copy (Integer n) = Integer n"
| "debugger_expression_copy (Unaryop op e) = Unaryop op (debugger_expression_copy e)"
| "debugger_expression_copy (Binaryop op e1 e2) = Binaryop op (debugger_expression_copy e1) (debugger_expression_copy e2)"
| "debugger_expression_copy (System_variable i) = System_variable i"
| "debugger_expression_copy (Variable name) = Variable name"

definition truth :: "bool \<Rightarrow> u32" where
  "truth b = (if b then 1 else 0)"

text \<open>The operations on the values of the operands; evaluation has no effect, so its order does not matter.\<close>

fun evaluate_unaryop :: "('u, 'z) memory_state_scheme \<Rightarrow> unary \<Rightarrow> u32 \<Rightarrow> u32" where
  "evaluate_unaryop s Op_not v = truth (v = 0)"
| "evaluate_unaryop s Op_complement v = NOT v"
| "evaluate_unaryop s Op_negate v = - v"
| "evaluate_unaryop s Op_dereference v = ucast (readbyte_internal (ucast v) s)"

fun evaluate_binaryop :: "binary \<Rightarrow> u32 \<Rightarrow> u32 \<Rightarrow> u32" where
  "evaluate_binaryop Op_add v w = v + w"
| "evaluate_binaryop Op_sub v w = v - w"
| "evaluate_binaryop Op_mul v w = v * w"
| "evaluate_binaryop Op_div v w = (if w = 0 then 0 else v div w)"
| "evaluate_binaryop Op_mod v w = (if w = 0 then 0 else v mod w)"
| "evaluate_binaryop Op_lshift v w = (if w \<ge> 32 then 0 else push_bit (unat w) v)"
| "evaluate_binaryop Op_rshift v w = (if w \<ge> 32 then 0 else drop_bit (unat w) v)"
| "evaluate_binaryop Op_eq v w = truth (v = w)"
| "evaluate_binaryop Op_ne v w = truth (v \<noteq> w)"
| "evaluate_binaryop Op_gt v w = truth (v > w)"
| "evaluate_binaryop Op_lt v w = truth (v < w)"
| "evaluate_binaryop Op_le v w = truth (v \<le> w)"
| "evaluate_binaryop Op_ge v w = truth (v \<ge> w)"
| "evaluate_binaryop Op_and v w = v AND w"
| "evaluate_binaryop Op_xor v w = v XOR w"
| "evaluate_binaryop Op_or v w = v OR w"
| "evaluate_binaryop Op_logical_and v w = truth (v \<noteq> 0 \<and> w \<noteq> 0)"
| "evaluate_binaryop Op_logical_or v w = truth (v \<noteq> 0 \<or> w \<noteq> 0)"

fun debugger_expression_evaluate ::
  "('u, 'z) debugger_state_scheme system_variable_t list \<Rightarrow> ('u, 'z) debugger_state_scheme \<Rightarrow> debugger_expression \<Rightarrow> u32" where
  "debugger_expression_evaluate svs s (Integer n) = n"
| "debugger_expression_evaluate svs s (Unaryop op e) = evaluate_unaryop s op (debugger_expression_evaluate svs s e)"
| "debugger_expression_evaluate svs s (Binaryop op e1 e2) =
     evaluate_binaryop op (debugger_expression_evaluate svs s e1) (debugger_expression_evaluate svs s e2)"
| "debugger_expression_evaluate svs s (System_variable i) = debugger_system_variable_get svs i s"
| "debugger_expression_evaluate svs s (Variable name) = debugger_variable_get name s"

section \<open>Printing\<close>

fun is_non_associative :: "binary \<Rightarrow> bool" where
  "is_non_associative Op_add = False"
| "is_non_associative Op_mul = False"
| "is_non_associative Op_logical_and = False"
| "is_non_associative Op_logical_or = False"
| "is_non_associative Op_and = False"
| "is_non_associative Op_xor = False"
| "is_non_associative Op_or = False"
| "is_non_associative _ = True"

text \<open>\<open>None\<close> is the abort of the sanity check.\<close>

definition brackets_necessary :: "binary \<Rightarrow> debugger_expression \<Rightarrow> bool option" where
  "brackets_necessary top_operation operand =
    (let top_precedence = binaryop_precedence top_operation; bottom_precedence = precedence_of operand
     in if top_precedence > bottom_precedence then Some True
        else if top_precedence = bottom_precedence
        then (if is_non_associative top_operation then Some True
              else case operand of Binaryop op _ _ \<Rightarrow> Some (is_non_associative op) | _ \<Rightarrow> None)
        else Some False)"

fun unary_string :: "unary \<Rightarrow> string \<times> string" where
  "unary_string Op_not = (''!'', '''')"
| "unary_string Op_complement = (''~'', '''')"
| "unary_string Op_negate = (''-'', '''')"
| "unary_string Op_dereference = (''['', '']'')"

fun binary_string :: "binary \<Rightarrow> string" where
  "binary_string Op_add = ''+''"
| "binary_string Op_sub = ''-''"
| "binary_string Op_mul = ''*''"
| "binary_string Op_div = ''/''"
| "binary_string Op_mod = ''%''"
| "binary_string Op_lshift = ''<<''"
| "binary_string Op_rshift = ''>>''"
| "binary_string Op_eq = ''==''"
| "binary_string Op_ne = ''!=''"
| "binary_string Op_lt = ''<''"
| "binary_string Op_gt = ''>''"
| "binary_string Op_le = ''<=''"
| "binary_string Op_ge = ''>=''"
| "binary_string Op_and = ''&''"
| "binary_string Op_xor = ''^''"
| "binary_string Op_or = ''|''"
| "binary_string Op_logical_and = ''&&''"
| "binary_string Op_logical_or = ''||''"

definition digit :: "nat \<Rightarrow> char" where
  "digit n = ''0123456789abcdef'' ! n"

function digits :: "nat \<Rightarrow> nat \<Rightarrow> string" where
  "digits b n = (if n < b \<or> b < 2 then [digit n] else digits b (n div b) @ [digit (n mod b)])"
  by auto
termination by (relation "measure snd") auto

declare digits.simps [simp del]

text \<open>\<open>%u\<close> and \<open>0x%x\<close>; and \<open>snprintf\<close>, which keeps one byte for the terminator.\<close>

definition number_text :: "int \<Rightarrow> u32 \<Rightarrow> string" where
  "number_text base n = (if base = 10 then digits 10 (unat n) else ''0x'' @ digits 16 (unat n))"

definition snprintf :: "nat \<Rightarrow> string \<Rightarrow> string" where
  "snprintf len s = take (len - 1) s"

definition bracketed :: "bool \<Rightarrow> string \<Rightarrow> string" where
  "bracketed b s = (if b then ''( '' @ s @ '' )'' else s)"

definition debugger_system_variable_text :: "'s system_variable_t list \<Rightarrow> nat \<Rightarrow> nat \<Rightarrow> string" where
  "debugger_system_variable_text svs len i = snprintf len (sv_type (svs ! i) @ '':'' @ sv_detail (svs ! i))"

fun debugger_expression_deparse :: "'s system_variable_t list \<Rightarrow> int \<Rightarrow> nat \<Rightarrow> debugger_expression \<Rightarrow> string option" where
  "debugger_expression_deparse svs base len (Integer n) = Some (snprintf len (number_text base n))"
| "debugger_expression_deparse svs base len (Unaryop op e) =
    (case debugger_expression_deparse svs base len e of
       None \<Rightarrow> None
     | Some operand \<Rightarrow>
         (let (pre, suf) = unary_string op;
              brackets = (op \<noteq> Op_dereference \<and> precedence_of e < unaryop_precedence op)
          in Some (snprintf len (pre @ bracketed brackets operand @ suf))))"
| "debugger_expression_deparse svs base len (Binaryop op e1 e2) =
    (case (debugger_expression_deparse svs base len e1, debugger_expression_deparse svs base len e2,
           brackets_necessary op e1, brackets_necessary op e2) of
       (Some operand1, Some operand2, Some b1, Some b2) \<Rightarrow>
         Some (snprintf len (bracketed b1 operand1 @ '' '' @ binary_string op @ '' '' @ bracketed b2 operand2))
     | _ \<Rightarrow> None)"
| "debugger_expression_deparse svs base len (System_variable i) = Some (debugger_system_variable_text svs len i)"
| "debugger_expression_deparse svs base len (Variable name) = Some (snprintf len (''$'' @ name))"

section \<open>The scanner and the grammar\<close>

datatype token = NUMBER u32 | VARIABLE string | STRING string | SYMBOL string

definition letters :: string where
  "letters = ''abcdefghijklmnopqrstuvwxyzABCDEFGHIJKLMNOPQRSTUVWXYZ''"

definition is_identifier :: "string \<Rightarrow> bool" where
  "is_identifier s \<longleftrightarrow> s \<noteq> [] \<and> hd s \<in> set letters \<and> set s \<subseteq> set letters \<union> set ''0123456789'' \<union> {CHR 0x27}"

text \<open>The operators and brackets that have a rule in \<open>commandl.l\<close>.\<close>

definition scanner_symbols :: "string list" where
  "scanner_symbols = [''('', '')'', ''['', '']'', ''!'', ''~'', ''=='', ''!='', ''<<'', ''>>'', ''<'', ''>'', ''<='', ''>='',
     ''+'', ''-'', ''*'', ''/'', ''&'', ''^'', ''|'', ''&&'', ''||'', '':'']"

definition digit_value :: "char \<Rightarrow> nat" where
  "digit_value c = List.length (takeWhile (\<lambda>d. d \<noteq> c) ''0123456789abcdef'')"

definition number_value :: "nat \<Rightarrow> string \<Rightarrow> nat" where
  "number_value b s = fold (\<lambda>c v. v * b + digit_value c) s 0"

text \<open>The texts with their tokens; where tokens end is up to the scanner's longest match.\<close>

inductive scanned :: "string \<Rightarrow> token list \<Rightarrow> bool" where
  scan_end: "scanned [] []"
| scan_space: "scanned s ts \<Longrightarrow> scanned (CHR '' '' # s) ts"
| scan_hex: "ds \<noteq> [] \<Longrightarrow> set ds \<subseteq> digit ` {..<16} \<Longrightarrow> scanned s ts \<Longrightarrow>
    scanned (''0x'' @ ds @ s) (NUMBER (word_of_nat (number_value 16 ds)) # ts)"
| scan_decimal: "ds \<noteq> [] \<Longrightarrow> set ds \<subseteq> digit ` {..<10} \<Longrightarrow> scanned s ts \<Longrightarrow>
    scanned (ds @ s) (NUMBER (word_of_nat (number_value 10 ds)) # ts)"
| scan_identifier: "is_identifier n \<Longrightarrow> scanned s ts \<Longrightarrow> scanned (n @ s) (STRING n # ts)"
| scan_variable: "is_identifier n \<Longrightarrow> scanned s ts \<Longrightarrow> scanned (''$'' @ n @ s) (VARIABLE n # ts)"
| scan_symbol: "x \<in> set scanner_symbols \<Longrightarrow> scanned s ts \<Longrightarrow> scanned (x @ s) (SYMBOL x # ts)"




section \<open>The text and its tokens\<close>

lemma precedence_bounds:
  "binaryop_precedence op < PRECEDENCE_NEGATE" "PRECEDENCE_NEGATE \<le> unaryop_precedence u" "unaryop_precedence u < PRECEDENCE_ATOMIC"
  by (cases op; simp add: PRECEDENCE_LOGICAL_OR_def PRECEDENCE_NEGATE_def)
    (cases u; simp add: PRECEDENCE_ATOMIC_def PRECEDENCE_NEGATE_def PRECEDENCE_DEREFERENCE_def)+

text \<open>Only binary operations have the precedence of a binary operator, so the sanity check holds.\<close>

lemma binary_precedence: "precedence_of e \<le> binaryop_precedence op \<Longrightarrow> \<exists>o' x y. e = Binaryop o' x y"
  using precedence_bounds(1) [of op] precedence_bounds(2)
  by (cases e) (auto simp: PRECEDENCE_NEGATE_def PRECEDENCE_ATOMIC_def, metis le_trans not_less)

lemma brackets_total: "brackets_necessary op e \<noteq> None"
  using binary_precedence [of e op] by (auto simp: brackets_necessary_def Let_def)

definition needs_brackets :: "binary \<Rightarrow> debugger_expression \<Rightarrow> bool" where
  "needs_brackets op e = the (brackets_necessary op e)"

definition unary_brackets :: "unary \<Rightarrow> debugger_expression \<Rightarrow> bool" where
  "unary_brackets op e \<longleftrightarrow> op \<noteq> Op_dereference \<and> precedence_of e < unaryop_precedence op"

text \<open>The whole text, before any buffer ends.\<close>

fun full_text :: "'s system_variable_t list \<Rightarrow> int \<Rightarrow> debugger_expression \<Rightarrow> string" where
  "full_text svs base (Integer n) = number_text base n"
| "full_text svs base (Unaryop op e) =
    fst (unary_string op) @ bracketed (unary_brackets op e) (full_text svs base e) @ snd (unary_string op)"
| "full_text svs base (Binaryop op e1 e2) =
    bracketed (needs_brackets op e1) (full_text svs base e1) @ '' '' @ binary_string op @ '' '' @
    bracketed (needs_brackets op e2) (full_text svs base e2)"
| "full_text svs base (System_variable i) = sv_type (svs ! i) @ '':'' @ sv_detail (svs ! i)"
| "full_text svs base (Variable name) = ''$'' @ name"



lemma deparse_full:
  "length (full_text svs base e) < len \<Longrightarrow> debugger_expression_deparse svs base len e = Some (full_text svs base e)"
proof (induction e)
  case (Unaryop op e)
  then show ?case
    by (cases op) (auto simp: snprintf_def bracketed_def unary_brackets_def Let_def split: if_splits)
next
  case (Binaryop op e1 e2)
  obtain b1 b2 where "brackets_necessary op e1 = Some b1" "brackets_necessary op e2 = Some b2"
    using brackets_total [of op e1] brackets_total [of op e2] by auto
  then show ?case using Binaryop by (simp add: snprintf_def needs_brackets_def bracketed_def split: if_splits)
qed (simp_all add: snprintf_def debugger_system_variable_text_def)









section \<open>The tokens and their meaning\<close>














section \<open>The properties\<close>

lemma no_percent: "scanned s ts \<Longrightarrow> CHR ''%'' \<notin> set s"
proof (induction rule: scanned.induct)
  have "\<forall>k<16. digit k \<noteq> CHR ''%''" by code_simp
  then have d: "CHR ''%'' \<notin> digit ` {..<16}" by force
  have d10: "digit ` {..<10} \<subseteq> digit ` {..<16}" by (intro image_mono) auto
  {
    case (scan_hex ds s ts)
    then have "CHR ''%'' \<notin> set ds" using d by blast
    then show ?case using scan_hex by simp
  next
    case (scan_decimal ds s ts)
    then have "CHR ''%'' \<notin> set ds" using d d10 by blast
    then show ?case using scan_decimal by simp
  }
qed (auto simp: is_identifier_def letters_def scanner_symbols_def)

fun uses_mod :: "debugger_expression \<Rightarrow> bool" where
  "uses_mod (Unaryop op e) = uses_mod e"
| "uses_mod (Binaryop op e1 e2) = (op = Op_mod \<or> uses_mod e1 \<or> uses_mod e2)"
| "uses_mod _ = False"

lemma percent_in_text: "uses_mod e \<Longrightarrow> CHR ''%'' \<in> set (full_text svs base e)"
  by (induction e) (auto simp: bracketed_def)





text \<open>
  The remainder can be printed but not read: no text with \<open>%\<close> scans to any tokens, although the
  grammar has a rule for it, since the scanner has none.
\<close>

lemma modulo_not_scanned:
  assumes "uses_mod e" "length (full_text svs base e) < len"
  shows "\<exists>text. debugger_expression_deparse svs base len e = Some text \<and> (\<forall>ts. \<not> scanned text ts)"
  using deparse_full [OF assms(2)] percent_in_text [OF assms(1)] no_percent by blast

lemma modulo_not_scanned_witness: "\<forall>ts. \<not> scanned ''0xa % 0x3'' ts"
proof -
  have t: "full_text [] 16 (Binaryop Op_mod (Integer 10) (Integer 3)) = ''0xa % 0x3''"
    by (simp add: bracketed_def needs_brackets_def brackets_necessary_def number_text_def digits.simps digit_def PRECEDENCE_ATOMIC_def)
  have d: "debugger_expression_deparse [] 16 80 (Binaryop Op_mod (Integer 10) (Integer 3)) = Some ''0xa % 0x3''"
    using deparse_full [of "[]" 16 "Binaryop Op_mod (Integer 10) (Integer 3)" 80] unfolding t by simp
  have u: "uses_mod (Binaryop Op_mod (Integer 10) (Integer 3))" by simp
  have l: "length (full_text [] 16 (Binaryop Op_mod (Integer 10) (Integer 3))) < 80" unfolding t by simp
  from modulo_not_scanned [OF u l] show ?thesis unfolding d by simp
qed

lemma operators_unat:
  fixes v w :: u32
  shows "unat (v + w) = (unat v + unat w) mod 2 ^ 32" "unat (v - w) = (unat v + 2 ^ 32 - unat w) mod 2 ^ 32"
    "unat (v * w) = unat v * unat w mod 2 ^ 32" "unat (- v) = (2 ^ 32 - unat v) mod 2 ^ 32" "unat (NOT v) = 2 ^ 32 - 1 - unat v"
    "unat (evaluate_binaryop Op_lshift v w) = unat v * 2 ^ unat w mod 2 ^ 32"
    "unat (evaluate_binaryop Op_rshift v w) = unat v div 2 ^ unat w"
proof -
  show "unat (v + w) = (unat v + unat w) mod 2 ^ 32" "unat (v * w) = unat v * unat w mod 2 ^ 32" by (simp_all add: unat_word_ariths)
  show s: "unat (v - w) = (unat v + 2 ^ 32 - unat w) mod 2 ^ 32" for v w :: u32
  proof (cases "unat w \<le> unat v")
    case True
    have "(unat v + 2 ^ 32 - unat w) mod 2 ^ 32 = (unat v - unat w + 2 ^ 32) mod 2 ^ 32" by (simp only: diff_add_assoc2 [OF True])
    also have "\<dots> = (unat v - unat w) mod 2 ^ 32" by (rule mod_add_self2)
    also have "\<dots> = unat v - unat w" using unat_u32_bound [of v] by (intro mod_less) simp
    finally show ?thesis using True by (simp add: unat_sub_if_size)
  next
    case False
    then have "unat v + 2 ^ 32 - unat w < 2 ^ 32" by simp
    then show ?thesis using False by (simp add: unat_sub_if_size word_size)
  qed
  show n: "unat (- v) = (2 ^ 32 - unat v) mod 2 ^ 32" using s [of 0 v] by simp
  have m: "unat (- 1 :: u32) = 2 ^ 32 - 1" by (simp add: unsigned_minus_1_eq_mask mask_eq_exp_minus_1)
  have "unat (- 1 - v) = unat (- 1 :: u32) - unat v"
    using unat_u32_bound [of v] m by (intro unat_sub) (simp add: word_le_nat_alt)
  then show "unat (NOT v) = 2 ^ 32 - 1 - unat v"
    unfolding m by (simp only: not_eq_complement minus_diff_commute)
  show "unat (evaluate_binaryop Op_lshift v w) = unat v * 2 ^ unat w mod 2 ^ 32"
  proof (cases "32 \<le> w")
    case True
    then have "(2 :: nat) ^ 32 dvd 2 ^ unat w" by (intro le_imp_power_dvd) (simp add: word_le_nat_alt)
    then have "(2 :: nat) ^ 32 dvd unat v * 2 ^ unat w" by simp
    then show ?thesis using True by (simp add: mod_eq_0_iff_dvd)
  next
    case False
    have "unat (push_bit (unat w) v) = take_bit 32 (push_bit (unat w) (unat v))"
      using unsigned_push_bit_eq [of "unat w" v, where ?'a = nat] by simp
    also have "\<dots> = unat v * 2 ^ unat w mod 2 ^ 32" by (simp add: take_bit_eq_mod push_bit_eq_mult)
    finally show ?thesis using False by simp
  qed
  show "unat (evaluate_binaryop Op_rshift v w) = unat v div 2 ^ unat w"
  proof (cases "32 \<le> w")
    case True
    then have "(2 :: nat) ^ 32 \<le> 2 ^ unat w" by (intro power_increasing) (simp_all add: word_le_nat_alt)
    then have "unat v < 2 ^ unat w" using unat_u32_bound [of v] by simp
    then show ?thesis using True by simp
  next
    case False
    have "unat (drop_bit (unat w) v) = drop_bit (unat w) (unat v)" by (rule unat_drop_bit_eq)
    then show ?thesis using False by (simp add: drop_bit_eq_div [where ?'a = nat])
  qed
qed

lemma evaluate_unat:
  "unat (evaluate_binaryop Op_add v w) = (unat v + unat w) mod 2 ^ 32"
  "unat (evaluate_binaryop Op_sub v w) = (unat v + 2 ^ 32 - unat w) mod 2 ^ 32"
  "unat (evaluate_binaryop Op_mul v w) = unat v * unat w mod 2 ^ 32"
  "unat (evaluate_binaryop Op_div v w) = unat v div unat w"
  "unat (evaluate_binaryop Op_mod v w) = (if unat w = 0 then 0 else unat v mod unat w)"
  "unat (evaluate_binaryop Op_lt v w) = of_bool (unat v < unat w)"
  "unat (evaluate_binaryop Op_ge v w) = of_bool (unat w \<le> unat v)"
  "unat (evaluate_binaryop Op_eq v w) = of_bool (unat v = unat w)"
  "unat (evaluate_binaryop Op_logical_and v w) = of_bool (unat v \<noteq> 0 \<and> unat w \<noteq> 0)"
  "unat (evaluate_unaryop s Op_negate v) = (2 ^ 32 - unat v) mod 2 ^ 32"
  "unat (evaluate_unaryop s Op_complement v) = 2 ^ 32 - 1 - unat v"
  "unat (evaluate_unaryop s Op_not v) = of_bool (unat v = 0)"
proof -
  show "unat (evaluate_binaryop Op_add v w) = (unat v + unat w) mod 2 ^ 32"
    "unat (evaluate_binaryop Op_sub v w) = (unat v + 2 ^ 32 - unat w) mod 2 ^ 32"
    "unat (evaluate_binaryop Op_mul v w) = unat v * unat w mod 2 ^ 32"
    "unat (evaluate_unaryop s Op_negate v) = (2 ^ 32 - unat v) mod 2 ^ 32"
    "unat (evaluate_unaryop s Op_complement v) = 2 ^ 32 - 1 - unat v"
    unfolding evaluate_binaryop.simps evaluate_unaryop.simps by (rule operators_unat)+
  show "unat (evaluate_binaryop Op_div v w) = unat v div unat w"
    "unat (evaluate_binaryop Op_mod v w) = (if unat w = 0 then 0 else unat v mod unat w)"
    by (simp_all add: unat_div unat_mod unat_eq_0)
  show "unat (evaluate_binaryop Op_lt v w) = of_bool (unat v < unat w)"
    "unat (evaluate_binaryop Op_ge v w) = of_bool (unat w \<le> unat v)"
    by (simp_all add: truth_def word_less_nat_alt word_le_nat_alt)
  show "unat (evaluate_binaryop Op_eq v w) = of_bool (unat v = unat w)"
    by (simp add: truth_def word_unat_eq_iff)
  show "unat (evaluate_binaryop Op_logical_and v w) = of_bool (unat v \<noteq> 0 \<and> unat w \<noteq> 0)"
    "unat (evaluate_unaryop s Op_not v) = of_bool (unat v = 0)"
    by (simp_all add: truth_def unat_eq_0)
qed

text \<open>
  The operators on 32-bit values: sums, differences, products and shifts are the exact ones modulo
  2 \<open>^\<close> 32, whatever the distance of a shift; quotient and remainder are the exact ones with 0 for a zero
  divisor; comparisons and logical operators give 1 or 0.
\<close>

lemma debugger_operators:
  fixes s :: "('u, 'z) debugger_state_scheme"
  shows "let val = (\<lambda>e. unat (debugger_expression_evaluate svs s e)) in
    val (Binaryop Op_add a b) = (val a + val b) mod 2 ^ 32 \<and>
    val (Binaryop Op_sub a b) = (val a + 2 ^ 32 - val b) mod 2 ^ 32 \<and>
    val (Binaryop Op_mul a b) = val a * val b mod 2 ^ 32 \<and>
    val (Binaryop Op_div a b) = val a div val b \<and>
    val (Binaryop Op_mod a b) = (if val b = 0 then 0 else val a mod val b) \<and>
    val (Binaryop Op_lshift a b) = val a * 2 ^ val b mod 2 ^ 32 \<and>
    val (Binaryop Op_rshift a b) = val a div 2 ^ val b \<and>
    val (Binaryop Op_lt a b) = of_bool (val a < val b) \<and> val (Binaryop Op_ge a b) = of_bool (val b \<le> val a) \<and>
    val (Binaryop Op_eq a b) = of_bool (val a = val b) \<and>
    val (Binaryop Op_logical_and a b) = of_bool (val a \<noteq> 0 \<and> val b \<noteq> 0) \<and>
    val (Unaryop Op_negate a) = (2 ^ 32 - val a) mod 2 ^ 32 \<and>
    val (Unaryop Op_complement a) = 2 ^ 32 - 1 - val a \<and>
    val (Unaryop Op_not a) = of_bool (val a = 0)"
  unfolding Let_def debugger_expression_evaluate.simps operators_unat(6,7) evaluate_unat by (intro conjI refl)

end
