(* ===== verification/Z80_Variables.thy ===== *)
theory Z80_Variables
  imports Expressions
begin

text \<open>
  The registers of the processor as system variables of the debugger,
  \<open>z80/z80_debugger_variables.c\<close>: a getter and a setter for each, registered in the order of the code.
  Values are 32 bits wide; a setter keeps what fits the register. \<open>WZ\<close> is a second name of MEMPTR.
\<close>

definition z80_registers :: "(string \<times> (processor \<Rightarrow> u32) \<times> (u32 \<Rightarrow> processor \<Rightarrow> processor)) list" where
  "z80_registers =
    [(''a'', \<lambda>p. ucast (hi (AF p)), \<lambda>v p. p\<lparr>AF := mkw (ucast v) (lo (AF p))\<rparr>),
     (''b'', \<lambda>p. ucast (hi (BC p)), \<lambda>v p. p\<lparr>BC := mkw (ucast v) (lo (BC p))\<rparr>),
     (''c'', \<lambda>p. ucast (lo (BC p)), \<lambda>v p. p\<lparr>BC := mkw (hi (BC p)) (ucast v)\<rparr>),
     (''d'', \<lambda>p. ucast (hi (DE p)), \<lambda>v p. p\<lparr>DE := mkw (ucast v) (lo (DE p))\<rparr>),
     (''e'', \<lambda>p. ucast (lo (DE p)), \<lambda>v p. p\<lparr>DE := mkw (hi (DE p)) (ucast v)\<rparr>),
     (''f'', \<lambda>p. ucast (lo (AF p)), \<lambda>v p. p\<lparr>AF := mkw (hi (AF p)) (ucast v)\<rparr>),
     (''h'', \<lambda>p. ucast (hi (HL p)), \<lambda>v p. p\<lparr>HL := mkw (ucast v) (lo (HL p))\<rparr>),
     (''l'', \<lambda>p. ucast (lo (HL p)), \<lambda>v p. p\<lparr>HL := mkw (hi (HL p)) (ucast v)\<rparr>),
     (''a'' @ [CHR 0x27], \<lambda>p. ucast (hi (AF2 p)), \<lambda>v p. p\<lparr>AF2 := mkw (ucast v) (lo (AF2 p))\<rparr>),
     (''b'' @ [CHR 0x27], \<lambda>p. ucast (hi (BC2 p)), \<lambda>v p. p\<lparr>BC2 := mkw (ucast v) (lo (BC2 p))\<rparr>),
     (''c'' @ [CHR 0x27], \<lambda>p. ucast (lo (BC2 p)), \<lambda>v p. p\<lparr>BC2 := mkw (hi (BC2 p)) (ucast v)\<rparr>),
     (''d'' @ [CHR 0x27], \<lambda>p. ucast (hi (DE2 p)), \<lambda>v p. p\<lparr>DE2 := mkw (ucast v) (lo (DE2 p))\<rparr>),
     (''e'' @ [CHR 0x27], \<lambda>p. ucast (lo (DE2 p)), \<lambda>v p. p\<lparr>DE2 := mkw (hi (DE2 p)) (ucast v)\<rparr>),
     (''f'' @ [CHR 0x27], \<lambda>p. ucast (lo (AF2 p)), \<lambda>v p. p\<lparr>AF2 := mkw (hi (AF2 p)) (ucast v)\<rparr>),
     (''h'' @ [CHR 0x27], \<lambda>p. ucast (hi (HL2 p)), \<lambda>v p. p\<lparr>HL2 := mkw (ucast v) (lo (HL2 p))\<rparr>),
     (''l'' @ [CHR 0x27], \<lambda>p. ucast (lo (HL2 p)), \<lambda>v p. p\<lparr>HL2 := mkw (hi (HL2 p)) (ucast v)\<rparr>),
     (''af'', \<lambda>p. ucast (AF p), \<lambda>v p. p\<lparr>AF := ucast v\<rparr>),
     (''bc'', \<lambda>p. ucast (BC p), \<lambda>v p. p\<lparr>BC := ucast v\<rparr>),
     (''de'', \<lambda>p. ucast (DE p), \<lambda>v p. p\<lparr>DE := ucast v\<rparr>),
     (''hl'', \<lambda>p. ucast (HL p), \<lambda>v p. p\<lparr>HL := ucast v\<rparr>),
     (''af'' @ [CHR 0x27], \<lambda>p. ucast (AF2 p), \<lambda>v p. p\<lparr>AF2 := ucast v\<rparr>),
     (''bc'' @ [CHR 0x27], \<lambda>p. ucast (BC2 p), \<lambda>v p. p\<lparr>BC2 := ucast v\<rparr>),
     (''de'' @ [CHR 0x27], \<lambda>p. ucast (DE2 p), \<lambda>v p. p\<lparr>DE2 := ucast v\<rparr>),
     (''hl'' @ [CHR 0x27], \<lambda>p. ucast (HL2 p), \<lambda>v p. p\<lparr>HL2 := ucast v\<rparr>),
     (''sp'', \<lambda>p. ucast (SP p), \<lambda>v p. p\<lparr>SP := ucast v\<rparr>),
     (''pc'', \<lambda>p. ucast (PC p), \<lambda>v p. p\<lparr>PC := ucast v\<rparr>),
     (''ix'', \<lambda>p. ucast (IX p), \<lambda>v p. p\<lparr>IX := ucast v\<rparr>),
     (''iy'', \<lambda>p. ucast (IY p), \<lambda>v p. p\<lparr>IY := ucast v\<rparr>),
     (''i'', \<lambda>p. ucast (regI p), \<lambda>v p. p\<lparr>regI := ucast v\<rparr>),
     (''r'', \<lambda>p. ucast ((regR7 p AND 0x80) OR (ucast (regR p) AND 0x7f)), \<lambda>v p. p\<lparr>regR := ucast (ucast v :: u8), regR7 := ucast v\<rparr>),
     (''memptr'', \<lambda>p. ucast (memptr p), \<lambda>v p. p\<lparr>memptr := ucast v\<rparr>),
     (''wz'', \<lambda>p. ucast (memptr p), \<lambda>v p. p\<lparr>memptr := ucast v\<rparr>),
     (''im'', \<lambda>p. ucast (IM p), \<lambda>v p. if v \<le> 2 then p\<lparr>IM := ucast v\<rparr> else p),
     (''iff1'', \<lambda>p. ucast (IFF1 p), \<lambda>v p. p\<lparr>IFF1 := of_bool (v \<noteq> 0)\<rparr>),
     (''iff2'', \<lambda>p. ucast (IFF2 p), \<lambda>v p. p\<lparr>IFF2 := of_bool (v \<noteq> 0)\<rparr>),
     (''q'', \<lambda>p. ucast (Q p), \<lambda>v p. p\<lparr>Q := ucast v\<rparr>)]"

definition register_z80 ::
  "string \<times> (processor \<Rightarrow> u32) \<times> (u32 \<Rightarrow> processor \<Rightarrow> processor) \<Rightarrow>
   ('u, 'z) z80_state_scheme system_variable_t list \<Rightarrow> ('u, 'z) z80_state_scheme system_variable_t list" where
  "register_z80 r = (case r of (detail, get, put) \<Rightarrow>
     debugger_system_variable_register ''z80'' detail (\<lambda>s. get (z80 s)) (Some (\<lambda>v. set_z80 (put v))))"

definition z80_debugger_variables_init ::
  "('u, 'z) z80_state_scheme system_variable_t list \<Rightarrow> ('u, 'z) z80_state_scheme system_variable_t list" where
  "z80_debugger_variables_init = fold register_z80 z80_registers"

text \<open>The plain registers and their widths.\<close>

definition register_widths :: "(string \<times> nat) list" where
  "register_widths =
    [(''a'', 8), (''b'', 8), (''c'', 8), (''d'', 8), (''e'', 8), (''f'', 8), (''h'', 8), (''l'', 8),
     (''a'' @ [CHR 0x27], 8), (''b'' @ [CHR 0x27], 8), (''c'' @ [CHR 0x27], 8), (''d'' @ [CHR 0x27], 8),
     (''e'' @ [CHR 0x27], 8), (''f'' @ [CHR 0x27], 8), (''h'' @ [CHR 0x27], 8), (''l'' @ [CHR 0x27], 8),
     (''af'', 16), (''bc'', 16), (''de'', 16), (''hl'', 16), (''af'' @ [CHR 0x27], 16), (''bc'' @ [CHR
     0x27], 16), (''de'' @ [CHR 0x27], 16), (''hl'' @ [CHR 0x27], 16), (''sp'', 16), (''pc'', 16),
     (''ix'', 16), (''iy'', 16), (''i'', 8), (''r'', 8), (''memptr'', 16), (''wz'', 16), (''q'', 8)]"

lemma init_map: "z80_debugger_variables_init svs = svs @ List.map (\<lambda>(detail, get, put).
    \<lparr>sv_type = ''z80'', sv_detail = detail, sv_get = (\<lambda>s. get (z80 s)), sv_set = Some (\<lambda>v. set_z80 (put v))\<rparr>) z80_registers"
proof -
  have "fold register_z80 rs svs = svs @ List.map (\<lambda>(detail, get, put).
    \<lparr>sv_type = ''z80'', sv_detail = detail, sv_get = (\<lambda>s. get (z80 s)), sv_set = Some (\<lambda>v. set_z80 (put v))\<rparr>) rs" for rs
    by (induction rs arbitrary: svs) (auto simp: register_z80_def debugger_system_variable_register_def)
  then show ?thesis by (simp add: z80_debugger_variables_init_def)
qed

text \<open>Looking a name up needs the names alone.\<close>

fun find_name :: "string list \<Rightarrow> string \<Rightarrow> nat option" where
  "find_name [] d = None"
| "find_name (n # ns) d = (if same_name d n then Some 0 else map_option Suc (find_name ns d))"

lemma find_z80: "find_system_variable (z80_debugger_variables_init []) ''z80'' d = find_name (List.map fst z80_registers) d"
proof -
  have "find_system_variable (List.map (\<lambda>(detail, get, put).
    \<lparr>sv_type = ''z80'', sv_detail = detail, sv_get = (\<lambda>s. get (z80 s)), sv_set = Some (\<lambda>v. set_z80 (put v))\<rparr>) rs) ''z80'' d =
    find_name (List.map fst rs) d" for rs :: "(string \<times> (processor \<Rightarrow> u32) \<times> (u32 \<Rightarrow> processor \<Rightarrow> processor)) list"
    by (induction rs) (auto simp: system_variable_matches_def same_name_def)
  then show ?thesis by (simp add: init_map)
qed

lemma register_names: "List.map fst z80_registers = List.map fst (take 30 register_widths) @
   [''memptr'', ''wz'', ''im'', ''iff1'', ''iff2'', ''q'']"
  by (simp add: z80_registers_def register_widths_def)

lemma find_name_nth:
  "distinct (List.map (List.map to_lower) ns) \<Longrightarrow> i < length ns \<Longrightarrow> find_name ns (ns ! i) = Some i"
proof (induction ns arbitrary: i)
  case (Cons n ns)
  show ?case
  proof (cases i)
    case (Suc j)
    then have "List.map to_lower (ns ! j) \<in> List.map to_lower ` set ns" using Cons.prems by simp
    then have "\<not> same_name (ns ! j) n" using Cons.prems by (auto simp: same_name_def)
    then show ?thesis using Suc Cons by simp
  qed (simp add: same_name_def)
qed simp

lemma lower_case: "List.map (List.map to_lower) (List.map fst z80_registers) = List.map fst z80_registers"
  unfolding register_names register_widths_def by (simp add: to_lower_def)

lemma names_distinct: "distinct (List.map fst z80_registers)"
  unfolding register_names register_widths_def by simp

lemma find_register:
  assumes "i < 36"
  shows "find_system_variable (z80_debugger_variables_init []) ''z80'' (fst (z80_registers ! i)) = Some i"
proof -
  have l: "length z80_registers = 36" by (simp add: z80_registers_def)
  have d: "distinct (List.map (List.map to_lower) (List.map fst z80_registers))"
    unfolding lower_case by (rule names_distinct)
  show ?thesis using find_name_nth [OF d, of i] assms l by (simp add: find_z80)
qed

text \<open>A register that is set keeps the low bits of the value.\<close>

definition holds :: "nat \<Rightarrow> (processor \<Rightarrow> u32) \<Rightarrow> (u32 \<Rightarrow> processor \<Rightarrow> processor) \<Rightarrow> bool" where
  "holds w get put \<longleftrightarrow> (\<forall>v p. get (put v p) = take_bit w v)"

lemma ucast_take_bit: "(ucast (ucast (v :: u32) :: u8) :: u32) = take_bit 8 v" "(ucast (ucast v :: u16) :: u32) = take_bit 16 v"
  by (rule bit_word_eqI, auto simp: bit_simps)+

lemma r_bits: "((ucast v :: u8) AND 0x80) OR (ucast (ucast (ucast (v :: u32) :: u8) :: u16) AND 0x7f) = ucast v"
  by (rule u8_eqI) (simp_all add: bit_simps)

lemma registers_hold:
  "list_all2 (\<lambda>(d, w) (d', get, put). d = d' \<and> holds w get put) register_widths (take 32 z80_registers @ [z80_registers ! 35])"
  by (simp add: z80_registers_def register_widths_def holds_def ucast_take_bit r_bits)

lemma register_row:
  assumes "(d, w) \<in> set register_widths"
  obtains i get put where "i < 36" "z80_registers ! i = (d, get, put)" "holds w get put"
proof -
  obtain k where k: "k < length register_widths" "register_widths ! k = (d, w)" using assms by (auto simp: in_set_conv_nth)
  have l: "length register_widths = 33" "length z80_registers = 36" by (simp_all add: register_widths_def z80_registers_def)
  define i where "i = (if k < 32 then k else 35)"
  have "(take 32 z80_registers @ [z80_registers ! 35]) ! k = z80_registers ! i"
    using k(1) l by (simp add: i_def nth_append)
  then have "(\<lambda>(d, w) (d', get, put). d = d' \<and> holds w get put) (d, w) (z80_registers ! i)"
    using list_all2_nthD [OF registers_hold k(1)] k(2) by simp
  moreover have "i < 36" using k(1) l by (simp add: i_def)
  ultimately show thesis using that by (cases "z80_registers ! i") auto
qed

lemma register_access:
  assumes "i < 36" "z80_registers ! i = (d, get, put)"
  shows "sv_get (z80_debugger_variables_init [] ! i) = (\<lambda>s. get (z80 s))"
    "sv_set (z80_debugger_variables_init [] ! i) = Some (\<lambda>v. set_z80 (put v))"
proof -
  have "length z80_registers = 36" by (simp add: z80_registers_def)
  then show "sv_get (z80_debugger_variables_init [] ! i) = (\<lambda>s. get (z80 s))"
    "sv_set (z80_debugger_variables_init [] ! i) = Some (\<lambda>v. set_z80 (put v))"
    using assms by (simp_all add: init_map)
qed

section \<open>The properties\<close>

text \<open>
  C19. The registers in the debugger: setting one by its name and reading it again gives the value reduced
  to the width of the register, nothing outside the processor changes, and an interrupt mode above 2 is ignored.
\<close>

theorem register_variables_hold:
  fixes s :: "('u, 'z) z80_state_scheme"
  assumes "(d, w) \<in> set register_widths"
  shows "\<exists>i s'. find_system_variable (z80_debugger_variables_init []) ''z80'' d = Some i \<and>
    debugger_system_variable_set (z80_debugger_variables_init []) ''z80'' d v s = Inr s' \<and>
    debugger_system_variable_get (z80_debugger_variables_init []) i s' = take_bit w v \<and>
    s'\<lparr>z80 := z80 s\<rparr> = s \<and>
    (\<exists>j. find_system_variable (z80_debugger_variables_init []) ''z80'' ''im'' = Some j \<and>
      debugger_system_variable_set (z80_debugger_variables_init []) ''z80'' ''im'' v s =
        Inr (if v \<le> 2 then set_z80 (\<lambda>p. p\<lparr>IM := ucast v\<rparr>) s else s))"
proof -
  obtain i get put where i: "i < 36" "z80_registers ! i = (d, get, put)" "holds w get put"
    using register_row [OF assms] .
  have l: "length z80_registers = 36" by (simp add: z80_registers_def)
  have f: "find_system_variable (z80_debugger_variables_init []) ''z80'' d = Some i"
    using find_register [OF i(1)] i(2) by simp
  have m: "z80_registers ! 32 = (''im'', \<lambda>p. ucast (IM p), \<lambda>v p. if v \<le> 2 then p\<lparr>IM := ucast v\<rparr> else p)"
    by (simp add: z80_registers_def)
  have fm: "find_system_variable (z80_debugger_variables_init []) ''z80'' ''im'' = Some 32"
    using find_register [of 32] m by simp
  have "debugger_system_variable_set (z80_debugger_variables_init []) ''z80'' d v s = Inr (set_z80 (put v) s)"
    by (simp add: debugger_system_variable_set_def f register_access [OF i(1,2)])
  moreover have "debugger_system_variable_get (z80_debugger_variables_init []) i (set_z80 (put v) s) = take_bit w v"
    using i(3) by (simp add: debugger_system_variable_get_def register_access [OF i(1,2)] holds_def)
  moreover have "(set_z80 (put v) s)\<lparr>z80 := z80 s\<rparr> = s" by (simp add: set_z80_def)
  moreover have "debugger_system_variable_set (z80_debugger_variables_init []) ''z80'' ''im'' v s =
        Inr (if v \<le> 2 then set_z80 (\<lambda>p. p\<lparr>IM := ucast v\<rparr>) s else s)"
    by (simp add: debugger_system_variable_set_def fm register_access [OF _ m] set_z80_def)
  ultimately show ?thesis using f fm by blast
qed

theorem register_variables_hold_witness:
  "\<exists>s'. debugger_system_variable_set (z80_debugger_variables_init []) ''z80'' ''sp'' 0x12345 demo_z80 = Inr s' \<and>
     s'\<lparr>z80 := z80 demo_z80\<rparr> = demo_z80"
  using register_variables_hold [of "''sp''" 16 "0x12345" demo_z80] by (auto simp: register_widths_def)

end
