(* ===== verification/Breakpoints.thy ===== *)
theory Breakpoints
  imports Z80_Variables
begin

text \<open>
  The debugger's breakpoints, \<open>debugger/breakpoint.c\<close>, the events of \<open>debugger/event.c\<close> that components
  raise for it, and the parts of \<open>debugger/debugger.c\<close> that run and stop the emulation. A breakpoint lives in one
  list, which \<open>debugger_check\<close> and \<open>debugger_event\<close> walk with a pointer to the next element; the walk is
  \<open>walk\<close>, with what it asks of a breakpoint as a parameter. The commands of a breakpoint, the trap into the
  GDB server and \<open>g_slist_insert_sorted\<close> are parameters, and so is the table of system variables.
  \<open>None\<close> is \<open>fuse_abort\<close>, or a walk that goes on in a list that was changed under it.
\<close>

section \<open>State\<close>

datatype debugger_mode_t = DEBUGGER_MODE_INACTIVE | DEBUGGER_MODE_ACTIVE | DEBUGGER_MODE_HALTED

datatype debugger_breakpoint_type =
  DEBUGGER_BREAKPOINT_TYPE_EXECUTE | DEBUGGER_BREAKPOINT_TYPE_READ | DEBUGGER_BREAKPOINT_TYPE_WRITE
| DEBUGGER_BREAKPOINT_TYPE_PORT_READ | DEBUGGER_BREAKPOINT_TYPE_PORT_WRITE | DEBUGGER_BREAKPOINT_TYPE_TIME
| DEBUGGER_BREAKPOINT_TYPE_EVENT

datatype debugger_breakpoint_life = DEBUGGER_BREAKPOINT_LIFE_PERMANENT | DEBUGGER_BREAKPOINT_LIFE_ONESHOT

text \<open>The union \<open>debugger_breakpoint_value\<close>: source, page and offset; port and mask; current and initial time
  and whether it has triggered; type and detail.\<close>

datatype debugger_breakpoint_value =
  Address int int u16 | Port u16 u16 | Time u32 u32 bool | Event_value string string

record debugger_breakpoint =
  bp_id :: "64 word"
  bp_type :: debugger_breakpoint_type
  bp_value :: debugger_breakpoint_value
  ignore :: nat
  life :: debugger_breakpoint_life
  condition :: "debugger_expression option"
  commands :: "string option"

record 'u breakpoint_state = "'u debugger_state" +
  debugger_breakpoints :: "debugger_breakpoint list"
  debugger_breakpoints_remove_pending :: bool
  next_breakpoint_id :: "64 word"
  debugger_mode :: debugger_mode_t
  debugger_breakpoint_event :: int
  gdbserver_debugging_enabled :: bool
  registered_events :: "(string \<times> string) list"
  debugger_tstates :: u32

type_synonym ('u, 'z) debugger_variables_t = "('u, 'z) debugger_state_scheme system_variable_t list"

section \<open>Adding\<close>

definition breakpoint_add ::
  "(('u event \<Rightarrow> 'u event \<Rightarrow> int) \<Rightarrow> 'u event \<Rightarrow> 'u event list \<Rightarrow> 'u event list) \<Rightarrow> 'u \<Rightarrow>
   debugger_breakpoint_type \<Rightarrow> debugger_breakpoint_value \<Rightarrow> nat \<Rightarrow> debugger_breakpoint_life \<Rightarrow> debugger_expression option \<Rightarrow>
   ('u, 'z) breakpoint_state_scheme \<Rightarrow> ('u, 'z) breakpoint_state_scheme" where
  "breakpoint_add ins null ty val ign lf cond s =
    (let bp = \<lparr>bp_id = next_breakpoint_id s, bp_type = ty, bp_value = val, ignore = ign, life = lf,
               condition = map_option debugger_expression_copy cond, commands = None\<rparr>;
         s1 = s\<lparr>next_breakpoint_id := next_breakpoint_id s + 1, debugger_breakpoints := debugger_breakpoints s @ [bp]\<rparr>;
         s2 = (if debugger_mode s1 = DEBUGGER_MODE_INACTIVE then s1\<lparr>debugger_mode := DEBUGGER_MODE_ACTIVE\<rparr> else s1)
     in case val of
          Time t t0 tr \<Rightarrow> (if ty = DEBUGGER_BREAKPOINT_TYPE_TIME
            then event_add_with_data ins t (debugger_breakpoint_event s2) null s2 else s2)
        | _ \<Rightarrow> s2)"

definition debugger_breakpoint_add_address ::
  "(('u event \<Rightarrow> 'u event \<Rightarrow> int) \<Rightarrow> 'u event \<Rightarrow> 'u event list \<Rightarrow> 'u event list) \<Rightarrow> 'u \<Rightarrow>
   debugger_breakpoint_type \<Rightarrow> int \<Rightarrow> int \<Rightarrow> u16 \<Rightarrow> nat \<Rightarrow> debugger_breakpoint_life \<Rightarrow> debugger_expression option \<Rightarrow>
   ('u, 'z) breakpoint_state_scheme \<Rightarrow> ('u, 'z) breakpoint_state_scheme option" where
  "debugger_breakpoint_add_address ins null ty src pg off ign lf cond s =
    (if ty \<in> {DEBUGGER_BREAKPOINT_TYPE_EXECUTE, DEBUGGER_BREAKPOINT_TYPE_READ, DEBUGGER_BREAKPOINT_TYPE_WRITE}
     then Some (breakpoint_add ins null ty (Address src pg off) ign lf cond s) else None)"

definition debugger_breakpoint_add_port ::
  "(('u event \<Rightarrow> 'u event \<Rightarrow> int) \<Rightarrow> 'u event \<Rightarrow> 'u event list \<Rightarrow> 'u event list) \<Rightarrow> 'u \<Rightarrow>
   debugger_breakpoint_type \<Rightarrow> u16 \<Rightarrow> u16 \<Rightarrow> nat \<Rightarrow> debugger_breakpoint_life \<Rightarrow> debugger_expression option \<Rightarrow>
   ('u, 'z) breakpoint_state_scheme \<Rightarrow> ('u, 'z) breakpoint_state_scheme option" where
  "debugger_breakpoint_add_port ins null ty port msk ign lf cond s =
    (if ty \<in> {DEBUGGER_BREAKPOINT_TYPE_PORT_READ, DEBUGGER_BREAKPOINT_TYPE_PORT_WRITE}
     then Some (breakpoint_add ins null ty (Port port msk) ign lf cond s) else None)"

definition debugger_breakpoint_add_time ::
  "(('u event \<Rightarrow> 'u event \<Rightarrow> int) \<Rightarrow> 'u event \<Rightarrow> 'u event list \<Rightarrow> 'u event list) \<Rightarrow> 'u \<Rightarrow>
   debugger_breakpoint_type \<Rightarrow> u32 \<Rightarrow> nat \<Rightarrow> debugger_breakpoint_life \<Rightarrow> debugger_expression option \<Rightarrow>
   ('u, 'z) breakpoint_state_scheme \<Rightarrow> ('u, 'z) breakpoint_state_scheme option" where
  "debugger_breakpoint_add_time ins null ty t ign lf cond s =
    (if ty = DEBUGGER_BREAKPOINT_TYPE_TIME then Some (breakpoint_add ins null ty (Time t t False) ign lf cond s) else None)"

text \<open>Events of the components, \<open>debugger/event.c\<close>.\<close>

definition debugger_event_register ::
  "string \<Rightarrow> string \<Rightarrow> ('u, 'z) breakpoint_state_scheme \<Rightarrow> int \<times> ('u, 'z) breakpoint_state_scheme" where
  "debugger_event_register ty detail s =
    (int (length (registered_events s)), s\<lparr>registered_events := registered_events s @ [(ty, detail)]\<rparr>)"

definition event_matches :: "string \<times> string \<Rightarrow> string \<Rightarrow> string \<Rightarrow> bool" where
  "event_matches ev ty detail \<longleftrightarrow>
    same_name ty (fst ev) \<and> (detail = ''*'' \<or> snd ev = ''*'' \<or> same_name detail (snd ev))"

definition debugger_event_is_registered :: "string \<Rightarrow> string \<Rightarrow> ('u, 'z) breakpoint_state_scheme \<Rightarrow> bool" where
  "debugger_event_is_registered ty detail s \<longleftrightarrow> (\<exists>ev\<in>set (registered_events s). event_matches ev ty detail)"

datatype breakpoint_error = Event_not_known | No_such_breakpoint

definition debugger_breakpoint_add_event ::
  "(('u event \<Rightarrow> 'u event \<Rightarrow> int) \<Rightarrow> 'u event \<Rightarrow> 'u event list \<Rightarrow> 'u event list) \<Rightarrow> 'u \<Rightarrow>
   debugger_breakpoint_type \<Rightarrow> string \<Rightarrow> string \<Rightarrow> nat \<Rightarrow> debugger_breakpoint_life \<Rightarrow> debugger_expression option \<Rightarrow>
   ('u, 'z) breakpoint_state_scheme \<Rightarrow> (breakpoint_error + ('u, 'z) breakpoint_state_scheme) option" where
  "debugger_breakpoint_add_event ins null ty type_string detail ign lf cond s =
    (if ty \<noteq> DEBUGGER_BREAKPOINT_TYPE_EVENT then None
     else if \<not> debugger_event_is_registered type_string detail s then Some (Inl Event_not_known)
     else Some (Inr (breakpoint_add ins null ty (Event_value type_string detail) ign lf cond s)))"

section \<open>Checking\<close>

definition get_page :: "debugger_breakpoint_type \<Rightarrow> u32 \<Rightarrow> ('u, 'z) memory_state_scheme \<Rightarrow> memory_page" where
  "get_page ty address s =
    (if ty = DEBUGGER_BREAKPOINT_TYPE_WRITE then memory_map_write s else memory_map_read s) ! unat (drop_bit 11 address)"

definition mark_triggered :: "debugger_breakpoint \<Rightarrow> debugger_breakpoint" where
  "mark_triggered bp = (case bp_value bp of Time t t0 tr \<Rightarrow> bp\<lparr>bp_value := Time t t0 True\<rparr> | _ \<Rightarrow> bp)"

definition debugger_breakpoint_trigger ::
  "('u, 'z) debugger_variables_t \<Rightarrow> debugger_breakpoint \<Rightarrow> ('u, 'z) debugger_state_scheme \<Rightarrow> bool \<times> debugger_breakpoint" where
  "debugger_breakpoint_trigger svs bp s =
    (if ignore bp \<noteq> 0 then (False, bp\<lparr>ignore := ignore bp - 1\<rparr>)
     else
       (let bp1 = (if bp_type bp = DEBUGGER_BREAKPOINT_TYPE_TIME then mark_triggered bp else bp)
        in case condition bp1 of
             None \<Rightarrow> (True, bp1)
           | Some e \<Rightarrow> (debugger_expression_evaluate svs s e \<noteq> 0, bp1)))"

text \<open>Whether the value matches, the \<open>switch\<close> of \<open>breakpoint_check\<close>; \<open>None\<close> is the abort.\<close>

definition value_matches :: "debugger_breakpoint \<Rightarrow> debugger_breakpoint_type \<Rightarrow> u32 \<Rightarrow> ('u, 'z) memory_state_scheme \<Rightarrow> bool option" where
  "value_matches bp ty val s =
    (case (ty, bp_value bp) of
       (DEBUGGER_BREAKPOINT_TYPE_EVENT, _) \<Rightarrow> None
     | (DEBUGGER_BREAKPOINT_TYPE_TIME, Time t t0 tr) \<Rightarrow> Some (\<not> (tr \<or> t > tstates s))
     | (DEBUGGER_BREAKPOINT_TYPE_PORT_READ, Port p m) \<Rightarrow> Some (val AND ucast m = ucast p)
     | (DEBUGGER_BREAKPOINT_TYPE_PORT_WRITE, Port p m) \<Rightarrow> Some (val AND ucast m = ucast p)
     | (_, Address src pg off) \<Rightarrow>
         (if src = memory_source_any then Some (ucast off = val)
          else (let p = get_page ty val s in Some (src = source p \<and> pg = page_num p \<and> ucast off = val AND 0x3fff)))
     | _ \<Rightarrow> None)"

definition breakpoint_check ::
  "('u, 'z) debugger_variables_t \<Rightarrow> debugger_breakpoint_type \<Rightarrow> u32 \<Rightarrow> debugger_breakpoint \<Rightarrow> ('u, 'z) debugger_state_scheme \<Rightarrow>
   (bool \<times> debugger_breakpoint) option" where
  "breakpoint_check svs ty val bp s =
    (if bp_type bp \<noteq> ty then Some (False, bp)
     else case value_matches bp ty val s of
       None \<Rightarrow> None
     | Some False \<Rightarrow> Some (False, bp)
     | Some True \<Rightarrow> Some (debugger_breakpoint_trigger svs bp s))"

definition event_hit ::
  "('u, 'z) debugger_variables_t \<Rightarrow> string \<times> string \<Rightarrow> debugger_breakpoint \<Rightarrow> ('u, 'z) debugger_state_scheme \<Rightarrow>
   (bool \<times> debugger_breakpoint) option" where
  "event_hit svs ev bp s =
    (case bp_value bp of
       Event_value ty detail \<Rightarrow>
         (if bp_type bp = DEBUGGER_BREAKPOINT_TYPE_EVENT \<and> event_matches (ty, detail) (fst ev) (snd ev)
          then Some (debugger_breakpoint_trigger svs bp s) else Some (False, bp))
     | _ \<Rightarrow> Some (False, bp))"

text \<open>
  The loop of \<open>debugger_check\<close> and of \<open>debugger_event\<close>: \<open>dn\<close> are the breakpoints already seen. After the
  commands of a breakpoint have run, the code reads the breakpoint and its successor again: if they
  are no longer in the list, that is a use of freed memory. \<open>trap\<close> enters the GDB server.
\<close>

fun walk ::
  "(debugger_breakpoint \<Rightarrow> ('u, 'z) breakpoint_state_scheme \<Rightarrow> (bool \<times> debugger_breakpoint) option) \<Rightarrow>
   (string \<Rightarrow> ('u, 'z) breakpoint_state_scheme \<Rightarrow> ('u, 'z) breakpoint_state_scheme) \<Rightarrow>
   (('u, 'z) breakpoint_state_scheme \<Rightarrow> ('u, 'z) breakpoint_state_scheme option) \<Rightarrow>
   debugger_breakpoint list \<Rightarrow> debugger_breakpoint list \<Rightarrow> ('u, 'z) breakpoint_state_scheme \<Rightarrow>
   (bool \<times> ('u, 'z) breakpoint_state_scheme) option" where
  "walk hit cmd trap dn [] s = Some (False, s)"
| "walk hit cmd trap dn (bp # rest) s =
    (case hit bp s of
       None \<Rightarrow> None
     | Some (False, bp') \<Rightarrow> walk hit cmd trap (dn @ [bp']) rest (s\<lparr>debugger_breakpoints := dn @ bp' # rest\<rparr>)
     | Some (True, bp') \<Rightarrow>
         (let s1 = s\<lparr>debugger_breakpoints := dn @ bp' # rest, debugger_mode := DEBUGGER_MODE_HALTED\<rparr>;
              s2 = (case commands bp' of None \<Rightarrow> s1 | Some c \<Rightarrow> cmd c s1)
          in if debugger_breakpoints s2 \<noteq> dn @ bp' # rest then None
             else
               (let (dn', s3) = (if life bp' = DEBUGGER_BREAKPOINT_LIFE_ONESHOT
                                 then (dn, s2\<lparr>debugger_breakpoints := dn @ rest\<rparr>) else (dn @ [bp'], s2))
                in case trap s3 of Some s4 \<Rightarrow> Some (True, s4) | None \<Rightarrow> walk hit cmd trap dn' rest s3)))"

definition debugger_breakpoint_remove_all :: "('u, 'z) breakpoint_state_scheme \<Rightarrow> ('u, 'z) breakpoint_state_scheme" where
  "debugger_breakpoint_remove_all s =
    (let s1 = s\<lparr>debugger_breakpoints := [], next_breakpoint_id := 1\<rparr>
     in if debugger_mode s1 = DEBUGGER_MODE_ACTIVE then s1\<lparr>debugger_mode := DEBUGGER_MODE_INACTIVE\<rparr> else s1)"

definition gdb_trap ::
  "(('u, 'z) breakpoint_state_scheme \<Rightarrow> ('u, 'z) breakpoint_state_scheme) \<Rightarrow>
   ('u, 'z) breakpoint_state_scheme \<Rightarrow> ('u, 'z) breakpoint_state_scheme option" where
  "gdb_trap activate s = (if gdbserver_debugging_enabled s then Some (activate s) else None)"

definition debugger_check ::
  "('u, 'z) breakpoint_state_scheme system_variable_t list \<Rightarrow>
   (string \<Rightarrow> ('u, 'z) breakpoint_state_scheme \<Rightarrow> ('u, 'z) breakpoint_state_scheme) \<Rightarrow>
   (('u, 'z) breakpoint_state_scheme \<Rightarrow> ('u, 'z) breakpoint_state_scheme) \<Rightarrow>
   debugger_breakpoint_type \<Rightarrow> u32 \<Rightarrow> ('u, 'z) breakpoint_state_scheme \<Rightarrow> (bool \<times> ('u, 'z) breakpoint_state_scheme) option" where
  "debugger_check svs cmd activate ty val s =
    (let s1 = (if debugger_breakpoints_remove_pending s
               then debugger_breakpoint_remove_all (s\<lparr>debugger_breakpoints_remove_pending := False\<rparr>) else s)
     in case debugger_mode s1 of
          DEBUGGER_MODE_INACTIVE \<Rightarrow> Some (False, s1)
        | DEBUGGER_MODE_HALTED \<Rightarrow> Some (True, s1)
        | DEBUGGER_MODE_ACTIVE \<Rightarrow>
            (case walk (breakpoint_check svs ty val) cmd (gdb_trap activate) [] (debugger_breakpoints s1) s1 of
               None \<Rightarrow> None
             | Some (trapped, s2) \<Rightarrow> Some (\<not> trapped \<and> debugger_mode s2 = DEBUGGER_MODE_HALTED, s2)))"

definition debugger_event ::
  "('u, 'z) breakpoint_state_scheme system_variable_t list \<Rightarrow>
   (string \<Rightarrow> ('u, 'z) breakpoint_state_scheme \<Rightarrow> ('u, 'z) breakpoint_state_scheme) \<Rightarrow>
   nat \<Rightarrow> ('u, 'z) breakpoint_state_scheme \<Rightarrow> ('u, 'z) breakpoint_state_scheme option" where
  "debugger_event svs cmd event_code s =
    (if event_code \<ge> length (registered_events s) then None
     else map_option snd
       (walk (event_hit svs (registered_events s ! event_code)) cmd (\<lambda>_. None) [] (debugger_breakpoints s) s))"

definition debugger_breakpoint_time_fn ::
  "('u, 'z) breakpoint_state_scheme system_variable_t list \<Rightarrow>
   (string \<Rightarrow> ('u, 'z) breakpoint_state_scheme \<Rightarrow> ('u, 'z) breakpoint_state_scheme) \<Rightarrow>
   (('u, 'z) breakpoint_state_scheme \<Rightarrow> ('u, 'z) breakpoint_state_scheme) \<Rightarrow>
   ('u, 'z) breakpoint_state_scheme \<Rightarrow> ('u, 'z) breakpoint_state_scheme option" where
  "debugger_breakpoint_time_fn svs cmd activate s =
    map_option snd (debugger_check svs cmd activate DEBUGGER_BREAKPOINT_TYPE_TIME 0 s)"

section \<open>Frames\<close>

definition debugger_breakpoint_reduce_tstates :: "u32 \<Rightarrow> ('u, 'z) breakpoint_state_scheme \<Rightarrow> ('u, 'z) breakpoint_state_scheme" where
  "debugger_breakpoint_reduce_tstates n s =
    (if debugger_mode s \<noteq> DEBUGGER_MODE_ACTIVE then s
     else s\<lparr>debugger_breakpoints := List.map (\<lambda>bp.
       if bp_type bp = DEBUGGER_BREAKPOINT_TYPE_TIME
       then (case bp_value bp of Time t t0 False \<Rightarrow> bp\<lparr>bp_value := Time (t - n) t0 False\<rparr> | _ \<Rightarrow> bp)
       else bp) (debugger_breakpoints s)\<rparr>)"

definition add_time_event ::
  "(('u event \<Rightarrow> 'u event \<Rightarrow> int) \<Rightarrow> 'u event \<Rightarrow> 'u event list \<Rightarrow> 'u event list) \<Rightarrow> 'u \<Rightarrow>
   debugger_breakpoint \<Rightarrow> ('u, 'z) breakpoint_state_scheme \<Rightarrow> debugger_breakpoint \<times> ('u, 'z) breakpoint_state_scheme" where
  "add_time_event ins null bp s =
    (case bp_value bp of
       Time t t0 True \<Rightarrow>
         (if bp_type bp = DEBUGGER_BREAKPOINT_TYPE_TIME
          then (bp\<lparr>bp_value := Time t0 t0 False\<rparr>, event_add_with_data ins t0 (debugger_breakpoint_event s) null s) else (bp, s))
     | _ \<Rightarrow> (bp, s))"

primrec add_time_events ::
  "(('u event \<Rightarrow> 'u event \<Rightarrow> int) \<Rightarrow> 'u event \<Rightarrow> 'u event list \<Rightarrow> 'u event list) \<Rightarrow> 'u \<Rightarrow>
   debugger_breakpoint list \<Rightarrow> ('u, 'z) breakpoint_state_scheme \<Rightarrow> debugger_breakpoint list \<times> ('u, 'z) breakpoint_state_scheme" where
  "add_time_events ins null [] s = ([], s)"
| "add_time_events ins null (bp # bps) s =
    (let (bp', s1) = add_time_event ins null bp s; (bps', s2) = add_time_events ins null bps s1 in (bp' # bps', s2))"

definition debugger_add_time_events ::
  "(('u event \<Rightarrow> 'u event \<Rightarrow> int) \<Rightarrow> 'u event \<Rightarrow> 'u event list \<Rightarrow> 'u event list) \<Rightarrow> 'u \<Rightarrow>
   ('u, 'z) breakpoint_state_scheme \<Rightarrow> ('u, 'z) breakpoint_state_scheme" where
  "debugger_add_time_events ins null s =
    (let (bps, s1) = add_time_events ins null (debugger_breakpoints s) s in s1\<lparr>debugger_breakpoints := bps\<rparr>)"

definition debugger_reset_tstates :: "('u, 'z) breakpoint_state_scheme \<Rightarrow> ('u, 'z) breakpoint_state_scheme" where
  "debugger_reset_tstates s = s\<lparr>debugger_tstates := tstates s\<rparr>"

definition debugger_track_tstates :: "('u, 'z) breakpoint_state_scheme \<Rightarrow> u32 \<times> ('u, 'z) breakpoint_state_scheme" where
  "debugger_track_tstates s = (tstates s - debugger_tstates s, s\<lparr>debugger_tstates := tstates s\<rparr>)"

definition debugger_track_frame :: "u32 \<Rightarrow> ('u, 'z) breakpoint_state_scheme \<Rightarrow> ('u, 'z) breakpoint_state_scheme" where
  "debugger_track_frame n s = s\<lparr>debugger_tstates := debugger_tstates s - n\<rparr>"

section \<open>Changing and removing\<close>

text \<open>\<open>find_breakpoint_by_id\<close> returns the difference of the numbers as an \<open>int\<close>: their low 32 bits.\<close>

definition has_id :: "64 word \<Rightarrow> debugger_breakpoint \<Rightarrow> bool" where
  "has_id n bp \<longleftrightarrow> (ucast (bp_id bp - n) :: u32) = 0"

definition at_address :: "u16 \<Rightarrow> debugger_breakpoint \<Rightarrow> bool" where
  "at_address address bp \<longleftrightarrow>
    bp_type bp \<in> {DEBUGGER_BREAKPOINT_TYPE_EXECUTE, DEBUGGER_BREAKPOINT_TYPE_READ, DEBUGGER_BREAKPOINT_TYPE_WRITE} \<and>
    (case bp_value bp of Address src pg off \<Rightarrow> src = memory_source_any \<and> off = address | _ \<Rightarrow> False)"

definition get_breakpoint_by_id :: "64 word \<Rightarrow> ('u, 'z) breakpoint_state_scheme \<Rightarrow> debugger_breakpoint option" where
  "get_breakpoint_by_id n s = find (has_id n) (debugger_breakpoints s)"

text \<open>\<open>g_slist_remove\<close> of the element found, and a change of it in its place.\<close>

fun change_first :: "(debugger_breakpoint \<Rightarrow> bool) \<Rightarrow> (debugger_breakpoint \<Rightarrow> debugger_breakpoint list) \<Rightarrow>
    debugger_breakpoint list \<Rightarrow> debugger_breakpoint list" where
  "change_first p f [] = []"
| "change_first p f (bp # bps) = (if p bp then f bp @ bps else bp # change_first p f bps)"

definition unlink :: "(debugger_breakpoint \<Rightarrow> bool) \<Rightarrow> ('u, 'z) breakpoint_state_scheme \<Rightarrow> ('u, 'z) breakpoint_state_scheme" where
  "unlink p s =
    (let s1 = s\<lparr>debugger_breakpoints := change_first p (\<lambda>_. []) (debugger_breakpoints s)\<rparr>
     in if debugger_mode s1 = DEBUGGER_MODE_ACTIVE \<and> debugger_breakpoints s1 = []
        then s1\<lparr>debugger_mode := DEBUGGER_MODE_INACTIVE\<rparr> else s1)"

text \<open>\<open>event_foreach( remove_time, ... )\<close>: the first event of the type at that time becomes a null event.\<close>

fun remove_time :: "int \<Rightarrow> u32 \<Rightarrow> 'u event list \<Rightarrow> 'u event list" where
  "remove_time ty t [] = []"
| "remove_time ty t (e # es) =
    (if ev_type e = ty \<and> ev_tstates e = t then e\<lparr>ev_type := event_type_null\<rparr> # es else e # remove_time ty t es)"

definition debugger_breakpoint_remove ::
  "64 word \<Rightarrow> ('u, 'z) breakpoint_state_scheme \<Rightarrow> breakpoint_error + ('u, 'z) breakpoint_state_scheme" where
  "debugger_breakpoint_remove n s =
    (case get_breakpoint_by_id n s of
       None \<Rightarrow> Inl No_such_breakpoint
     | Some bp \<Rightarrow>
         (let s1 = unlink (has_id n) s
          in Inr (case bp_value bp of
               Time t t0 tr \<Rightarrow> (if bp_type bp = DEBUGGER_BREAKPOINT_TYPE_TIME
                 then s1\<lparr>event_list := remove_time (debugger_breakpoint_event s1) t (event_list s1)\<rparr> else s1)
             | _ \<Rightarrow> s1)))"

function clear_loop :: "u16 \<Rightarrow> ('u, 'z) breakpoint_state_scheme \<Rightarrow> ('u, 'z) breakpoint_state_scheme" where
  "clear_loop address s =
    (if find (at_address address) (debugger_breakpoints s) = None then s else clear_loop address (unlink (at_address address) s))"
  by auto

lemma change_first_length:
  "find p bps = Some bp \<Longrightarrow> length (change_first p (\<lambda>_. []) bps) < length bps"
  by (induction bps) (auto split: if_splits)

termination clear_loop
  by (relation "measure (\<lambda>(address, s). length (debugger_breakpoints s))") (auto simp: unlink_def Let_def change_first_length)

declare clear_loop.simps [simp del]

text \<open>The flag says whether there was none, which is reported.\<close>

definition debugger_breakpoint_clear :: "u16 \<Rightarrow> ('u, 'z) breakpoint_state_scheme \<Rightarrow> bool \<times> ('u, 'z) breakpoint_state_scheme" where
  "debugger_breakpoint_clear address s =
    (find (at_address address) (debugger_breakpoints s) = None, clear_loop address s)"

definition change_breakpoint ::
  "64 word \<Rightarrow> (debugger_breakpoint \<Rightarrow> debugger_breakpoint) \<Rightarrow> ('u, 'z) breakpoint_state_scheme \<Rightarrow>
   breakpoint_error + ('u, 'z) breakpoint_state_scheme" where
  "change_breakpoint n f s =
    (case get_breakpoint_by_id n s of
       None \<Rightarrow> Inl No_such_breakpoint
     | Some _ \<Rightarrow> Inr (s\<lparr>debugger_breakpoints := change_first (has_id n) (\<lambda>bp. [f bp]) (debugger_breakpoints s)\<rparr>))"

definition debugger_breakpoint_ignore ::
  "64 word \<Rightarrow> nat \<Rightarrow> ('u, 'z) breakpoint_state_scheme \<Rightarrow> breakpoint_error + ('u, 'z) breakpoint_state_scheme" where
  "debugger_breakpoint_ignore n k = change_breakpoint n (\<lambda>bp. bp\<lparr>ignore := k\<rparr>)"

definition debugger_breakpoint_set_condition ::
  "64 word \<Rightarrow> debugger_expression option \<Rightarrow> ('u, 'z) breakpoint_state_scheme \<Rightarrow> breakpoint_error + ('u, 'z) breakpoint_state_scheme" where
  "debugger_breakpoint_set_condition n e =
    change_breakpoint n (\<lambda>bp. bp\<lparr>condition := map_option debugger_expression_copy e\<rparr>)"

definition debugger_breakpoint_set_commands ::
  "64 word \<Rightarrow> string \<Rightarrow> ('u, 'z) breakpoint_state_scheme \<Rightarrow> breakpoint_error + ('u, 'z) breakpoint_state_scheme" where
  "debugger_breakpoint_set_commands n c = change_breakpoint n (\<lambda>bp. bp\<lparr>commands := Some c\<rparr>)"

section \<open>Running and stopping\<close>

definition debugger_reset :: "('u, 'z) breakpoint_state_scheme \<Rightarrow> ('u, 'z) breakpoint_state_scheme" where
  "debugger_reset s = (debugger_breakpoint_remove_all s)\<lparr>debugger_mode := DEBUGGER_MODE_INACTIVE\<rparr>"

definition debugger_step :: "('u, 'z) breakpoint_state_scheme \<Rightarrow> ('u, 'z) breakpoint_state_scheme" where
  "debugger_step s = s\<lparr>debugger_mode := DEBUGGER_MODE_HALTED\<rparr>"

definition debugger_run :: "('u, 'z) breakpoint_state_scheme \<Rightarrow> ('u, 'z) breakpoint_state_scheme" where
  "debugger_run s = s\<lparr>debugger_mode :=
     (if debugger_breakpoints s \<noteq> [] then DEBUGGER_MODE_ACTIVE else DEBUGGER_MODE_INACTIVE)\<rparr>"

definition debugger_breakpoint_exit ::
  "(('u event \<Rightarrow> 'u event \<Rightarrow> int) \<Rightarrow> 'u event \<Rightarrow> 'u event list \<Rightarrow> 'u event list) \<Rightarrow> 'u \<Rightarrow>
   ('u, 'z) breakpoint_state_scheme \<Rightarrow> ('u, 'z) breakpoint_state_scheme option" where
  "debugger_breakpoint_exit ins null s =
    (let target = ucast (readbyte_internal (SP (z80 s)) s) + 0x100 * ucast (readbyte_internal (SP (z80 s) + 1) s)
     in map_option debugger_run
          (debugger_breakpoint_add_address ins null DEBUGGER_BREAKPOINT_TYPE_EXECUTE memory_source_any 0 target 0
             DEBUGGER_BREAKPOINT_LIFE_ONESHOT None s))"

section \<open>What keeps a breakpoint well typed\<close>

text \<open>The system variables of a condition are in the table, and the value is the one of the type.\<close>

fun in_scope :: "nat \<Rightarrow> debugger_expression \<Rightarrow> bool" where
  "in_scope n (Unaryop op e) = in_scope n e"
| "in_scope n (Binaryop op e1 e2) = (in_scope n e1 \<and> in_scope n e2)"
| "in_scope n (System_variable i) = (i < n)"
| "in_scope n _ = True"

fun value_typed :: "debugger_breakpoint_type \<Rightarrow> debugger_breakpoint_value \<Rightarrow> bool" where
  "value_typed ty (Address src pg off) =
    (ty \<in> {DEBUGGER_BREAKPOINT_TYPE_EXECUTE, DEBUGGER_BREAKPOINT_TYPE_READ, DEBUGGER_BREAKPOINT_TYPE_WRITE})"
| "value_typed ty (Port p m) = (ty \<in> {DEBUGGER_BREAKPOINT_TYPE_PORT_READ, DEBUGGER_BREAKPOINT_TYPE_PORT_WRITE})"
| "value_typed ty (Time t t0 tr) = (ty = DEBUGGER_BREAKPOINT_TYPE_TIME)"
| "value_typed ty (Event_value et d) = (ty = DEBUGGER_BREAKPOINT_TYPE_EVENT)"

definition condition_ok :: "nat \<Rightarrow> debugger_expression option \<Rightarrow> bool" where
  "condition_ok n c \<longleftrightarrow> (case c of None \<Rightarrow> True | Some e \<Rightarrow> in_scope n e)"

definition bp_ok :: "nat \<Rightarrow> debugger_breakpoint \<Rightarrow> bool" where
  "bp_ok n bp \<longleftrightarrow> value_typed (bp_type bp) (bp_value bp) \<and> condition_ok n (condition bp)"

lemma trigger_keeps [simp]:
  "bp_id (snd (debugger_breakpoint_trigger svs bp s)) = bp_id bp"
  "bp_type (snd (debugger_breakpoint_trigger svs bp s)) = bp_type bp"
  "life (snd (debugger_breakpoint_trigger svs bp s)) = life bp"
  "commands (snd (debugger_breakpoint_trigger svs bp s)) = commands bp"
  "bp_ok n (snd (debugger_breakpoint_trigger svs bp s)) = bp_ok n bp"
  by (cases "bp_value bp"; auto simp: debugger_breakpoint_trigger_def mark_triggered_def Let_def bp_ok_def split: option.splits)+

text \<open>A look at a breakpoint changes at most how often it is still ignored and whether it has triggered.\<close>

definition same_breakpoint :: "debugger_breakpoint \<Rightarrow> debugger_breakpoint \<Rightarrow> bool" where
  "same_breakpoint bp bp' \<longleftrightarrow> bp_id bp' = bp_id bp \<and> bp_type bp' = bp_type bp \<and> life bp' = life bp \<and>
     commands bp' = commands bp \<and> (\<forall>n. bp_ok n bp' = bp_ok n bp)"

lemma same_trigger [simp]: "same_breakpoint bp (snd (debugger_breakpoint_trigger svs bp s))"
  by (simp add: same_breakpoint_def)

lemma same_refl [simp]: "same_breakpoint bp bp"
  by (simp add: same_breakpoint_def)

lemma breakpoint_check_same: "breakpoint_check svs ty val bp s = Some (b, bp') \<Longrightarrow> same_breakpoint bp bp'"
  using same_trigger [of bp svs s]
  by (cases "debugger_breakpoint_trigger svs bp s") (auto simp: breakpoint_check_def split: if_splits option.splits bool.splits)

lemma event_hit_same: "event_hit svs ev bp s = Some (b, bp') \<Longrightarrow> same_breakpoint bp bp'"
  using same_trigger [of bp svs s]
  by (cases "debugger_breakpoint_trigger svs bp s") (auto simp: event_hit_def split: if_splits debugger_breakpoint_value.splits)

lemma value_matches_typed:
  "bp_ok n bp \<Longrightarrow> bp_type bp = ty \<Longrightarrow> ty \<noteq> DEBUGGER_BREAKPOINT_TYPE_EVENT \<Longrightarrow> value_matches bp ty val s \<noteq> None"
  by (cases "bp_value bp") (auto simp: bp_ok_def value_matches_def Let_def)

lemma breakpoint_check_typed:
  "bp_ok n bp \<Longrightarrow> ty \<noteq> DEBUGGER_BREAKPOINT_TYPE_EVENT \<Longrightarrow> breakpoint_check svs ty val bp s \<noteq> None"
  using value_matches_typed [of n bp ty val s]
  by (auto simp: breakpoint_check_def split: option.splits bool.splits)

lemma event_hit_typed: "event_hit svs ev bp s \<noteq> None"
  by (auto simp: event_hit_def split: debugger_breakpoint_value.splits)

section \<open>A walk as one pass over the list\<close>

text \<open>
  What the walk comes to when no commands run: every breakpoint is looked at in the state at the start,
  the ones that trigger stop the emulation, and those of them that live once are dropped.
\<close>

definition survivors :: "(debugger_breakpoint \<Rightarrow> bool \<times> debugger_breakpoint) \<Rightarrow> debugger_breakpoint list \<Rightarrow> debugger_breakpoint list" where
  "survivors v bps = concat (List.map (\<lambda>bp. if fst (v bp) \<and> life bp = DEBUGGER_BREAKPOINT_LIFE_ONESHOT then [] else [snd (v bp)]) bps)"

definition walk_spec ::
  "(debugger_breakpoint \<Rightarrow> bool \<times> debugger_breakpoint) \<Rightarrow> ('u, 'z) breakpoint_state_scheme \<Rightarrow> ('u, 'z) breakpoint_state_scheme" where
  "walk_spec v s = s\<lparr>debugger_breakpoints := survivors v (debugger_breakpoints s),
     debugger_mode := (if \<exists>bp\<in>set (debugger_breakpoints s). fst (v bp) then DEBUGGER_MODE_HALTED else debugger_mode s)\<rparr>"

lemma survivors_simps [simp]:
  "survivors v [] = []"
  "survivors v (bp # bps) = (if fst (v bp) \<and> life bp = DEBUGGER_BREAKPOINT_LIFE_ONESHOT then [] else [snd (v bp)]) @ survivors v bps"
  by (simp_all add: survivors_def)

lemma mode_breakpoints [simp]: "s\<lparr>debugger_mode := m, debugger_breakpoints := bps\<rparr> = s\<lparr>debugger_breakpoints := bps, debugger_mode := m\<rparr>"
  by simp

locale breakpoint_walk =
  fixes hit :: "debugger_breakpoint \<Rightarrow> ('u, 'z) breakpoint_state_scheme \<Rightarrow> (bool \<times> debugger_breakpoint) option"
    and looks_at :: "debugger_breakpoint \<Rightarrow> bool"
  assumes hit_frame: "looks_at bp \<Longrightarrow> hit bp (s\<lparr>debugger_breakpoints := bps, debugger_mode := m\<rparr>) = hit bp s"
    and hit_same: "hit bp s = Some (b, bp') \<Longrightarrow> same_breakpoint bp bp'"
    and hit_some: "looks_at bp \<Longrightarrow> hit bp s \<noteq> None"
begin

lemma hit_frame1: "looks_at bp \<Longrightarrow> hit bp (s\<lparr>debugger_breakpoints := bps\<rparr>) = hit bp s"
  using hit_frame [where s = s and bps = bps and m = "debugger_mode s"] by simp

lemma walk_pass:
  assumes "\<forall>bp\<in>set bps. looks_at bp \<and> commands bp = None"
    and "\<And>bs m. trap (s\<lparr>debugger_breakpoints := bs, debugger_mode := m\<rparr>) = None"
    and "debugger_breakpoints s = dn @ bps"
  shows "walk hit cmd trap dn bps s =
    Some (False, s\<lparr>debugger_breakpoints := dn @ survivors (\<lambda>bp. the (hit bp s)) bps,
      debugger_mode := (if \<exists>bp\<in>set bps. fst (the (hit bp s)) then DEBUGGER_MODE_HALTED else debugger_mode s)\<rparr>)"
  using assms
proof (induction bps arbitrary: dn s)
  case (Cons bp bps)
  obtain b bp' where h: "hit bp s = Some (b, bp')" using hit_some [of bp s] Cons.prems(1) by fastforce
  have sm: "commands bp' = None" "life bp' = life bp" using hit_same [OF h] Cons.prems(1) by (simp_all add: same_breakpoint_def)
  define m where "m = (if b then DEBUGGER_MODE_HALTED else debugger_mode s)"
  define dn' where "dn' = dn @ (if b \<and> life bp = DEBUGGER_BREAKPOINT_LIFE_ONESHOT then [] else [bp'])"
  define s' where "s' = s\<lparr>debugger_breakpoints := dn' @ bps, debugger_mode := m\<rparr>"
  have t: "trap (s\<lparr>debugger_breakpoints := bs, debugger_mode := m'\<rparr>) = None" for bs m' by (rule Cons.prems(2))
  have "walk hit cmd trap dn (bp # bps) s = walk hit cmd trap dn' bps s'"
    using t [where bs = "dn @ bps" and m' = DEBUGGER_MODE_HALTED] t [where bs = "dn @ bp' # bps" and m' = DEBUGGER_MODE_HALTED]
    by (cases b) (simp_all add: h sm Let_def s'_def dn'_def m_def)
  moreover have hx: "hit x s' = hit x s" if "x \<in> set bps" for x
    using that Cons.prems(1) hit_frame by (auto simp: s'_def)
  then have "survivors (\<lambda>bp. the (hit bp s')) bps = survivors (\<lambda>bp. the (hit bp s)) bps"
    "(\<exists>bp\<in>set bps. fst (the (hit bp s'))) = (\<exists>bp\<in>set bps. fst (the (hit bp s)))"
    unfolding survivors_def by (intro arg_cong [where f = concat] map_cong refl, simp) (intro bex_cong refl, simp add: hx)
  moreover have "trap (s'\<lparr>debugger_breakpoints := bs, debugger_mode := m'\<rparr>) = None" for bs m'
    using t by (simp add: s'_def)
  ultimately show ?case
    using Cons.IH [of s' dn'] Cons.prems(1) h by (simp add: s'_def dn'_def m_def)
qed simp

lemma walk_whole:
  assumes "\<forall>bp\<in>set (debugger_breakpoints s). looks_at bp \<and> commands bp = None"
    and "\<And>bs m. trap (s\<lparr>debugger_breakpoints := bs, debugger_mode := m\<rparr>) = None"
  shows "walk hit cmd trap [] (debugger_breakpoints s) s = Some (False, walk_spec (\<lambda>bp. the (hit bp s)) s)"
  using walk_pass [where dn = "[]"] assms by (simp add: walk_spec_def)

end


section \<open>System variables that do not look at the debugger\<close>

locale quiet_variables =
  fixes svs :: "('u, 'z) breakpoint_state_scheme system_variable_t list"
  assumes sv_frame: "i < length svs \<Longrightarrow> sv_get (svs ! i) (s\<lparr>debugger_breakpoints := bps, debugger_mode := m\<rparr>) = sv_get (svs ! i) s"
begin

lemma evaluate_frame:
  "in_scope (length svs) e \<Longrightarrow>
   debugger_expression_evaluate svs (s\<lparr>debugger_breakpoints := bps, debugger_mode := m\<rparr>) e = debugger_expression_evaluate svs s e"
proof (induction e)
  case (Unaryop op e)
  then show ?case by (cases op) (simp_all add: readbyte_internal_def read_mapping_def)
qed (simp_all add: debugger_system_variable_get_def sv_frame debugger_variable_get_def)

lemma trigger_frame:
  assumes "bp_ok (length svs) bp"
  shows "debugger_breakpoint_trigger svs bp (s\<lparr>debugger_breakpoints := bps, debugger_mode := m\<rparr>) = debugger_breakpoint_trigger svs bp s"
proof -
  have "condition (mark_triggered bp) = condition bp" by (simp add: mark_triggered_def split: debugger_breakpoint_value.split)
  then have "debugger_expression_evaluate svs (s\<lparr>debugger_breakpoints := bps, debugger_mode := m\<rparr>) e = debugger_expression_evaluate svs s e"
    if "condition bp = Some e \<or> condition (mark_triggered bp) = Some e" for e
    using assms that by (intro evaluate_frame) (simp add: bp_ok_def condition_ok_def)
  then show ?thesis unfolding debugger_breakpoint_trigger_def Let_def by (auto split: option.splits)
qed

lemma matches_frame: "value_matches bp ty val (s\<lparr>debugger_breakpoints := bps, debugger_mode := m\<rparr>) = value_matches bp ty val s"
  unfolding value_matches_def get_page_def
  by (simp split: debugger_breakpoint_type.split debugger_breakpoint_value.split)

lemma check_frame:
  "bp_ok (length svs) bp \<Longrightarrow>
   breakpoint_check svs ty val bp (s\<lparr>debugger_breakpoints := bps, debugger_mode := m\<rparr>) = breakpoint_check svs ty val bp s"
  unfolding breakpoint_check_def by (simp add: matches_frame trigger_frame split: option.split bool.split)

lemma event_hit_frame:
  "bp_ok (length svs) bp \<Longrightarrow> event_hit svs ev bp (s\<lparr>debugger_breakpoints := bps, debugger_mode := m\<rparr>) = event_hit svs ev bp s"
  unfolding event_hit_def by (simp add: trigger_frame split: debugger_breakpoint_value.split)

lemma check_walk: "ty \<noteq> DEBUGGER_BREAKPOINT_TYPE_EVENT \<Longrightarrow> breakpoint_walk (breakpoint_check svs ty val) (bp_ok (length svs))"
  by unfold_locales (auto simp: check_frame breakpoint_check_typed intro: breakpoint_check_same)

lemma event_hit_walk: "breakpoint_walk (event_hit svs ev) (bp_ok (length svs))"
  by unfold_locales (auto simp: event_hit_frame event_hit_typed intro: event_hit_same)

end

lemma length_z80_variables [simp]: "length (z80_debugger_variables_init []) = 36"
  by (simp add: init_map z80_registers_def)

interpretation z80_variables: quiet_variables "z80_debugger_variables_init []"
proof unfold_locales
  fix i and s :: "('u, 'z) breakpoint_state_scheme" and bps m
  assume "i < length (z80_debugger_variables_init [] :: ('u, 'z) breakpoint_state_scheme system_variable_t list)"
  then have i: "i < 36" by simp
  obtain d get put where r: "z80_registers ! i = (d, get, put)" by (cases "z80_registers ! i")
  show "sv_get (z80_debugger_variables_init [] ! i) (s\<lparr>debugger_breakpoints := bps, debugger_mode := m\<rparr>) =
    sv_get (z80_debugger_variables_init [] ! i) s"
    by (simp add: register_access [OF i r])
qed

interpretation event_walk: breakpoint_walk "event_hit (z80_debugger_variables_init []) ev" "bp_ok 36" for ev
  using z80_variables.event_hit_walk [of ev] by simp

interpretation time_walk: breakpoint_walk "breakpoint_check (z80_debugger_variables_init []) DEBUGGER_BREAKPOINT_TYPE_TIME val" "bp_ok 36" for val
  using z80_variables.check_walk [of DEBUGGER_BREAKPOINT_TYPE_TIME val] by simp


section \<open>The well-formed states\<close>

definition bps_ok :: "64 word \<Rightarrow> debugger_breakpoint list \<Rightarrow> bool" where
  "bps_ok nxt bps \<longleftrightarrow> (\<forall>bp\<in>set bps. bp_ok 36 bp \<and> bp_id bp < nxt) \<and> sorted_wrt (<) (List.map bp_id bps)"


lemma bps_ok_nil [simp]: "bps_ok n []"
  by (simp add: bps_ok_def)









lemma event_add_debugger [simp]:
  "debugger_breakpoints (event_add_with_data ins t ty d s) = debugger_breakpoints s"
  "debugger_mode (event_add_with_data ins t ty d s) = debugger_mode s"
  "next_breakpoint_id (event_add_with_data ins t ty d s) = next_breakpoint_id s"
  "debugger_breakpoint_event (event_add_with_data ins t ty d s) = debugger_breakpoint_event s"
  "gdbserver_debugging_enabled (event_add_with_data ins t ty d s) = gdbserver_debugging_enabled s"
  "debugger_breakpoints_remove_pending (event_add_with_data ins t ty d s) = debugger_breakpoints_remove_pending s"
  "z80 (event_add_with_data ins t ty d s) = z80 s"
  by (simp_all add: event_add_with_data_def Let_def)

lemma breakpoint_add_fields:
  "debugger_breakpoints (breakpoint_add ins null ty v ig lf c s) = debugger_breakpoints s @
     [\<lparr>bp_id = next_breakpoint_id s, bp_type = ty, bp_value = v, ignore = ig, life = lf,
       condition = map_option debugger_expression_copy c, commands = None\<rparr>]"
  "debugger_mode (breakpoint_add ins null ty v ig lf c s) =
     (if debugger_mode s = DEBUGGER_MODE_INACTIVE then DEBUGGER_MODE_ACTIVE else debugger_mode s)"
  "next_breakpoint_id (breakpoint_add ins null ty v ig lf c s) = next_breakpoint_id s + 1"
  by (auto simp: breakpoint_add_def Let_def split: debugger_breakpoint_value.split)













section \<open>The operations of the debugger as a step relation\<close>

text \<open>
  \<open>debugging ins null cmd activate s s'\<close>: some operations lead from \<open>s\<close> to \<open>s'\<close>. A breakpoint
  is added while the counter of numbers has not run out, with a condition whose variables exist.
\<close>

inductive breakpoint_step ::
  "(('u event \<Rightarrow> 'u event \<Rightarrow> int) \<Rightarrow> 'u event \<Rightarrow> 'u event list \<Rightarrow> 'u event list) \<Rightarrow> 'u \<Rightarrow>
   (string \<Rightarrow> ('u, 'z) breakpoint_state_scheme \<Rightarrow> ('u, 'z) breakpoint_state_scheme) \<Rightarrow>
   (('u, 'z) breakpoint_state_scheme \<Rightarrow> ('u, 'z) breakpoint_state_scheme) \<Rightarrow>
   ('u, 'z) breakpoint_state_scheme \<Rightarrow> ('u, 'z) breakpoint_state_scheme \<Rightarrow> bool"
  for ins null cmd activate where
  step_add_address: "debugger_breakpoint_add_address ins null ty src pg off ig lf c s = Some s' \<Longrightarrow> condition_ok 36 c \<Longrightarrow>
    next_breakpoint_id s \<noteq> -1 \<Longrightarrow> breakpoint_step ins null cmd activate s s'"
| step_add_port: "debugger_breakpoint_add_port ins null ty p m ig lf c s = Some s' \<Longrightarrow> condition_ok 36 c \<Longrightarrow>
    next_breakpoint_id s \<noteq> -1 \<Longrightarrow> breakpoint_step ins null cmd activate s s'"
| step_add_time: "debugger_breakpoint_add_time ins null ty t ig lf c s = Some s' \<Longrightarrow> condition_ok 36 c \<Longrightarrow>
    next_breakpoint_id s \<noteq> -1 \<Longrightarrow> breakpoint_step ins null cmd activate s s'"
| step_add_event: "debugger_breakpoint_add_event ins null ty et d ig lf c s = Some (Inr s') \<Longrightarrow> condition_ok 36 c \<Longrightarrow>
    next_breakpoint_id s \<noteq> -1 \<Longrightarrow> breakpoint_step ins null cmd activate s s'"
| step_check: "debugger_check (z80_debugger_variables_init []) cmd activate ty val s = Some (b, s') \<Longrightarrow> breakpoint_step ins null cmd activate s s'"
| step_event: "debugger_event (z80_debugger_variables_init []) cmd code s = Some s' \<Longrightarrow> breakpoint_step ins null cmd activate s s'"
| step_register: "breakpoint_step ins null cmd activate s (snd (debugger_event_register et d s))"
| step_reduce: "breakpoint_step ins null cmd activate s (debugger_breakpoint_reduce_tstates n s)"
| step_frame: "breakpoint_step ins null cmd activate s (debugger_add_time_events ins null s)"
| step_remove: "debugger_breakpoint_remove n s = Inr s' \<Longrightarrow> breakpoint_step ins null cmd activate s s'"
| step_clear: "breakpoint_step ins null cmd activate s (snd (debugger_breakpoint_clear a s))"
| step_remove_all: "breakpoint_step ins null cmd activate s (debugger_breakpoint_remove_all s)"
| step_ignore: "debugger_breakpoint_ignore n k s = Inr s' \<Longrightarrow> breakpoint_step ins null cmd activate s s'"
| step_condition: "debugger_breakpoint_set_condition n c s = Inr s' \<Longrightarrow> condition_ok 36 c \<Longrightarrow> breakpoint_step ins null cmd activate s s'"
| step_commands: "debugger_breakpoint_set_commands n tx s = Inr s' \<Longrightarrow> breakpoint_step ins null cmd activate s s'"
| step_one: "breakpoint_step ins null cmd activate s (debugger_step s)"
| step_run: "breakpoint_step ins null cmd activate s (debugger_run s)"
| step_exit: "debugger_breakpoint_exit ins null s = Some s' \<Longrightarrow> next_breakpoint_id s \<noteq> -1 \<Longrightarrow> breakpoint_step ins null cmd activate s s'"
| step_reset: "breakpoint_step ins null cmd activate s (debugger_reset s)"
| step_elsewhere: "debugger_breakpoints s' = debugger_breakpoints s \<Longrightarrow> debugger_mode s' = debugger_mode s \<Longrightarrow>
    next_breakpoint_id s' = next_breakpoint_id s \<Longrightarrow> breakpoint_step ins null cmd activate s s'"

inductive_cases debugger_stepE: "breakpoint_step ins null cmd activate s s'"















section \<open>Checks without commands\<close>

definition no_commands :: "('u, 'z) breakpoint_state_scheme \<Rightarrow> bool" where
  "no_commands s \<longleftrightarrow> (\<forall>bp\<in>set (debugger_breakpoints s). bp_ok 36 bp \<and> commands bp = None) \<and>
     \<not> debugger_breakpoints_remove_pending s \<and> \<not> gdbserver_debugging_enabled s"

lemma check_pass:
  assumes "no_commands s" "ty \<noteq> DEBUGGER_BREAKPOINT_TYPE_EVENT" "debugger_mode s = DEBUGGER_MODE_ACTIVE"
  shows "debugger_check (z80_debugger_variables_init []) cmd activate ty val s =
    (let hit = (\<lambda>bp. the (breakpoint_check (z80_debugger_variables_init []) ty val bp s))
     in Some (\<exists>bp\<in>set (debugger_breakpoints s). fst (hit bp), walk_spec hit s))"
proof -
  have w: "breakpoint_walk (breakpoint_check (z80_debugger_variables_init [] :: ('a, 'b) breakpoint_state_scheme system_variable_t list) ty val) (bp_ok 36)"
    using z80_variables.check_walk [OF assms(2)] by simp
  show ?thesis
    using breakpoint_walk.walk_whole [OF w, of s "gdb_trap activate" cmd] assms
    by (auto simp: debugger_check_def no_commands_def gdb_trap_def walk_spec_def Let_def)
qed

lemma event_pass:
  assumes "no_commands s" "code < length (registered_events s)"
  shows "debugger_event (z80_debugger_variables_init []) cmd code s =
    Some (walk_spec (\<lambda>bp. the (event_hit (z80_debugger_variables_init []) (registered_events s ! code) bp s)) s)"
  using event_walk.walk_whole [of s "\<lambda>_. None" "registered_events s ! code" cmd] assms
  by (simp add: debugger_event_def no_commands_def)

text \<open>Nothing happens when nothing is of the type.\<close>

lemma check_none:
  assumes "no_commands s" "ty \<noteq> DEBUGGER_BREAKPOINT_TYPE_EVENT" "debugger_mode s = DEBUGGER_MODE_ACTIVE"
    and "\<forall>bp\<in>set (debugger_breakpoints s). bp_type bp \<noteq> ty"
  shows "debugger_check (z80_debugger_variables_init []) cmd activate ty val s = Some (False, s)"
proof -
  let ?hit = "\<lambda>bp. the (breakpoint_check (z80_debugger_variables_init []) ty val bp s)"
  have h: "?hit bp = (False, bp)" if "bp \<in> set (debugger_breakpoints s)" for bp
    using that assms(4) by (simp add: breakpoint_check_def)
  then have "survivors ?hit bps = bps" if "set bps \<subseteq> set (debugger_breakpoints s)" for bps
    using that by (induction bps) auto
  then have "walk_spec ?hit s = s" using h by (simp add: walk_spec_def)
  then show ?thesis unfolding check_pass [OF assms(1-3)] Let_def using h by simp
qed

section \<open>Reads that are checked\<close>

text \<open>The bus as \<open>readbyte\<close> and \<open>writebyte\<close> use it: the debugger is asked before every access.\<close>

definition debugged_bus ::
  "(string \<Rightarrow> ('u, 'z) breakpoint_state_scheme \<Rightarrow> ('u, 'z) breakpoint_state_scheme) \<Rightarrow>
   (('u, 'z) breakpoint_state_scheme \<Rightarrow> ('u, 'z) breakpoint_state_scheme) \<Rightarrow>
   ('u, 'z) breakpoint_state_scheme bus_devices \<Rightarrow> ('u, 'z) breakpoint_state_scheme bus_devices" where
  "debugged_bus cmd activate dev =
    (let ask = (\<lambda>ty a s. case debugger_check (z80_debugger_variables_init []) cmd activate ty (ucast (a :: u16)) s of
                  None \<Rightarrow> s | Some (b, s') \<Rightarrow> s')
     in dev\<lparr>debugger_check_read := ask DEBUGGER_BREAKPOINT_TYPE_READ, debugger_check_write := ask DEBUGGER_BREAKPOINT_TYPE_WRITE\<rparr>)"

definition calm :: "('u, 'z) breakpoint_state_scheme \<Rightarrow> bool" where
  "calm s \<longleftrightarrow> plain_bus (s\<lparr>debugger_active := False\<rparr>) \<and> no_commands s \<and> debugger_mode s = DEBUGGER_MODE_ACTIVE \<and>
     (\<forall>bp\<in>set (debugger_breakpoints s). bp_type bp \<noteq> DEBUGGER_BREAKPOINT_TYPE_READ)"

lemma read_moves [simp]:
  "readbyte_internal a (s\<lparr>tstates := t\<rparr>) = readbyte_internal a s" "readbyte_internal a (set_z80 f s) = readbyte_internal a s"
  "readbyte_internal a (s\<lparr>z80 := p\<rparr>) = readbyte_internal a s"
  by (simp_all add: readbyte_internal_def read_mapping_def set_z80_def)

lemma readbyte_calm:
  "calm s \<Longrightarrow> readbyte (debugged_bus cmd activate dev) a s = (readbyte_internal a s, access_time (read_mapping a s) s)"
  using check_none [of s DEBUGGER_BREAKPOINT_TYPE_READ cmd activate "ucast a"]
  by (simp add: readbyte_def debugged_bus_def Let_def calm_def plain_bus_def access_time_def read_mapping_def)

lemma calm_frame [simp]: "calm (s\<lparr>tstates := t\<rparr>) = calm s" "calm (set_z80 f s) = calm s"
  by (simp_all add: calm_def plain_bus_def no_commands_def set_z80_def)

lemma calm_access [simp]: "calm (access_time m s) = calm s"
  by (simp add: access_time_def Let_def)

lemma pop_calm:
  "calm s \<Longrightarrow> \<exists>t. pop_byte (debugged_bus cmd activate dev) s =
    (readbyte_internal (SP (z80 s)) s, (set_z80 (\<lambda>p. p\<lparr>SP := SP p + 1\<rparr>) s)\<lparr>tstates := t\<rparr>)"
  by (auto simp: pop_byte_def Let_def readbyte_calm access_time_def)

lemma ret_calm:
  assumes "calm s"
  shows "\<exists>t p. RET (debugged_bus cmd activate dev) s = s\<lparr>tstates := t, z80 := p\<rparr> \<and>
    PC p = mkw (readbyte_internal (SP (z80 s) + 1) s) (readbyte_internal (SP (z80 s)) s) \<and> SP p = SP (z80 s) + 2"
proof -
  obtain t where t: "pop_byte (debugged_bus cmd activate dev) s =
    (readbyte_internal (SP (z80 s)) s, (set_z80 (\<lambda>p. p\<lparr>SP := SP p + 1\<rparr>) s)\<lparr>tstates := t\<rparr>)"
    using pop_calm [OF assms] by blast
  have c: "calm ((set_z80 (\<lambda>p. p\<lparr>SP := SP p + 1\<rparr>) s)\<lparr>tstates := t\<rparr>)" using assms by simp
  let ?w = "mkw (readbyte_internal (SP (z80 s) + 1) s) (readbyte_internal (SP (z80 s)) s)"
  obtain t' where t': "pop_byte (debugged_bus cmd activate dev) ((set_z80 (\<lambda>p. p\<lparr>SP := SP p + 1\<rparr>) s)\<lparr>tstates := t\<rparr>) =
    (readbyte_internal (SP (z80 s) + 1) s, (set_z80 (\<lambda>p. p\<lparr>SP := SP p + 1\<rparr>) ((set_z80 (\<lambda>p. p\<lparr>SP := SP p + 1\<rparr>) s)\<lparr>tstates := t\<rparr>))\<lparr>tstates := t'\<rparr>)"
    using pop_calm [OF c, of cmd activate dev] by (auto simp del: set_z80_def)
  show ?thesis
    by (intro exI [of _ t'] exI [of _ "(z80 s)\<lparr>SP := SP (z80 s) + 2, PC := ?w, memptr := ?w\<rparr>"])
      (simp add: RET_def POP16_def t t', simp add: set_z80_def)
qed


section \<open>Time breakpoints\<close>












lemma event_add_member:
  assumes "insert_sorted_law ins"
  shows "set (event_list (event_add_with_data ins t ty d s)) = insert \<lparr>ev_tstates = t, ev_type = ty, user_data = d\<rparr> (set (event_list s))"
proof -
  obtain ys zs where "event_list s = ys @ zs"
     "ins event_add_cmp \<lparr>ev_tstates = t, ev_type = ty, user_data = d\<rparr> (event_list s) = ys @ \<lparr>ev_tstates = t, ev_type = ty, user_data = d\<rparr> # zs"
    using assms unfolding insert_sorted_law_def by blast
  then show ?thesis by (auto simp: event_add_with_data_def Let_def)
qed

lemma add_time_fields:
  assumes "debugger_breakpoint_add_time ins null ty t ig lf c s = Some s'"
  shows "ty = DEBUGGER_BREAKPOINT_TYPE_TIME" "debugger_breakpoints s' = debugger_breakpoints s @
     [\<lparr>bp_id = next_breakpoint_id s, bp_type = ty, bp_value = Time t t False, ignore = ig, life = lf,
       condition = map_option debugger_expression_copy c, commands = None\<rparr>]"
    "debugger_mode s' = (if debugger_mode s = DEBUGGER_MODE_INACTIVE then DEBUGGER_MODE_ACTIVE else debugger_mode s)"
    "debugger_breakpoints_remove_pending s' = debugger_breakpoints_remove_pending s"
    "gdbserver_debugging_enabled s' = gdbserver_debugging_enabled s"
    "debugger_breakpoint_event s' = debugger_breakpoint_event s"
    "event_list s' = event_list (event_add_with_data ins t (debugger_breakpoint_event s) null s)"
    "event_next_event s' = event_next_event (event_add_with_data ins t (debugger_breakpoint_event s) null s)"
  using assms by (auto simp: debugger_breakpoint_add_time_def breakpoint_add_def Let_def event_add_with_data_def split: if_splits)

text \<open>Every time breakpoint that has not triggered has its event in the queue.\<close>

definition waits :: "int \<Rightarrow> 'u event set \<Rightarrow> debugger_breakpoint \<Rightarrow> bool" where
  "waits k es bp \<longleftrightarrow> (\<forall>t t0. bp_type bp = DEBUGGER_BREAKPOINT_TYPE_TIME \<longrightarrow> bp_value bp = Time t t0 False \<longrightarrow>
     (\<exists>e\<in>es. ev_type e = k \<and> ev_tstates e = t))"

definition triggered :: "debugger_breakpoint \<Rightarrow> bool" where
  "triggered bp \<longleftrightarrow> (bp_type bp = DEBUGGER_BREAKPOINT_TYPE_TIME \<and> (\<exists>t t0. bp_value bp = Time t t0 True))"

definition timed :: "('u, 'z) breakpoint_state_scheme \<Rightarrow> bool" where
  "timed s \<longleftrightarrow> (\<forall>bp\<in>set (debugger_breakpoints s). waits (debugger_breakpoint_event s) (set (event_list s)) bp)"

lemma waits_mono: "waits k es bp \<Longrightarrow> es \<subseteq> es' \<Longrightarrow> waits k es' bp"
  unfolding waits_def by blast

lemma waits_frame:
  "waits k es bp \<Longrightarrow> bp_type bp = DEBUGGER_BREAKPOINT_TYPE_TIME \<Longrightarrow> bp_value bp = Time t t0 False \<Longrightarrow>
   waits k ((\<lambda>e. e\<lparr>ev_tstates := ev_tstates e - n\<rparr>) ` es) (bp\<lparr>bp_value := Time (t - n) t0 False\<rparr>)"
  by (force simp: waits_def)

lemma waits_other: "bp_type bp \<noteq> DEBUGGER_BREAKPOINT_TYPE_TIME \<or> (\<forall>t t0. bp_value bp \<noteq> Time t t0 False) \<Longrightarrow> waits k es bp"
  by (auto simp: waits_def)

lemma timed_frame:
  assumes "timed s" "debugger_mode s = DEBUGGER_MODE_ACTIVE"
  shows "timed (debugger_breakpoint_reduce_tstates n (event_frame n s))"
proof -
  define f where "f = (\<lambda>bp :: debugger_breakpoint. if bp_type bp = DEBUGGER_BREAKPOINT_TYPE_TIME
       then (case bp_value bp of Time t t0 False \<Rightarrow> bp\<lparr>bp_value := Time (t - n) t0 False\<rparr> | _ \<Rightarrow> bp) else bp)"
  have "waits (debugger_breakpoint_event s) ((\<lambda>e. e\<lparr>ev_tstates := ev_tstates e - n\<rparr>) ` set (event_list s)) (f bp)"
    if b: "bp \<in> set (debugger_breakpoints s)" for bp
  proof -
    have "waits (debugger_breakpoint_event s) (set (event_list s)) bp" using assms(1) b by (simp add: timed_def)
    then show ?thesis using waits_frame
      by (auto simp: f_def split: debugger_breakpoint_value.split bool.split intro: waits_other)
  qed
  then show ?thesis
    using assms(2) by (simp add: timed_def debugger_breakpoint_reduce_tstates_def event_frame_def Let_def f_def [symmetric])
qed

lemma timed_add_event:
  assumes "insert_sorted_law ins" "add_time_event ins null bp s = (bp', s')" "waits (debugger_breakpoint_event s) (set (event_list s)) bp"
  shows "debugger_breakpoint_event s' = debugger_breakpoint_event s \<and> set (event_list s) \<subseteq> set (event_list s') \<and>
     \<not> triggered bp' \<and> waits (debugger_breakpoint_event s) (set (event_list s')) bp'"
  using assms(2,3)
  by (auto simp: add_time_event_def event_add_member [OF assms(1)] triggered_def waits_def
      split: debugger_breakpoint_value.splits bool.splits if_splits)

lemma timed_add_events:
  assumes "insert_sorted_law ins"
  shows "add_time_events ins null bps s = (bps', s') \<Longrightarrow> \<forall>bp\<in>set bps. waits (debugger_breakpoint_event s) (set (event_list s)) bp \<Longrightarrow>
    debugger_breakpoint_event s' = debugger_breakpoint_event s \<and> set (event_list s) \<subseteq> set (event_list s') \<and>
    (\<forall>bp\<in>set bps'. \<not> triggered bp \<and> waits (debugger_breakpoint_event s) (set (event_list s')) bp)"
proof (induction bps arbitrary: bps' s s')
  case (Cons bp bps)
  obtain bp1 s1 where a: "add_time_event ins null bp s = (bp1, s1)" by fastforce
  obtain bps1 where b: "add_time_events ins null bps s1 = (bps1, s')" "bps' = bp1 # bps1"
    using Cons.prems(1) a by (auto simp: Let_def split: prod.splits)
  have h: "waits (debugger_breakpoint_event s) (set (event_list s)) bp" using Cons.prems(2) by simp
  note s1 = timed_add_event [OF assms a h]
  then have "\<forall>bp\<in>set bps. waits (debugger_breakpoint_event s1) (set (event_list s1)) bp"
    using Cons.prems(2) waits_mono [of "debugger_breakpoint_event s" "set (event_list s)" _ "set (event_list s1)"] by simp
  note ih = Cons.IH [OF b(1) this]
  have "waits (debugger_breakpoint_event s) (set (event_list s')) bp1"
    by (rule waits_mono [of _ "set (event_list s1)"]) (use s1 ih in simp_all)
  moreover have "set (event_list s) \<subseteq> set (event_list s')" by (rule subset_trans [of _ "set (event_list s1)"]) (use s1 ih in simp_all)
  ultimately show ?case using ih s1 unfolding b(2) by simp
qed simp

lemma timed_added:
  assumes "insert_sorted_law ins" "timed s"
  shows "timed (debugger_add_time_events ins null s) \<and> (\<forall>bp\<in>set (debugger_breakpoints (debugger_add_time_events ins null s)). \<not> triggered bp)"
proof -
  obtain bps s1 where a: "add_time_events ins null (debugger_breakpoints s) s = (bps, s1)" by fastforce
  then show ?thesis
    using timed_add_events [OF assms(1) a] assms(2) by (simp add: timed_def debugger_add_time_events_def)
qed


section \<open>A state to try it on\<close>

definition demo_debugger :: "unit breakpoint_state" where
  "demo_debugger = z80_state.extend demo_z80
     \<lparr>debugger_variables = Map.empty, debugger_output_base = 16, debugger_breakpoints = [],
      debugger_breakpoints_remove_pending = False, next_breakpoint_id = 1, debugger_mode = DEBUGGER_MODE_INACTIVE,
      debugger_breakpoint_event = 1, gdbserver_debugging_enabled = False, registered_events = [(''tape'', ''play'')], debugger_tstates = 0\<rparr>"

lemma demo_debugger_facts [simp]:
  "z80 demo_debugger = demo_processor" "tstates demo_debugger = 0" "debugger_breakpoints demo_debugger = []"
  "debugger_breakpoints_remove_pending demo_debugger = False" "next_breakpoint_id demo_debugger = 1"
  "debugger_mode demo_debugger = DEBUGGER_MODE_INACTIVE" "debugger_breakpoint_event demo_debugger = 1"
  "gdbserver_debugging_enabled demo_debugger = False" "registered_events demo_debugger = [(''tape'', ''play'')]"
  "plain_bus demo_debugger" "event_list demo_debugger = event_list demo_z80" "event_next_event demo_debugger = event_next_event demo_z80"
proof -
  have "plain_bus demo_z80" using demo_z80_facts(6) by (simp add: stack_ok_def)
  then show "z80 demo_debugger = demo_processor" "tstates demo_debugger = 0" "debugger_breakpoints demo_debugger = []"
    "debugger_breakpoints_remove_pending demo_debugger = False" "next_breakpoint_id demo_debugger = 1"
    "debugger_mode demo_debugger = DEBUGGER_MODE_INACTIVE" "debugger_breakpoint_event demo_debugger = 1"
    "gdbserver_debugging_enabled demo_debugger = False" "registered_events demo_debugger = [(''tape'', ''play'')]"
    "plain_bus demo_debugger" "event_list demo_debugger = event_list demo_z80" "event_next_event demo_debugger = event_next_event demo_z80"
    using demo_z80_facts by (simp_all add: demo_debugger_def z80_state.extend_def plain_bus_def)
qed

section \<open>The properties\<close>

text \<open>
  C20. Breakpoints without commands: one check is one pass over the list. Every breakpoint is judged in the
  state at the start of the check, whatever the others do; the emulation stops when one of them triggers; those
  that live once are dropped when they trigger and every other stays, in order, with its counters moved on.
  The events of components are handled the same way, whatever the mode.
\<close>

theorem debugger_check_is_one_pass:
  fixes s :: "('u, 'z) breakpoint_state_scheme"
  assumes "no_commands s" "ty \<noteq> DEBUGGER_BREAKPOINT_TYPE_EVENT" "debugger_mode s = DEBUGGER_MODE_ACTIVE" "code < length (registered_events s)"
  shows "let hit = (\<lambda>bp. the (breakpoint_check (z80_debugger_variables_init []) ty val bp s));
             hit_event = (\<lambda>bp. the (event_hit (z80_debugger_variables_init []) (registered_events s ! code) bp s))
         in debugger_check (z80_debugger_variables_init []) cmd activate ty val s =
              Some (\<exists>bp\<in>set (debugger_breakpoints s). fst (hit bp), walk_spec hit s) \<and>
            debugger_event (z80_debugger_variables_init []) cmd code s = Some (walk_spec hit_event s)"
  unfolding Let_def using check_pass [OF assms(1-3)] event_pass [OF assms(1,4)] by (simp add: Let_def)

definition two_breakpoints :: "unit breakpoint_state" where
  "two_breakpoints = the (debugger_breakpoint_add_address insert_sorted_ref () DEBUGGER_BREAKPOINT_TYPE_EXECUTE memory_source_any 0 0x1234 1
      DEBUGGER_BREAKPOINT_LIFE_PERMANENT None
    (the (debugger_breakpoint_add_address insert_sorted_ref () DEBUGGER_BREAKPOINT_TYPE_EXECUTE memory_source_any 0 0x1234 0
      DEBUGGER_BREAKPOINT_LIFE_ONESHOT (Some (Binaryop Op_eq (System_variable 25) (Integer 0x5678))) demo_debugger)))"

lemma two_breakpoints_facts:
  "debugger_breakpoints two_breakpoints =
    [\<lparr>bp_id = 1, bp_type = DEBUGGER_BREAKPOINT_TYPE_EXECUTE, bp_value = Address memory_source_any 0 0x1234, ignore = 0,
      life = DEBUGGER_BREAKPOINT_LIFE_ONESHOT, condition = Some (Binaryop Op_eq (System_variable 25) (Integer 0x5678)), commands = None\<rparr>,
     \<lparr>bp_id = 2, bp_type = DEBUGGER_BREAKPOINT_TYPE_EXECUTE, bp_value = Address memory_source_any 0 0x1234, ignore = 1,
      life = DEBUGGER_BREAKPOINT_LIFE_PERMANENT, condition = None, commands = None\<rparr>]"
  "debugger_mode two_breakpoints = DEBUGGER_MODE_ACTIVE" "no_commands two_breakpoints"
  "registered_events two_breakpoints = [(''tape'', ''play'')]" "z80 two_breakpoints = demo_processor"
  by (simp_all add: two_breakpoints_def debugger_breakpoint_add_address_def breakpoint_add_def Let_def no_commands_def bp_ok_def condition_ok_def)

theorem debugger_check_is_one_pass_witness:
  "\<exists>s'. debugger_check (z80_debugger_variables_init []) (\<lambda>_ s. s) id DEBUGGER_BREAKPOINT_TYPE_EXECUTE 0x1234 two_breakpoints = Some (True, s') \<and>
     debugger_mode s' = DEBUGGER_MODE_HALTED \<and> List.map bp_id (debugger_breakpoints s') = [2] \<and> List.map ignore (debugger_breakpoints s') = [0]"
proof -
  have m: "z80_registers ! 25 = (''pc'', \<lambda>p. ucast (PC p), \<lambda>v p. p\<lparr>PC := ucast v\<rparr>)" by (simp add: z80_registers_def)
  have g: "sv_get (z80_debugger_variables_init [] ! 25) two_breakpoints = 0x5678"
    by (simp add: register_access(1) [OF _ m] two_breakpoints_facts demo_processor_def)
  have "let hit = (\<lambda>bp. the (breakpoint_check (z80_debugger_variables_init []) DEBUGGER_BREAKPOINT_TYPE_EXECUTE 0x1234 bp two_breakpoints))
    in (\<exists>bp\<in>set (debugger_breakpoints two_breakpoints). fst (hit bp)) \<and> List.map bp_id (survivors hit (debugger_breakpoints two_breakpoints)) = [2] \<and>
       List.map ignore (survivors hit (debugger_breakpoints two_breakpoints)) = [0]"
    by (simp add: Let_def two_breakpoints_facts(1) breakpoint_check_def value_matches_def debugger_breakpoint_trigger_def
        debugger_system_variable_get_def g truth_def)
  then show ?thesis
    using debugger_check_is_one_pass [OF two_breakpoints_facts(3) _ two_breakpoints_facts(2), of DEBUGGER_BREAKPOINT_TYPE_EXECUTE 0 "0x1234" "\<lambda>_ s. s" id]
    by (simp add: Let_def two_breakpoints_facts(4) walk_spec_def)
qed













text \<open>
  C23. The events of the time breakpoints: each one that has not triggered has an event at its time; that holds after
  one is added, after the end of a frame while the debugger is active, and after the triggered ones
  have been set up again, when none is left triggered.
\<close>

theorem time_breakpoints_keep_events:
  assumes "insert_sorted_law ins" "timed s"
  shows "(debugger_breakpoint_add_time ins null ty t ig lf c s = Some s' \<longrightarrow> timed s') \<and>
    (debugger_mode s = DEBUGGER_MODE_ACTIVE \<longrightarrow> timed (debugger_breakpoint_reduce_tstates n (event_frame n s))) \<and>
    timed (debugger_add_time_events ins null s) \<and>
    (\<forall>bp\<in>set (debugger_breakpoints (debugger_add_time_events ins null s)). \<not> triggered bp)"
proof -
  have "timed s'" if a: "debugger_breakpoint_add_time ins null ty t ig lf c s = Some s'"
    using add_time_fields(2,6,7) [OF a] assms(2) waits_mono
    by (fastforce simp: timed_def event_add_member [OF assms(1)] waits_def)
  then show ?thesis using timed_frame [OF assms(2)] timed_added [OF assms] by simp
qed

theorem time_breakpoints_keep_events_witness:
  "\<exists>s. debugger_breakpoint_add_time insert_sorted_ref () DEBUGGER_BREAKPOINT_TYPE_TIME 500 0 DEBUGGER_BREAKPOINT_LIFE_PERMANENT None
       demo_debugger = Some s \<and> timed s"
proof -
  have d: "timed demo_debugger" by (simp add: timed_def)
  obtain s where s: "debugger_breakpoint_add_time insert_sorted_ref () DEBUGGER_BREAKPOINT_TYPE_TIME 500 0 DEBUGGER_BREAKPOINT_LIFE_PERMANENT None
       demo_debugger = Some s" by (simp add: debugger_breakpoint_add_time_def)
  then show ?thesis using time_breakpoints_keep_events [OF insert_sorted_ref_law d] by blast
qed

text \<open>
  C24. A frame that ends while the program is single-stepped loses time breakpoints: \<open>event_frame\<close> moves the event of the
  breakpoint to the new frame, \<open>debugger_breakpoint_reduce_tstates\<close> does nothing because the mode is not active, and when the
  event comes, after the emulation has been started again, the breakpoint is not due.
\<close>

theorem time_breakpoint_missed_after_step:
  fixes s :: "('u, 'z) breakpoint_state_scheme"
  assumes "debugger_breakpoints s = [bp]" "bp_type bp = DEBUGGER_BREAKPOINT_TYPE_TIME" "bp_value bp = Time t t0 False" "commands bp = None"
    "condition bp = None" "\<not> debugger_breakpoints_remove_pending s" "\<not> gdbserver_debugging_enabled s"
    and "event_list s = [e]" "ev_tstates e = t" "now < t"
  shows "let s1 = debugger_run (debugger_breakpoint_reduce_tstates n (event_frame n (debugger_step s)))
    in event_list s1 = [e\<lparr>ev_tstates := t - n\<rparr>] \<and> debugger_mode s1 = DEBUGGER_MODE_ACTIVE \<and>
       debugger_breakpoint_time_fn (z80_debugger_variables_init []) cmd activate (s1\<lparr>tstates := now\<rparr>) = Some (s1\<lparr>tstates := now\<rparr>)"
proof -
  define s1 where "s1 = debugger_run (debugger_breakpoint_reduce_tstates n (event_frame n (debugger_step s)))"
  have f: "event_list s1 = [e\<lparr>ev_tstates := t - n\<rparr>]" "debugger_mode s1 = DEBUGGER_MODE_ACTIVE" "debugger_breakpoints s1 = [bp]"
    "\<not> debugger_breakpoints_remove_pending s1" "\<not> gdbserver_debugging_enabled s1"
    using assms by (simp_all add: s1_def debugger_run_def debugger_step_def event_frame_def debugger_breakpoint_reduce_tstates_def Let_def)
  let ?s = "s1\<lparr>tstates := now\<rparr>"
  have n: "no_commands ?s" using assms f by (simp add: no_commands_def bp_ok_def condition_ok_def)
  have "breakpoint_check (z80_debugger_variables_init []) DEBUGGER_BREAKPOINT_TYPE_TIME 0 bp ?s = Some (False, bp)"
    using assms by (simp add: breakpoint_check_def value_matches_def)
  moreover have "?s\<lparr>debugger_breakpoints := [bp], debugger_mode := debugger_mode ?s\<rparr> = ?s" using f by simp
  ultimately have "walk_spec (\<lambda>bp. the (breakpoint_check (z80_debugger_variables_init []) DEBUGGER_BREAKPOINT_TYPE_TIME 0 bp ?s)) ?s = ?s"
    using f by (simp add: walk_spec_def)
  then have "debugger_breakpoint_time_fn (z80_debugger_variables_init []) cmd activate ?s = Some ?s"
    using check_pass [OF n debugger_breakpoint_type.distinct(41)] f by (simp add: debugger_breakpoint_time_fn_def Let_def)
  then show ?thesis using f by (simp add: s1_def [symmetric] Let_def)
qed

theorem time_breakpoint_missed_after_step_witness:
  "\<exists>(s :: unit breakpoint_state) e. event_list s = [e] \<and> ev_tstates e = 500 \<and>
    debugger_breakpoint_time_fn (z80_debugger_variables_init []) (\<lambda>_ s. s) id
      ((debugger_run (debugger_breakpoint_reduce_tstates 400 (event_frame 400 (debugger_step s))))\<lparr>tstates := 100\<rparr>) \<noteq> None \<and>
    debugger_mode (the (debugger_breakpoint_time_fn (z80_debugger_variables_init []) (\<lambda>_ s. s) id
      ((debugger_run (debugger_breakpoint_reduce_tstates 400 (event_frame 400 (debugger_step s))))\<lparr>tstates := 100\<rparr>))) = DEBUGGER_MODE_ACTIVE"
proof -
  define bp where "bp = \<lparr>bp_id = 1, bp_type = DEBUGGER_BREAKPOINT_TYPE_TIME, bp_value = Time 500 500 False, ignore = 0,
    life = DEBUGGER_BREAKPOINT_LIFE_PERMANENT, condition = None, commands = None\<rparr>"
  define e where "e = \<lparr>ev_tstates = 500, ev_type = 1, user_data = ()\<rparr>"
  define s where "s = demo_debugger\<lparr>debugger_breakpoints := [bp], event_list := [e]\<rparr>"
  show ?thesis
    using time_breakpoint_missed_after_step [of s bp 500 500 e 100 400 "\<lambda>_ s. s" id]
    by (intro exI [of _ s] exI [of _ e]) (simp add: s_def bp_def e_def Let_def)
qed

lemma bytes_word: "(ucast (l :: u8) :: u16) + 0x100 * ucast h = push_bit 8 (ucast (h :: u8)) OR ucast l"
proof -
  have "(ucast l :: u16) AND push_bit 8 (ucast h) = 0" by (rule bit_word_eqI) (auto simp: bit_simps dest: bit_imp_le_length)
  then have "(ucast l :: u16) + push_bit 8 (ucast h) = ucast l OR push_bit 8 (ucast h)"
    by (simp add: disjunctive_add_eq_or)
  then show ?thesis by (simp add: push_bit_eq_mult or.commute mult.commute)
qed

lemma check_same: "same_breakpoint bp (snd (the (breakpoint_check svs ty val bp s)))"
  if "breakpoint_check svs ty val bp s \<noteq> None"
  using that breakpoint_check_same by fastforce

definition stop_at :: "64 word \<Rightarrow> u16 \<Rightarrow> debugger_breakpoint" where
  "stop_at n w = \<lparr>bp_id = n, bp_type = DEBUGGER_BREAKPOINT_TYPE_EXECUTE, bp_value = Address memory_source_any 0 w,
     ignore = 0, life = DEBUGGER_BREAKPOINT_LIFE_ONESHOT, condition = None, commands = None\<rparr>"

lemma stop_at_added:
  assumes "map_option debugger_run (debugger_breakpoint_add_address ins null DEBUGGER_BREAKPOINT_TYPE_EXECUTE memory_source_any 0 w 0
     DEBUGGER_BREAKPOINT_LIFE_ONESHOT None s) = Some s1"
  shows "debugger_breakpoints s1 = debugger_breakpoints s @ [stop_at (next_breakpoint_id s) w]" "debugger_mode s1 = DEBUGGER_MODE_ACTIVE"
    "z80 s1 = z80 s" "no_commands s1 = no_commands s" "plain_bus (s1\<lparr>debugger_active := False\<rparr>) = plain_bus (s\<lparr>debugger_active := False\<rparr>)"
    "readbyte_internal x s1 = readbyte_internal x s"
proof -
  have e: "s1 = debugger_run (breakpoint_add ins null DEBUGGER_BREAKPOINT_TYPE_EXECUTE (Address memory_source_any 0 w) 0
      DEBUGGER_BREAKPOINT_LIFE_ONESHOT None s)"
    using assms by (simp add: debugger_breakpoint_add_address_def)
  show b: "debugger_breakpoints s1 = debugger_breakpoints s @ [stop_at (next_breakpoint_id s) w]" "debugger_mode s1 = DEBUGGER_MODE_ACTIVE"
    by (simp_all add: e debugger_run_def breakpoint_add_fields stop_at_def)
  show "z80 s1 = z80 s" "plain_bus (s1\<lparr>debugger_active := False\<rparr>) = plain_bus (s\<lparr>debugger_active := False\<rparr>)" "readbyte_internal x s1 = readbyte_internal x s"
    by (simp_all add: e debugger_run_def breakpoint_add_def Let_def plain_bus_def readbyte_internal_def read_mapping_def)
  have "debugger_breakpoints_remove_pending s1 = debugger_breakpoints_remove_pending s"
    "gdbserver_debugging_enabled s1 = gdbserver_debugging_enabled s" by (simp_all add: e debugger_run_def breakpoint_add_def Let_def)
  then show "no_commands s1 = no_commands s" by (auto simp: no_commands_def b stop_at_def bp_ok_def condition_ok_def)
qed

lemma stop_at_stops:
  fixes s :: "('u, 'z) breakpoint_state_scheme"
  assumes "no_commands s" "debugger_mode s = DEBUGGER_MODE_ACTIVE" "debugger_breakpoints s = bps @ [stop_at n w]"
    "\<forall>bp\<in>set bps. bp_id bp \<noteq> n"
  shows "\<exists>s'. debugger_check (z80_debugger_variables_init []) cmd activate DEBUGGER_BREAKPOINT_TYPE_EXECUTE (ucast w) s = Some (True, s') \<and>
    debugger_mode s' = DEBUGGER_MODE_HALTED \<and> (\<forall>bp\<in>set (debugger_breakpoints s'). bp_id bp \<noteq> n)"
proof -
  let ?hit = "\<lambda>bp. the (breakpoint_check (z80_debugger_variables_init []) DEBUGGER_BREAKPOINT_TYPE_EXECUTE (ucast w) bp s)"
  have h: "?hit (stop_at n w) = (True, stop_at n w)"
    by (simp add: breakpoint_check_def value_matches_def debugger_breakpoint_trigger_def stop_at_def)
  have ch: "debugger_check (z80_debugger_variables_init []) cmd activate DEBUGGER_BREAKPOINT_TYPE_EXECUTE (ucast w) s = Some (True, walk_spec ?hit s)"
    using check_pass [OF assms(1), of DEBUGGER_BREAKPOINT_TYPE_EXECUTE cmd activate "ucast w"] h assms(2,3) by (simp add: Let_def)
  have m: "debugger_mode (walk_spec ?hit s) = DEBUGGER_MODE_HALTED" using h assms(3) by (simp add: walk_spec_def)
  have "bp_id x \<noteq> n" if x: "x \<in> set (survivors ?hit (bps @ [stop_at n w]))" for x
  proof -
    have sm: "same_breakpoint bp (snd (?hit bp))" if "bp \<in> set (bps @ [stop_at n w])" for bp
      using assms(1,3) that by (intro check_same breakpoint_check_typed [of 36]) (auto simp: no_commands_def)
    obtain bp where bp: "bp \<in> set (bps @ [stop_at n w])" "x = snd (?hit bp)"
      "\<not> (fst (?hit bp) \<and> life bp = DEBUGGER_BREAKPOINT_LIFE_ONESHOT)"
      using x by (auto simp: survivors_def split: if_splits)
    then have "bp \<noteq> stop_at n w" using h by (auto simp: stop_at_def)
    then show ?thesis using bp(1,2) sm [OF bp(1)] assms(4) by (auto simp: same_breakpoint_def)
  qed
  then show ?thesis using ch m assms(3) by (simp add: walk_spec_def)
qed

text \<open>
  C25. Finish: setting the one-shot breakpoint at the address on the stack and letting the program return, with
  every read going through the debugger, brings the program to that address, where the next check stops it
  and drops the breakpoint.
\<close>

theorem finish_stops_at_return:
  fixes s s1 :: "('u, 'z) breakpoint_state_scheme"
  assumes "debugger_breakpoint_exit ins null s = Some s1" "no_commands s" "plain_bus (s\<lparr>debugger_active := False\<rparr>)"
    "\<forall>bp\<in>set (debugger_breakpoints s). bp_type bp \<noteq> DEBUGGER_BREAKPOINT_TYPE_READ \<and> bp_id bp \<noteq> next_breakpoint_id s"
  shows "let s2 = RET (debugged_bus cmd activate dev) s1; p = PC (z80 s2)
    in hi p = readbyte_internal (SP (z80 s) + 1) s \<and> lo p = readbyte_internal (SP (z80 s)) s \<and> SP (z80 s2) = SP (z80 s) + 2 \<and>
       (\<exists>s3. debugger_check (z80_debugger_variables_init []) cmd activate DEBUGGER_BREAKPOINT_TYPE_EXECUTE (ucast p) s2 = Some (True, s3) \<and>
          debugger_mode s3 = DEBUGGER_MODE_HALTED \<and> (\<forall>bp\<in>set (debugger_breakpoints s3). bp_id bp \<noteq> next_breakpoint_id s))"
proof -
  let ?w = "mkw (readbyte_internal (SP (z80 s) + 1) s) (readbyte_internal (SP (z80 s)) s)"
  have w: "ucast (readbyte_internal (SP (z80 s)) s) + 0x100 * ucast (readbyte_internal (SP (z80 s) + 1) s) = ?w"
    unfolding mkw_def by (rule bytes_word)
  note s1 = stop_at_added [OF assms(1) [unfolded debugger_breakpoint_exit_def Let_def w]]
  have c: "calm s1" using s1 assms(2-4) by (auto simp: calm_def stop_at_def)
  obtain t p where r: "RET (debugged_bus cmd activate dev) s1 = s1\<lparr>tstates := t, z80 := p\<rparr>" "PC p = ?w" "SP p = SP (z80 s) + 2"
    using ret_calm [OF c, of cmd activate dev] unfolding s1(3,6) by blast
  have "no_commands (s1\<lparr>tstates := t, z80 := p\<rparr>)" using s1(4) assms(2) by (simp add: no_commands_def)
  from stop_at_stops [OF this _ _, of "debugger_breakpoints s" "next_breakpoint_id s" ?w cmd activate]
  show ?thesis using r s1(1,2) assms(4) by (simp add: Let_def)
qed

theorem finish_stops_at_return_witness:
  "\<exists>s1 s3. debugger_breakpoint_exit insert_sorted_ref () demo_debugger = Some s1 \<and>
    debugger_check (z80_debugger_variables_init []) (\<lambda>_ s. s) id DEBUGGER_BREAKPOINT_TYPE_EXECUTE
      (ucast (PC (z80 (RET (debugged_bus (\<lambda>_ s. s) id no_devices) s1)))) (RET (debugged_bus (\<lambda>_ s. s) id no_devices) s1) = Some (True, s3)"
proof -
  obtain s1 where s1: "debugger_breakpoint_exit insert_sorted_ref () demo_debugger = Some s1"
    by (auto simp: debugger_breakpoint_exit_def debugger_breakpoint_add_address_def Let_def)
  have "no_commands demo_debugger" "plain_bus (demo_debugger\<lparr>debugger_active := False\<rparr>)"
    using demo_debugger_facts(10) by (simp_all add: no_commands_def plain_bus_def)
  then show ?thesis
    using finish_stops_at_return [OF s1, of "\<lambda>_ s. s" id no_devices] s1 by (auto simp: Let_def)
qed

end
