(* ===== verification/Disassembler.thy ===== *)
theory Disassembler
  imports Breakpoints
begin

text \<open>
  The disassembler of the debugger, \<open>debugger/disassemble.c\<close>, function by function. It reads memory with
  \<open>readbyte_internal\<close> only, so the functions take the bytes as a function \<open>rd\<close> of the address, beside
  \<open>debugger_output_base\<close>. Texts are built in buffers of 40 characters: \<open>snprintf\<close> cuts what does not fit.
  \<open>None\<close> is an abort, or prefixes that never end.
\<close>

section \<open>Text\<close>

datatype hl_type = USE_HL | USE_IX | USE_IY

definition DISASM_BUF_LEN :: nat where
  "DISASM_BUF_LEN = 40"

definition snprintf :: "nat \<Rightarrow> string \<Rightarrow> string" where
  "snprintf buflen txt = take (buflen - 1) txt"

definition hex_digit :: "nat \<Rightarrow> char" where
  "hex_digit n = ''0123456789ABCDEF'' ! n"

text \<open>The formats \<open>%0wX\<close> and \<open>%d\<close>; the numbers have at most \<open>w\<close> hexadecimal and five decimal digits.\<close>

fun fixed_hex :: "nat \<Rightarrow> nat \<Rightarrow> string" where
  "fixed_hex 0 n = []"
| "fixed_hex (Suc w) n = fixed_hex w (n div 16) @ [hex_digit (n mod 16)]"

fun fixed_decimal :: "nat \<Rightarrow> nat \<Rightarrow> string" where
  "fixed_decimal 0 n = []"
| "fixed_decimal (Suc w) n = fixed_decimal w (n div 10) @ [hex_digit (n mod 10)]"

definition strip_zeros :: "string \<Rightarrow> string" where
  "strip_zeros ds = (case dropWhile (\<lambda>c. c = CHR ''0'') ds of [] \<Rightarrow> ''0'' | ds' \<Rightarrow> ds')"

definition decimal :: "nat \<Rightarrow> string" where
  "decimal n = strip_zeros (fixed_decimal 5 n)"

definition get_byte :: "int \<Rightarrow> u8 \<Rightarrow> string" where
  "get_byte base b = snprintf DISASM_BUF_LEN (if base = 10 then decimal (unat b) else fixed_hex 2 (unat b))"

definition get_word :: "(u16 \<Rightarrow> u8) \<Rightarrow> int \<Rightarrow> u16 \<Rightarrow> string" where
  "get_word rd base address =
    (let w = push_bit 8 (ucast (rd (address + 1))) + ucast (rd address) :: u16
     in snprintf DISASM_BUF_LEN (if base = 10 then decimal (unat w) else fixed_hex 4 (unat w)))"

definition get_offset :: "int \<Rightarrow> u16 \<Rightarrow> u8 \<Rightarrow> string" where
  "get_offset base address off =
    (let w = address + (if off \<ge> 0x80 then ucast off - 0x100 else ucast off)
     in snprintf DISASM_BUF_LEN (if base = 10 then decimal (unat w) else fixed_hex 4 (unat w)))"

definition hl_ix_iy :: "hl_type \<Rightarrow> string" where
  "hl_ix_iy use_hl = (case use_hl of USE_HL \<Rightarrow> ''HL'' | USE_IX \<Rightarrow> ''IX'' | USE_IY \<Rightarrow> ''IY'')"

definition reg_pair :: "u8 \<Rightarrow> hl_type \<Rightarrow> string" where
  "reg_pair b use_hl =
    (let i = drop_bit 4 b AND 0x03
     in if i = 0 then ''BC'' else if i = 1 then ''DE'' else if i = 2 then hl_ix_iy use_hl else ''SP'')"

definition ix_iy_offset :: "int \<Rightarrow> hl_type \<Rightarrow> u8 \<Rightarrow> string" where
  "ix_iy_offset base use_hl off =
    (let number = (\<lambda>n. if base = 10 then decimal n else fixed_hex 2 n)
     in if off < 0x80
        then snprintf DISASM_BUF_LEN (''('' @ hl_ix_iy use_hl @ ''+'' @ number (unat off) @ '')'')
        else snprintf DISASM_BUF_LEN (''('' @ hl_ix_iy use_hl @ ''-'' @ number (0x100 - unat off) @ '')''))"

text \<open>A register, and the bytes it takes beside the opcode.\<close>

definition single_reg :: "int \<Rightarrow> nat \<Rightarrow> hl_type \<Rightarrow> u8 \<Rightarrow> nat \<times> string" where
  "single_reg base i use_hl off =
    (if i = 4 \<and> use_hl \<noteq> USE_HL then (0, snprintf DISASM_BUF_LEN (hl_ix_iy use_hl @ ''h''))
     else if i = 5 \<and> use_hl \<noteq> USE_HL then (0, snprintf DISASM_BUF_LEN (hl_ix_iy use_hl @ ''l''))
     else if i = 6 \<and> use_hl \<noteq> USE_HL then (1, snprintf DISASM_BUF_LEN (ix_iy_offset base use_hl off))
     else (0, snprintf DISASM_BUF_LEN ([''B'', ''C'', ''D'', ''E'', ''H'', ''L'', ''(HL)'', ''A''] ! i)))"

definition source_reg :: "(u16 \<Rightarrow> u8) \<Rightarrow> int \<Rightarrow> u16 \<Rightarrow> hl_type \<Rightarrow> nat \<times> string" where
  "source_reg rd base address use_hl = single_reg base (unat (rd address AND 0x07)) use_hl (rd (address + 1))"

definition dest_reg :: "(u16 \<Rightarrow> u8) \<Rightarrow> int \<Rightarrow> u16 \<Rightarrow> hl_type \<Rightarrow> nat \<times> string" where
  "dest_reg rd base address use_hl = single_reg base (unat (drop_bit 3 (rd address) AND 0x07)) use_hl (rd (address + 1))"

text \<open>The tables. The formats of \<open>addition_op\<close> all end in \<open>%s\<close>; here they are what comes before it.\<close>

definition addition_op :: "u8 \<Rightarrow> string" where
  "addition_op b = [''ADD A,'', ''ADC A,'', ''SUB '', ''SBC A,'', ''AND '', ''XOR '', ''OR '', ''CP ''] ! unat (drop_bit 3 b AND 0x07)"

definition condition_name :: "u8 \<Rightarrow> string" where
  "condition_name b = [''NZ'', ''Z'', ''NC'', ''C'', ''PO'', ''PE'', ''P'', ''M''] ! unat (drop_bit 3 b AND 0x07)"

definition rotate_op :: "u8 \<Rightarrow> string" where
  "rotate_op b = [''RLC'', ''RRC'', ''RL'', ''RR'', ''SLA'', ''SRA'', ''SLL'', ''SRL''] ! unat (drop_bit 3 b)"

definition bit_op :: "u8 \<Rightarrow> string" where
  "bit_op b = [''BIT'', ''RES'', ''SET''] ! (unat (drop_bit 6 b) - 1)"

definition bit_op_bit :: "u8 \<Rightarrow> nat" where
  "bit_op_bit b = unat (drop_bit 3 b AND 0x07)"

section \<open>Opcodes\<close>

text \<open>Each function gives the text and the length. The buffer of the caller is cut at the end, in \<open>debugger_disassemble\<close>.\<close>

definition disassemble_00xxx010 :: "(u16 \<Rightarrow> u8) \<Rightarrow> int \<Rightarrow> u16 \<Rightarrow> hl_type \<Rightarrow> string \<times> nat" where
  "disassemble_00xxx010 rd base address use_hl =
    (let b = rd address; n = unat (drop_bit 4 b); buffer2 = get_word rd base (address + 1)
     in if n = 0 \<or> n = 1 then (''LD ('' @ reg_pair b use_hl @ ''),A'', 1)
        else if n = 2 then (''LD ('' @ buffer2 @ ''),'' @ hl_ix_iy use_hl, 3)
        else (''LD ('' @ buffer2 @ ''),A'', 3))"

definition disassemble_00xxx110 :: "(u16 \<Rightarrow> u8) \<Rightarrow> int \<Rightarrow> u16 \<Rightarrow> hl_type \<Rightarrow> string \<times> nat" where
  "disassemble_00xxx110 rd base address use_hl =
    (let b = rd address; n = unat (drop_bit 4 b); buffer2 = get_word rd base (address + 1)
     in if n = 0 \<or> n = 1 then (''LD A,('' @ reg_pair b use_hl @ '')'', 1)
        else if n = 2 then (''LD '' @ hl_ix_iy use_hl @ '',('' @ buffer2 @ '')'', 3)
        else (''LD A,('' @ buffer2 @ '')'', 3))"

definition opcode_00xxx000 :: "string list" where
  "opcode_00xxx000 = [''NOP'', ''EX AF,AF'' @ [CHR 0x27], ''DJNZ '', ''JR '', ''JR NZ,'', ''JR Z,'', ''JR NC,'', ''JR C,'']"

definition opcode_00xxx111 :: "string list" where
  "opcode_00xxx111 = [''RLCA'', ''RRCA'', ''RLA'', ''RRA'', ''DAA'', ''CPL'', ''SCF'', ''CCF'']"

definition disassemble_00xxxxxx :: "(u16 \<Rightarrow> u8) \<Rightarrow> int \<Rightarrow> u16 \<Rightarrow> hl_type \<Rightarrow> string \<times> nat" where
  "disassemble_00xxxxxx rd base address use_hl =
    (let b = rd address; k = unat (b AND 0x0f); op = unat (drop_bit 3 b)
     in if k \<in> {0x00, 0x08} then
          (if b \<le> 0x08 then (opcode_00xxx000 ! op, 1)
           else (opcode_00xxx000 ! op @ get_offset base (address + 2) (rd (address + 1)), 2))
        else if k = 0x01 then (''LD '' @ reg_pair b use_hl @ '','' @ get_word rd base (address + 1), 3)
        else if k = 0x02 then disassemble_00xxx010 rd base address use_hl
        else if k = 0x03 then (''INC '' @ reg_pair b use_hl, 1)
        else if k \<in> {0x04, 0x0c} then (let (n, buffer2) = dest_reg rd base address use_hl in (''INC '' @ buffer2, 1 + n))
        else if k \<in> {0x05, 0x0d} then (let (n, buffer2) = dest_reg rd base address use_hl in (''DEC '' @ buffer2, 1 + n))
        else if k \<in> {0x06, 0x0e} then
          (let (n, buffer2) = dest_reg rd base address use_hl;
               len = 2 + n;
               buffer3 = get_byte base (rd (address + of_nat len - 1))
           in (''LD '' @ buffer2 @ '','' @ buffer3, len))
        else if k \<in> {0x07, 0x0f} then (opcode_00xxx111 ! op, 1)
        else if k = 0x09 then (''ADD '' @ hl_ix_iy use_hl @ '','' @ reg_pair b use_hl, 1)
        else if k = 0x0a then disassemble_00xxx110 rd base address use_hl
        else (''DEC '' @ reg_pair b use_hl, 1))"

definition disassemble_cb :: "(u16 \<Rightarrow> u8) \<Rightarrow> int \<Rightarrow> u16 \<Rightarrow> string \<times> nat" where
  "disassemble_cb rd base address =
    (let b = rd address; (n, buffer2) = source_reg rd base address USE_HL
     in if b < 0x40 then (rotate_op b @ '' '' @ buffer2, 1)
        else (bit_op b @ '' '' @ decimal (bit_op_bit b) @ '','' @ buffer2, 1))"

definition disassemble_ddfd_cb :: "(u16 \<Rightarrow> u8) \<Rightarrow> int \<Rightarrow> u16 \<Rightarrow> u8 \<Rightarrow> hl_type \<Rightarrow> string \<times> nat" where
  "disassemble_ddfd_cb rd base address off use_hl =
    (let b = rd address; place = ix_iy_offset base use_hl off; (n, reg) = source_reg rd base address USE_HL
     in if b < 0x40 then
          (if b AND 0x07 = 0x06 then (rotate_op b @ '' '' @ place, 1)
           else (''LD '' @ reg @ '','' @ rotate_op b @ '' '' @ place, 1))
        else if b < 0x80 then (bit_op b @ '' '' @ decimal (bit_op_bit b) @ '','' @ place, 1)
        else
          (if b AND 0x07 = 0x06 then (bit_op b @ '' '' @ decimal (bit_op_bit b) @ '','' @ place, 1)
           else (''LD '' @ reg @ '','' @ bit_op b @ '' '' @ decimal (bit_op_bit b) @ '','' @ place, 1)))"

definition opcode_01xxx111 :: "string list" where
  "opcode_01xxx111 = [''LD I,A'', ''LD R,A'', ''LD A,I'', ''LD A,R'', ''RRD'', ''RLD'', ''NOPD'', ''NOPD'']"

definition opcode_101xxxxx :: "string list" where
  "opcode_101xxxxx =
    [''LDI'', ''CPI'', ''INI'', ''OUTI'', ''NOPD'', ''NOPD'', ''NOPD'', ''NOPD'',
     ''LDD'', ''CPD'', ''IND'', ''OUTD'', ''NOPD'', ''NOPD'', ''NOPD'', ''NOPD'',
     ''LDIR'', ''CPIR'', ''INIR'', ''OTIR'', ''NOPD'', ''NOPD'', ''NOPD'', ''NOPD'',
     ''LDDR'', ''CPDR'', ''INDR'', ''OTDR'']"

definition im_modes :: "nat list" where
  "im_modes = [0, 0, 1, 2]"

definition disassemble_ed :: "(u16 \<Rightarrow> u8) \<Rightarrow> int \<Rightarrow> u16 \<Rightarrow> string \<times> nat" where
  "disassemble_ed rd base address =
    (let b = rd address; k = unat (b AND 0x0f)
     in if b < 0x40 \<or> b > 0xbb then (''NOPD'', 1)
        else if b < 0x80 then
          (if k \<in> {0x00, 0x08} then
             (if b = 0x70 then (''IN F,(C)'', 1)
              else (let (n, buffer2) = dest_reg rd base address USE_HL in (''IN '' @ buffer2 @ '',(C)'', 1)))
           else if k \<in> {0x01, 0x09} then
             (if b = 0x71 then (''OUT (C),0'', 1)
              else (let (n, buffer2) = dest_reg rd base address USE_HL in (''OUT (C),'' @ buffer2, 1)))
           else if k = 0x02 then (''SBC HL,'' @ reg_pair b USE_HL, 1)
           else if k = 0x03 then (''LD ('' @ get_word rd base (address + 1) @ ''),'' @ reg_pair b USE_HL, 3)
           else if k \<in> {0x04, 0x0c} then (''NEG'', 1)
           else if k \<in> {0x05, 0x0d} then (if b = 0x4d then (''RETI'', 1) else (''RETN'', 1))
           else if k \<in> {0x06, 0x0e} then (''IM '' @ decimal (im_modes ! unat (drop_bit 3 b AND 0x03)), 1)
           else if k \<in> {0x07, 0x0f} then (opcode_01xxx111 ! unat (drop_bit 3 b AND 0x07), 1)
           else if k = 0x0a then (''ADC HL,'' @ reg_pair b USE_HL, 1)
           else (''LD '' @ reg_pair b USE_HL @ '',('' @ get_word rd base (address + 1) @ '')'', 3))
        else if b < 0xa0 then (''NOPD'', 1)
        else (opcode_101xxxxx ! unat (b AND 0x1f), 1))"

definition disassemble_11xxx001 :: "u8 \<Rightarrow> hl_type \<Rightarrow> string \<times> nat" where
  "disassemble_11xxx001 b use_hl =
    (let k = unat (drop_bit 3 b) - 0x18
     in if k \<in> {0, 2, 4} then (''POP '' @ reg_pair b use_hl, 1)
        else if k = 1 then (''RET'', 1)
        else if k = 3 then (''EXX'', 1)
        else if k = 5 then (''JP ('' @ hl_ix_iy use_hl @ '')'', 1)
        else if k = 6 then (''POP AF'', 1)
        else (''LD SP,'' @ hl_ix_iy use_hl, 1))"

definition disassemble_11xxx011 :: "(u16 \<Rightarrow> u8) \<Rightarrow> int \<Rightarrow> u16 \<Rightarrow> hl_type \<Rightarrow> string \<times> nat" where
  "disassemble_11xxx011 rd base address use_hl =
    (let b = rd address; k = unat (drop_bit 3 b) - 0x18
     in if k = 0 then (''JP '' @ get_word rd base (address + 1), 3)
        else if k = 1 then
          (if use_hl \<noteq> USE_HL
           then (let (txt, n) = disassemble_ddfd_cb rd base (address + 2) (rd (address + 1)) use_hl in (txt, n + 2))
           else (let (txt, n) = disassemble_cb rd base (address + 1) in (txt, n + 1)))
        else if k = 2 then (''OUT ('' @ get_byte base (rd (address + 1)) @ ''),A'', 2)
        else if k = 3 then (''IN A,('' @ get_byte base (rd (address + 1)) @ '')'', 2)
        else if k = 4 then (''EX (SP),'' @ hl_ix_iy use_hl, 1)
        else if k = 5 then (''EX DE,HL'', 1)
        else if k = 6 then (''DI'', 1)
        else (''EI'', 1))"

definition disassemble_11xxx101 :: "(u16 \<Rightarrow> u8) \<Rightarrow> int \<Rightarrow> u16 \<Rightarrow> hl_type \<Rightarrow> (string \<times> nat) option" where
  "disassemble_11xxx101 rd base address use_hl =
    (let b = rd address; k = unat (drop_bit 3 b) - 0x18
     in if k \<in> {0, 2, 4} then Some (''PUSH '' @ reg_pair b use_hl, 1)
        else if k = 1 then Some (''CALL '' @ get_word rd base (address + 1), 3)
        else if k \<in> {3, 7} then None
        else if k = 5 then (let (txt, n) = disassemble_ed rd base (address + 1) in Some (txt, n + 1))
        else Some (''PUSH AF'', 1))"

definition disassemble_11xxxxxx :: "(u16 \<Rightarrow> u8) \<Rightarrow> int \<Rightarrow> u16 \<Rightarrow> hl_type \<Rightarrow> (string \<times> nat) option" where
  "disassemble_11xxxxxx rd base address use_hl =
    (let b = rd address; k = unat (b AND 0x07)
     in if k = 0 then Some (''RET '' @ condition_name b, 1)
        else if k = 1 then Some (disassemble_11xxx001 b use_hl)
        else if k = 2 then Some (''JP '' @ condition_name b @ '','' @ get_word rd base (address + 1), 3)
        else if k = 3 then Some (disassemble_11xxx011 rd base address use_hl)
        else if k = 4 then Some (''CALL '' @ condition_name b @ '','' @ get_word rd base (address + 1), 3)
        else if k = 5 then disassemble_11xxx101 rd base address use_hl
        else if k = 6 then Some (addition_op b @ get_byte base (rd (address + 1)), 2)
        else (let v = 0x08 * (unat (drop_bit 3 b) - 0x18) in Some (''RST '' @ strip_zeros (fixed_hex 2 v), 1)))"

text \<open>The instruction after the prefixes.\<close>

definition disassemble_opcode :: "(u16 \<Rightarrow> u8) \<Rightarrow> int \<Rightarrow> u16 \<Rightarrow> hl_type \<Rightarrow> (string \<times> nat) option" where
  "disassemble_opcode rd base address use_hl =
    (let b = rd address
     in if b < 0x40 then Some (disassemble_00xxxxxx rd base address use_hl)
        else if b = 0x76 then Some (''HALT'', 1)
        else if b < 0x80 then
          (if b AND 0x07 = 0x06
           then Some (''LD '' @ snd (dest_reg rd base address USE_HL) @ '','' @ snd (source_reg rd base address use_hl),
                      if use_hl = USE_HL then 1 else 2)
           else if drop_bit 3 b AND 0x07 = 0x06
           then Some (''LD '' @ snd (dest_reg rd base address use_hl) @ '','' @ snd (source_reg rd base address USE_HL),
                      if use_hl = USE_HL then 1 else 2)
           else Some (''LD '' @ snd (dest_reg rd base address use_hl) @ '','' @ snd (source_reg rd base address use_hl), 1))
        else if b < 0xc0 then
          (let (n, buffer2) = source_reg rd base address use_hl in Some (addition_op b @ buffer2, 1 + n))
        else disassemble_11xxxxxx rd base address use_hl)"

partial_function (option) strip_prefixes :: "(u16 \<Rightarrow> u8) \<Rightarrow> u16 \<Rightarrow> hl_type \<Rightarrow> nat \<Rightarrow> (u16 \<times> hl_type \<times> nat) option" where
  "strip_prefixes rd address use_hl prefix_length =
    (let b = rd address
     in if b = 0xdd \<or> b = 0xfd
        then strip_prefixes rd (address + 1) (if b = 0xdd then USE_IX else USE_IY) (prefix_length + 1)
        else Some (address, use_hl, prefix_length))"

declare strip_prefixes.simps [code]

definition disassemble_main :: "(u16 \<Rightarrow> u8) \<Rightarrow> int \<Rightarrow> nat \<Rightarrow> u16 \<Rightarrow> hl_type \<Rightarrow> (string \<times> nat) option" where
  "disassemble_main rd base buflen address0 use_hl0 =
    (case strip_prefixes rd address0 use_hl0 0 of
       None \<Rightarrow> None
     | Some (address, use_hl, prefix_length) \<Rightarrow>
         (case disassemble_opcode rd base address use_hl of
            None \<Rightarrow> None
          | Some (txt, n) \<Rightarrow> Some (snprintf buflen txt, n + prefix_length)))"

definition debugger_disassemble :: "nat \<Rightarrow> u16 \<Rightarrow> ('u, 'z) debugger_state_scheme \<Rightarrow> (string \<times> nat) option" where
  "debugger_disassemble buflen address s =
    disassemble_main (\<lambda>a. readbyte_internal a s) (debugger_output_base s) buflen address USE_HL"


section \<open>The unit tests\<close>





text \<open>The bytes are put at 0x4000; what is there after them does not matter.\<close>

definition bytes_at :: "(u16 \<Rightarrow> u8) \<Rightarrow> u8 list \<Rightarrow> bool" where
  "bytes_at rd bs \<longleftrightarrow> (\<forall>i<length bs. rd (0x4000 + of_nat i) = bs ! i)"

definition test_memory :: "u8 list \<Rightarrow> u16 \<Rightarrow> u8" where
  "test_memory bs a = (let i = unat (a - 0x4000) in if i < length bs then bs ! i else 0)"

definition run_test :: "int \<times> u8 list \<times> string \<Rightarrow> bool" where
  "run_test t = (case t of (base, bs, expected) \<Rightarrow>
     disassemble_main (test_memory bs) base DISASM_BUF_LEN 0x4000 USE_HL = Some (expected, length bs))"


section \<open>Evaluating it\<close>

lemma strip_ends: "rd a \<noteq> 0xdd \<Longrightarrow> rd a \<noteq> 0xfd \<Longrightarrow> strip_prefixes rd a h n = Some (a, h, n)"
  by (subst strip_prefixes.simps) simp
lemma strip_dd: "rd a = 0xdd \<Longrightarrow> strip_prefixes rd a h n = strip_prefixes rd (a + 1) USE_IX (n + 1)"
  by (subst strip_prefixes.simps) simp
lemma strip_fd: "rd a = 0xfd \<Longrightarrow> strip_prefixes rd a h n = strip_prefixes rd (a + 1) USE_IY (n + 1)"
  by (subst strip_prefixes.simps) simp
lemma digits_unfold:
  "fixed_hex 2 n = [hex_digit (n div 16 mod 16), hex_digit (n mod 16)]"
  "fixed_hex 4 n = [hex_digit (n div 16 div 16 div 16 mod 16), hex_digit (n div 16 div 16 mod 16), hex_digit (n div 16 mod 16), hex_digit (n mod 16)]"
  "fixed_decimal 5 n = [hex_digit (n div 10 div 10 div 10 div 10 mod 10), hex_digit (n div 10 div 10 div 10 mod 10),
     hex_digit (n div 10 div 10 mod 10), hex_digit (n div 10 mod 10), hex_digit (n mod 10)]"
proof -
  have e: "(2::nat) = Suc (Suc 0)" "(4::nat) = Suc (Suc (Suc (Suc 0)))" "(5::nat) = Suc (Suc (Suc (Suc (Suc 0))))" by simp_all
  show "fixed_hex 2 n = [hex_digit (n div 16 mod 16), hex_digit (n mod 16)]"
    "fixed_hex 4 n = [hex_digit (n div 16 div 16 div 16 mod 16), hex_digit (n div 16 div 16 mod 16), hex_digit (n div 16 mod 16), hex_digit (n mod 16)]"
    "fixed_decimal 5 n = [hex_digit (n div 10 div 10 div 10 div 10 mod 10), hex_digit (n div 10 div 10 div 10 mod 10),
     hex_digit (n div 10 div 10 mod 10), hex_digit (n div 10 mod 10), hex_digit (n mod 10)]"
    unfolding e by simp_all
qed
lemmas disassembling = digits_unfold run_test_def disassemble_main_def strip_ends strip_dd strip_fd disassemble_opcode_def disassemble_00xxxxxx_def
  disassemble_00xxx010_def disassemble_00xxx110_def disassemble_cb_def disassemble_ddfd_cb_def disassemble_ed_def
  disassemble_11xxx001_def disassemble_11xxx011_def disassemble_11xxx101_def disassemble_11xxxxxx_def test_memory_def Let_def
  DISASM_BUF_LEN_def Disassembler.snprintf_def hex_digit_def strip_zeros_def decimal_def get_byte_def get_word_def get_offset_def
  hl_ix_iy_def reg_pair_def ix_iy_offset_def single_reg_def source_reg_def dest_reg_def addition_op_def condition_name_def rotate_op_def bit_op_def bit_op_bit_def
  opcode_00xxx000_def opcode_00xxx111_def opcode_01xxx111_def opcode_101xxxxx_def im_modes_def

text \<open>Moving through the program in a listing. \<open>None\<close> is a listing that does not come back.\<close>

primrec search_forward :: "(u16 \<Rightarrow> nat option) \<Rightarrow> nat \<Rightarrow> u16 \<Rightarrow> u16 option" where
  "search_forward len 0 address = Some address"
| "search_forward len (Suc k) address =
    (case len address of None \<Rightarrow> None | Some n \<Rightarrow> search_forward len k (address + of_nat n))"

text \<open>The loop for the longest instruction before an address: \<open>j\<close> runs from 1 to 8.\<close>

primrec longest_before :: "(u16 \<Rightarrow> nat option) \<Rightarrow> u16 \<Rightarrow> nat list \<Rightarrow> nat \<Rightarrow> nat option" where
  "longest_before len address [] longest = Some longest"
| "longest_before len address (j # js) longest =
    (case len (address - of_nat j) of None \<Rightarrow> None
     | Some n \<Rightarrow> longest_before len address js (if n = j then j else longest))"

primrec search_back :: "(u16 \<Rightarrow> nat option) \<Rightarrow> nat \<Rightarrow> u16 \<Rightarrow> u16 option" where
  "search_back len 0 address = Some address"
| "search_back len (Suc k) address =
    (case longest_before len address [1..<9] 1 of None \<Rightarrow> None | Some n \<Rightarrow> search_back len k (address - of_nat n))"

definition instruction_length :: "('u, 'z) debugger_state_scheme \<Rightarrow> u16 \<Rightarrow> nat option" where
  "instruction_length s address = map_option snd (debugger_disassemble 0 address s)"

definition debugger_search_instruction :: "u16 \<Rightarrow> int \<Rightarrow> ('u, 'z) debugger_state_scheme \<Rightarrow> u16 option" where
  "debugger_search_instruction address delta s =
    (if delta = 0 then Some address
     else if delta > 0 then search_forward (instruction_length s) (nat delta) address
     else search_back (instruction_length s) (nat (- delta)) address)"

text \<open>Stepping over: a breakpoint after the instruction, \<open>debugger/debugger.c\<close>.\<close>

definition debugger_next ::
  "(('u event \<Rightarrow> 'u event \<Rightarrow> int) \<Rightarrow> 'u event \<Rightarrow> 'u event list \<Rightarrow> 'u event list) \<Rightarrow> 'u \<Rightarrow>
   ('u, 'z) breakpoint_state_scheme \<Rightarrow> ('u, 'z) breakpoint_state_scheme option" where
  "debugger_next ins null s =
    (case instruction_length s (PC (z80 s)) of
       None \<Rightarrow> None
     | Some n \<Rightarrow>
         map_option debugger_run
           (debugger_breakpoint_add_address ins null DEBUGGER_BREAKPOINT_TYPE_EXECUTE memory_source_any 0
              (PC (z80 s) + of_nat n) 0 DEBUGGER_BREAKPOINT_LIFE_ONESHOT None s))"

section \<open>What an instruction is made of\<close>

definition agree :: "(u16 \<Rightarrow> u8) \<Rightarrow> (u16 \<Rightarrow> u8) \<Rightarrow> u16 \<Rightarrow> nat \<Rightarrow> bool" where
  "agree rd rd' address n \<longleftrightarrow> (\<forall>i<n. rd' (address + of_nat i) = rd (address + of_nat i))"

lemma agree_simps [simp]:
  "agree rd rd' a 0" "agree rd rd' a (Suc 0) \<longleftrightarrow> rd' a = rd a"
  "agree rd rd' a 2 \<longleftrightarrow> rd' a = rd a \<and> rd' (a + 1) = rd (a + 1)"
  "agree rd rd' a 3 \<longleftrightarrow> rd' a = rd a \<and> rd' (a + 1) = rd (a + 1) \<and> rd' (a + 2) = rd (a + 2)"
  by (auto simp: agree_def less_Suc_eq numeral_2_eq_2 numeral_3_eq_3)

lemma agree_less: "agree rd rd' a n \<Longrightarrow> m \<le> n \<Longrightarrow> agree rd rd' a m"
  by (simp add: agree_def)

lemma agree_Suc: "agree rd rd' a (Suc n) \<longleftrightarrow> rd' a = rd a \<and> agree rd rd' (a + 1) n"
  by (auto simp: agree_def less_Suc_eq_0_disj add.assoc)

lemma single_reg_bytes: "fst (single_reg base i h off) \<le> 1" "fst (single_reg base i USE_HL off) = 0"
  by (simp_all add: single_reg_def)

lemma single_reg_agree: "fst (single_reg base i h off) = 1 \<longrightarrow> off' = off \<Longrightarrow> single_reg base i h off' = single_reg base i h off"
  by (auto simp: single_reg_def split: if_splits)

lemma single_reg_USE_HL: "single_reg base i USE_HL off' = single_reg base i USE_HL off"
  by (simp add: single_reg_def)

lemma reg_bytes [simp]:
  "fst (dest_reg rd base a h) \<le> Suc 0" "fst (source_reg rd base a h) \<le> Suc 0"
  "fst (dest_reg rd base a h) \<le> 2" "fst (source_reg rd base a h) \<le> 2"
  "fst (dest_reg rd base a USE_HL) = 0" "fst (source_reg rd base a USE_HL) = 0"
  using single_reg_bytes le_trans [OF single_reg_bytes(1), of 2] by (simp_all add: dest_reg_def source_reg_def)

lemma reg_agree:
  "rd' a = rd a \<Longrightarrow> fst (dest_reg rd base a h) = 1 \<longrightarrow> rd' (a + 1) = rd (a + 1) \<Longrightarrow> dest_reg rd' base a h = dest_reg rd base a h"
  "rd' a = rd a \<Longrightarrow> fst (source_reg rd base a h) = 1 \<longrightarrow> rd' (a + 1) = rd (a + 1) \<Longrightarrow> source_reg rd' base a h = source_reg rd base a h"
  "rd' a = rd a \<Longrightarrow> dest_reg rd' base a USE_HL = dest_reg rd base a USE_HL"
  "rd' a = rd a \<Longrightarrow> source_reg rd' base a USE_HL = source_reg rd base a USE_HL"
  unfolding dest_reg_def source_reg_def by (auto intro!: single_reg_agree single_reg_USE_HL)

lemma word_agree: "rd' (a + 1) = rd (a + 1) \<Longrightarrow> rd' (a + 2) = rd (a + 2) \<Longrightarrow> get_word rd' base (a + 1) = get_word rd base (a + 1)"
  by (simp add: get_word_def add.assoc)

lemma word_agree_far: "rd' (a + 2) = rd (a + 2) \<Longrightarrow> rd' (a + 3) = rd (a + 3) \<Longrightarrow> get_word rd' base (a + 2) = get_word rd base (a + 2)"
  by (simp add: get_word_def add.assoc)

text \<open>Functions of the memory that look at no more bytes than the length they give, one to \<open>k\<close> from \<open>a\<close> on.\<close>

definition looks_within :: "nat \<Rightarrow> u16 \<Rightarrow> ((u16 \<Rightarrow> u8) \<Rightarrow> string \<times> nat) \<Rightarrow> bool" where
  "looks_within k a f \<longleftrightarrow> (\<forall>rd. 0 < snd (f rd) \<and> snd (f rd) \<le> k \<and> (\<forall>rd'. agree rd rd' a (snd (f rd)) \<longrightarrow> f rd' = f rd))"

lemma agree_at:
  assumes "agree rd rd' a n"
  shows "0 < n \<longrightarrow> rd' a = rd a" "1 < n \<longrightarrow> rd' (a + 1) = rd (a + 1)" "2 < n \<longrightarrow> rd' (a + 2) = rd (a + 2)" "3 < n \<longrightarrow> rd' (a + 3) = rd (a + 3)"
proof -
  have e: "i < n \<Longrightarrow> rd' (a + of_nat i) = rd (a + of_nat i)" for i using assms by (simp add: agree_def)
  show "0 < n \<longrightarrow> rd' a = rd a" "1 < n \<longrightarrow> rd' (a + 1) = rd (a + 1)" "2 < n \<longrightarrow> rd' (a + 2) = rd (a + 2)" "3 < n \<longrightarrow> rd' (a + 3) = rd (a + 3)"
    using e [of 0] e [of 1] e [of 2] e [of 3] by simp_all
qed

lemma looks_withinI:
  assumes "\<And>rd. 0 < snd (f rd) \<and> snd (f rd) \<le> k"
    and "\<And>rd rd'. rd' a = rd a \<Longrightarrow> 1 < snd (f rd) \<longrightarrow> rd' (a + 1) = rd (a + 1) \<Longrightarrow> 2 < snd (f rd) \<longrightarrow> rd' (a + 2) = rd (a + 2) \<Longrightarrow> f rd' = f rd"
  shows "looks_within k a f"
  unfolding looks_within_def using assms agree_at by metis

lemma looks_withinD:
  assumes "looks_within k a f" "k \<le> 3"
  shows "0 < snd (f rd)" "snd (f rd) \<le> k"
    "rd' a = rd a \<Longrightarrow> 1 < snd (f rd) \<longrightarrow> rd' (a + 1) = rd (a + 1) \<Longrightarrow> 2 < snd (f rd) \<longrightarrow> rd' (a + 2) = rd (a + 2) \<Longrightarrow> f rd' = f rd"
proof -
  show l: "0 < snd (f rd)" "snd (f rd) \<le> k" using assms(1) by (simp_all add: looks_within_def)
  assume e: "rd' a = rd a" "1 < snd (f rd) \<longrightarrow> rd' (a + 1) = rd (a + 1)" "2 < snd (f rd) \<longrightarrow> rd' (a + 2) = rd (a + 2)"
  have "agree rd rd' a (snd (f rd))"
    unfolding agree_def
  proof (intro allI impI)
    fix i assume i: "i < snd (f rd)"
    then have "i < 3" using l(2) assms(2) by linarith
    then consider "i = 0" | "i = 1" | "i = 2" by linarith
    then show "rd' (a + of_nat i) = rd (a + of_nat i)" using i e by cases simp_all
  qed
  then show "f rd' = f rd" using assms(1) by (simp add: looks_within_def)
qed

lemma within_010: "looks_within 3 a (\<lambda>rd. disassemble_00xxx010 rd base a h)"
proof (rule looks_withinI)
  fix rd rd' :: "u16 \<Rightarrow> u8"
  note ag = word_agree [of rd' _ rd] word_agree_far [of rd' _ rd] reg_agree [of rd' _ rd]
  note bounds = reg_bytes
  show "0 < snd (disassemble_00xxx010 rd base a h) \<and> snd (disassemble_00xxx010 rd base a h) \<le> 3"
    using bounds by (auto simp: disassemble_00xxx010_def Let_def case_prod_beta intro: le_trans)
  assume "rd' a = rd a" "1 < snd (disassemble_00xxx010 rd base a h) \<longrightarrow> rd' (a + 1) = rd (a + 1)" "2 < snd (disassemble_00xxx010 rd base a h) \<longrightarrow> rd' (a + 2) = rd (a + 2)"
  then show "disassemble_00xxx010 rd' base a h = disassemble_00xxx010 rd base a h"
    unfolding disassemble_00xxx010_def Let_def by (auto simp: ag case_prod_beta split: if_splits)
qed

lemma within_110: "looks_within 3 a (\<lambda>rd. disassemble_00xxx110 rd base a h)"
proof (rule looks_withinI)
  fix rd rd' :: "u16 \<Rightarrow> u8"
  note ag = word_agree [of rd' _ rd] word_agree_far [of rd' _ rd] reg_agree [of rd' _ rd]
  note bounds = reg_bytes
  show "0 < snd (disassemble_00xxx110 rd base a h) \<and> snd (disassemble_00xxx110 rd base a h) \<le> 3"
    using bounds by (auto simp: disassemble_00xxx110_def Let_def case_prod_beta intro: le_trans)
  assume "rd' a = rd a" "1 < snd (disassemble_00xxx110 rd base a h) \<longrightarrow> rd' (a + 1) = rd (a + 1)" "2 < snd (disassemble_00xxx110 rd base a h) \<longrightarrow> rd' (a + 2) = rd (a + 2)"
  then show "disassemble_00xxx110 rd' base a h = disassemble_00xxx110 rd base a h"
    unfolding disassemble_00xxx110_def Let_def by (auto simp: ag case_prod_beta split: if_splits)
qed

lemma within_cb: "looks_within 1 a (\<lambda>rd. disassemble_cb rd base a)"
proof (rule looks_withinI)
  fix rd rd' :: "u16 \<Rightarrow> u8"
  note ag = word_agree [of rd' _ rd] word_agree_far [of rd' _ rd] reg_agree [of rd' _ rd]
  note bounds = reg_bytes
  show "0 < snd (disassemble_cb rd base a) \<and> snd (disassemble_cb rd base a) \<le> 1"
    using bounds by (auto simp: disassemble_cb_def Let_def case_prod_beta intro: le_trans)
  assume "rd' a = rd a" "1 < snd (disassemble_cb rd base a) \<longrightarrow> rd' (a + 1) = rd (a + 1)" "2 < snd (disassemble_cb rd base a) \<longrightarrow> rd' (a + 2) = rd (a + 2)"
  then show "disassemble_cb rd' base a = disassemble_cb rd base a"
    unfolding disassemble_cb_def Let_def by (auto simp: ag case_prod_beta split: if_splits)
qed

lemma within_ddfd: "looks_within 1 a (\<lambda>rd. disassemble_ddfd_cb rd base a off h)"
proof (rule looks_withinI)
  fix rd rd' :: "u16 \<Rightarrow> u8"
  note ag = word_agree [of rd' _ rd] word_agree_far [of rd' _ rd] reg_agree [of rd' _ rd]
  note bounds = reg_bytes
  show "0 < snd (disassemble_ddfd_cb rd base a off h) \<and> snd (disassemble_ddfd_cb rd base a off h) \<le> 1"
    using bounds by (auto simp: disassemble_ddfd_cb_def Let_def case_prod_beta intro: le_trans)
  assume "rd' a = rd a" "1 < snd (disassemble_ddfd_cb rd base a off h) \<longrightarrow> rd' (a + 1) = rd (a + 1)" "2 < snd (disassemble_ddfd_cb rd base a off h) \<longrightarrow> rd' (a + 2) = rd (a + 2)"
  then show "disassemble_ddfd_cb rd' base a off h = disassemble_ddfd_cb rd base a off h"
    unfolding disassemble_ddfd_cb_def Let_def by (auto simp: ag case_prod_beta split: if_splits)
qed

lemma within_ed: "looks_within 3 a (\<lambda>rd. disassemble_ed rd base a)"
proof (rule looks_withinI)
  fix rd rd' :: "u16 \<Rightarrow> u8"
  note ag = word_agree [of rd' _ rd] word_agree_far [of rd' _ rd] reg_agree [of rd' _ rd]
  note bounds = reg_bytes
  show "0 < snd (disassemble_ed rd base a) \<and> snd (disassemble_ed rd base a) \<le> 3"
    using bounds by (auto simp: disassemble_ed_def Let_def case_prod_beta intro: le_trans)
  assume "rd' a = rd a" "1 < snd (disassemble_ed rd base a) \<longrightarrow> rd' (a + 1) = rd (a + 1)" "2 < snd (disassemble_ed rd base a) \<longrightarrow> rd' (a + 2) = rd (a + 2)"
  then show "disassemble_ed rd' base a = disassemble_ed rd base a"
    unfolding disassemble_ed_def Let_def by (auto simp: ag case_prod_beta split: if_splits)
qed

lemma within_00: "looks_within 3 a (\<lambda>rd. disassemble_00xxxxxx rd base a h)"
proof (rule looks_withinI)
  fix rd rd' :: "u16 \<Rightarrow> u8"
  note ag = word_agree [of rd' _ rd] word_agree_far [of rd' _ rd] reg_agree [of rd' _ rd] looks_withinD(3) [OF within_010, of rd' a rd] looks_withinD(3) [OF within_110, of rd' a rd]
  note bounds = reg_bytes looks_withinD(1,2) [OF within_010, of rd] looks_withinD(1,2) [OF within_110, of rd]
  show "0 < snd (disassemble_00xxxxxx rd base a h) \<and> snd (disassemble_00xxxxxx rd base a h) \<le> 3"
    using bounds by (auto simp: disassemble_00xxxxxx_def Let_def case_prod_beta intro: le_trans)
  assume "rd' a = rd a" "1 < snd (disassemble_00xxxxxx rd base a h) \<longrightarrow> rd' (a + 1) = rd (a + 1)" "2 < snd (disassemble_00xxxxxx rd base a h) \<longrightarrow> rd' (a + 2) = rd (a + 2)"
  moreover have "fst (dest_reg rd base a h) = 0 \<or> fst (dest_reg rd base a h) = 1"
    using bounds(1) [of rd base a h] by linarith
  ultimately show "disassemble_00xxxxxx rd' base a h = disassemble_00xxxxxx rd base a h"
    unfolding disassemble_00xxxxxx_def Let_def by (elim disjE) (auto simp: ag case_prod_beta add.commute [of 1 a] add.commute [of 2 a] split: if_splits)
qed

lemma within_11xxx001: "0 < snd (disassemble_11xxx001 b h)" "snd (disassemble_11xxx001 b h) \<le> 3"
  by (simp_all add: disassemble_11xxx001_def Let_def)

lemma cb_length [simp]: "snd (disassemble_cb rd base a) = 1" "snd (disassemble_ddfd_cb rd base a off h) = 1"
  by (simp_all add: disassemble_cb_def disassemble_ddfd_cb_def Let_def case_prod_beta)

lemma within_011: "looks_within 3 a (\<lambda>rd. disassemble_11xxx011 rd base a h)"
proof (rule looks_withinI)
  fix rd rd' :: "u16 \<Rightarrow> u8"
  note ag = word_agree [of rd' _ rd] looks_withinD(3) [OF within_cb, of rd' "a + 1" rd] looks_withinD(3) [OF within_ddfd, of rd' "a + 2" rd]
  show "0 < snd (disassemble_11xxx011 rd base a h) \<and> snd (disassemble_11xxx011 rd base a h) \<le> 3"
    by (simp add: disassemble_11xxx011_def Let_def case_prod_beta)
  assume "rd' a = rd a" "1 < snd (disassemble_11xxx011 rd base a h) \<longrightarrow> rd' (a + 1) = rd (a + 1)"
    "2 < snd (disassemble_11xxx011 rd base a h) \<longrightarrow> rd' (a + 2) = rd (a + 2)"
  then show "disassemble_11xxx011 rd' base a h = disassemble_11xxx011 rd base a h"
    unfolding disassemble_11xxx011_def Let_def by (auto simp: ag case_prod_beta split: if_splits)
qed

lemma ed_agree:
  assumes "rd' (a + 1) = rd (a + 1)" "2 < Suc (snd (disassemble_ed rd base (a + 1))) \<longrightarrow> rd' (a + 2) = rd (a + 2)"
    "3 < Suc (snd (disassemble_ed rd base (a + 1))) \<longrightarrow> rd' (a + 3) = rd (a + 3)"
  shows "disassemble_ed rd' base (a + 1) = disassemble_ed rd base (a + 1)"
  using assms by (intro looks_withinD(3) [OF within_ed]) (simp_all add: add.assoc)

lemma within_101:
  assumes "disassemble_11xxx101 rd base a h = Some (t, n)"
  shows "0 < n \<and> n \<le> 4"
    "rd' a = rd a \<Longrightarrow> 1 < n \<longrightarrow> rd' (a + 1) = rd (a + 1) \<Longrightarrow> 2 < n \<longrightarrow> rd' (a + 2) = rd (a + 2) \<Longrightarrow> 3 < n \<longrightarrow> rd' (a + 3) = rd (a + 3) \<Longrightarrow>
      disassemble_11xxx101 rd' base a h = Some (t, n)"
proof -
  note b = looks_withinD(1,2) [OF within_ed, of rd base "a + 1"]
  show "0 < n \<and> n \<le> 4" using assms b
    by (auto simp: disassemble_11xxx101_def Let_def case_prod_beta split: if_splits)
  assume "rd' a = rd a" "1 < n \<longrightarrow> rd' (a + 1) = rd (a + 1)" "2 < n \<longrightarrow> rd' (a + 2) = rd (a + 2)" "3 < n \<longrightarrow> rd' (a + 3) = rd (a + 3)"
  then show "disassemble_11xxx101 rd' base a h = Some (t, n)"
    using assms b(1) unfolding disassemble_11xxx101_def Let_def
    by (auto simp: word_agree [of rd' _ rd] ed_agree [of rd' _ rd] case_prod_beta split: if_splits)
qed

lemma within_11xxxxxx:
  assumes "disassemble_11xxxxxx rd base a h = Some (t, n)"
  shows "0 < n \<and> n \<le> 4"
    "rd' a = rd a \<Longrightarrow> 1 < n \<longrightarrow> rd' (a + 1) = rd (a + 1) \<Longrightarrow> 2 < n \<longrightarrow> rd' (a + 2) = rd (a + 2) \<Longrightarrow> 3 < n \<longrightarrow> rd' (a + 3) = rd (a + 3) \<Longrightarrow>
      disassemble_11xxxxxx rd' base a h = Some (t, n)"
proof -
  note b = looks_withinD(1,2) [OF within_011, of rd base a h] within_11xxx001 [of "rd a" h]
  show "0 < n \<and> n \<le> 4" using assms b within_101(1) [of rd base a h t n]
    by (auto simp: disassemble_11xxxxxx_def Let_def case_prod_beta split: if_splits)
  assume "rd' a = rd a" "1 < n \<longrightarrow> rd' (a + 1) = rd (a + 1)" "2 < n \<longrightarrow> rd' (a + 2) = rd (a + 2)" "3 < n \<longrightarrow> rd' (a + 3) = rd (a + 3)"
  then show "disassemble_11xxxxxx rd' base a h = Some (t, n)"
    using assms b within_101(2) [of rd base a h t n rd'] looks_withinD(3) [OF within_011, of rd' a rd base h]
    unfolding disassemble_11xxxxxx_def Let_def
    by (auto simp: word_agree [of rd' _ rd] case_prod_beta split: if_splits)
qed

lemma reg_short:
  "drop_bit 3 (rd a) AND 7 \<noteq> 6 \<Longrightarrow> fst (dest_reg rd base a h) = 0" "rd a AND 7 \<noteq> 6 \<Longrightarrow> fst (source_reg rd base a h) = 0"
  by (simp_all add: dest_reg_def source_reg_def single_reg_def word_unat_eq_iff)

lemma within_opcode:
  assumes "disassemble_opcode rd base a h = Some (t, n)"
  shows "0 < n \<and> n \<le> 4"
    "rd' a = rd a \<Longrightarrow> 1 < n \<longrightarrow> rd' (a + 1) = rd (a + 1) \<Longrightarrow> 2 < n \<longrightarrow> rd' (a + 2) = rd (a + 2) \<Longrightarrow> 3 < n \<longrightarrow> rd' (a + 3) = rd (a + 3) \<Longrightarrow>
      disassemble_opcode rd' base a h = Some (t, n)"
proof -
  note b = looks_withinD(1,2) [OF within_00, of rd base a h]
  have r: "fst (source_reg rd base a h) \<le> 3" using reg_bytes(2) [of rd base a h] by linarith
  show "0 < n \<and> n \<le> 4" using assms b within_11xxxxxx(1) [of rd base a h t n] r
    by (auto simp: disassemble_opcode_def Let_def case_prod_beta split: if_splits)
  assume "rd' a = rd a" "1 < n \<longrightarrow> rd' (a + 1) = rd (a + 1)" "2 < n \<longrightarrow> rd' (a + 2) = rd (a + 2)" "3 < n \<longrightarrow> rd' (a + 3) = rd (a + 3)"
  then show "disassemble_opcode rd' base a h = Some (t, n)"
    using assms b within_11xxxxxx(2) [of rd base a h t n rd'] looks_withinD(3) [OF within_00, of rd' a rd base h]
    unfolding disassemble_opcode_def Let_def
    by (auto simp: reg_agree [of rd' _ rd] reg_short [of rd] case_prod_beta split: if_splits)
qed

section \<open>The prefixes\<close>

definition is_prefix :: "u8 \<Rightarrow> bool" where
  "is_prefix b \<longleftrightarrow> b = 0xdd \<or> b = 0xfd"

definition prefix_type :: "(u16 \<Rightarrow> u8) \<Rightarrow> u16 \<Rightarrow> hl_type \<Rightarrow> nat \<Rightarrow> hl_type" where
  "prefix_type rd a h m = (if m = 0 then h else if rd (a + of_nat m - 1) = 0xdd then USE_IX else USE_IY)"

lemma strip_found:
  "\<forall>i<m. is_prefix (rd (a + of_nat i)) \<Longrightarrow> \<not> is_prefix (rd (a + of_nat m)) \<Longrightarrow>
   strip_prefixes rd a h k = Some (a + of_nat m, prefix_type rd a h m, k + m)"
proof (induction m arbitrary: a h k)
  case 0
  then show ?case by (simp add: strip_ends is_prefix_def prefix_type_def)
next
  case (Suc m)
  have f: "rd a = 0xdd \<or> rd a = 0xfd" using Suc.prems(1) [rule_format, of 0] by (simp add: is_prefix_def)
  have "\<forall>i<m. is_prefix (rd (a + 1 + of_nat i))"
    using Suc.prems(1) by (metis Suc_less_eq add.assoc of_nat_Suc)
  moreover have "\<not> is_prefix (rd (a + 1 + of_nat m))" using Suc.prems(2) by (simp add: add.assoc)
  ultimately have ih: "strip_prefixes rd (a + 1) h' (k + 1) = Some (a + 1 + of_nat m, prefix_type rd (a + 1) h' m, k + 1 + m)" for h'
    by (rule Suc.IH)
  have "prefix_type rd (a + 1) (if rd a = 0xdd then USE_IX else USE_IY) m = prefix_type rd a h (Suc m)"
    by (cases m) (simp_all add: prefix_type_def add.assoc)
  moreover have "strip_prefixes rd a h k = strip_prefixes rd (a + 1) (if rd a = 0xdd then USE_IX else USE_IY) (k + 1)"
    using f by (subst strip_prefixes.simps) (simp add: Let_def)
  ultimately show ?case unfolding ih by (simp add: add.assoc)
qed

lemma strip_never: "strip_prefixes rd a h k = Some y \<Longrightarrow> \<exists>b. \<not> is_prefix (rd b)"
proof (erule strip_prefixes.raw_induct [rotated])
  fix f :: "(u16 \<Rightarrow> u8) \<Rightarrow> u16 \<Rightarrow> hl_type \<Rightarrow> nat \<Rightarrow> (u16 \<times> hl_type \<times> nat) option" and rd a h k y
  assume ih: "\<And>rd a h k y. f rd a h k = Some y \<Longrightarrow> \<exists>b. \<not> is_prefix (rd b)"
    and body: "(let b = rd a in if b = 0xdd \<or> b = 0xfd then f rd (a + 1) (if b = 0xdd then USE_IX else USE_IY) (k + 1)
      else Some (a, h, k)) = Some y"
  show "\<exists>b. \<not> is_prefix (rd b)"
  proof (cases "is_prefix (rd a)")
    case True
    then show ?thesis using body ih by (auto simp: is_prefix_def Let_def)
  qed blast
qed

lemma prefixes_end:
  fixes rd :: "u16 \<Rightarrow> u8"
  assumes "\<not> is_prefix (rd b)"
  obtains m where "m < 65536" "\<forall>i<m. is_prefix (rd (a + of_nat i))" "\<not> is_prefix (rd (a + of_nat m))"
proof -
  have "\<not> is_prefix (rd (a + of_nat (unat (b - a))))" using assms by simp
  moreover define m where "m = (LEAST m. \<not> is_prefix (rd (a + of_nat m)))"
  ultimately have "\<not> is_prefix (rd (a + of_nat m))" "m \<le> unat (b - a)" "\<forall>i<m. is_prefix (rd (a + of_nat i))"
    by (metis LeastI, metis Least_le, metis not_less_Least)
  moreover have "unat (b - a) < 65536" using unsigned_less [of "b - a"] by simp
  ultimately show thesis using that by (meson le_less_trans)
qed

lemma drop_unat: "unat (drop_bit n b) = unat b div 2 ^ n"
  unfolding unat_drop_bit_eq by (rule drop_bit_eq_div)

lemma opcode_not_prefix:
  assumes "\<not> is_prefix (rd a)"
  shows "disassemble_opcode rd base a h \<noteq> None"
proof -
  have "unat (rd a) \<noteq> 0xdd" "unat (rd a) \<noteq> 0xfd"
    using assms by (simp_all add: is_prefix_def word_unat_eq_iff)
  moreover have "rd a AND 7 = take_bit 3 (rd a)" by (simp add: take_bit_eq_mask mask_eq_exp_minus_1)
  then have "unat (rd a AND 7) = unat (rd a) mod 8" by (simp only: unsigned_take_bit_eq) (simp add: take_bit_eq_mod)
  moreover have "v div 8 - 24 \<noteq> 3 \<and> v div 8 - 24 \<noteq> 7" if "v mod 8 = 5" "v \<noteq> 221" "v \<noteq> 253" for v :: nat
    using that by presburger
  ultimately have "unat (rd a AND 7) = 5 \<Longrightarrow> unat (drop_bit 3 (rd a)) - 0x18 \<notin> {3, 7}"
    unfolding drop_unat by simp
  then show ?thesis
    unfolding disassemble_opcode_def disassemble_11xxxxxx_def disassemble_11xxx101_def Let_def
    by (auto simp: case_prod_beta)
qed

section \<open>How long the text is\<close>

lemma digits_length [simp]: "length (fixed_hex w n) = w" "length (fixed_decimal w n) = w"
  by (induction w arbitrary: n) simp_all

lemma strip_zeros_length: "length (strip_zeros ds) \<le> max 1 (length ds)"
  using length_dropWhile_le [of "\<lambda>c. c = CHR ''0''" ds] by (auto simp: strip_zeros_def split: list.split)

lemma decimal_length: "length (decimal n) \<le> 5"
  using strip_zeros_length [of "fixed_decimal 5 n"] by (simp add: decimal_def)

lemma hl_length [simp]: "length (hl_ix_iy h) = 2"
  by (cases h) (simp_all add: hl_ix_iy_def)

lemma reg_pair_length [simp]: "length (reg_pair b h) = 2"
  by (simp add: reg_pair_def Let_def)

lemma snprintf_length: "length txt \<le> n \<Longrightarrow> length (Disassembler.snprintf k txt) \<le> n"
  by (simp add: Disassembler.snprintf_def)

lemma number_length: "length (get_byte base b) \<le> 5" "length (get_word rd base a) \<le> 5" "length (get_offset base a off) \<le> 5"
  using decimal_length by (auto simp: get_byte_def get_word_def get_offset_def Let_def intro!: snprintf_length)

lemma place_length: "length (ix_iy_offset base h off) \<le> 10"
  using decimal_length [of "unat off"] decimal_length [of "256 - unat off"]
  by (auto simp: ix_iy_offset_def Let_def intro!: snprintf_length)

lemma nth_length: "i < length xs \<Longrightarrow> \<forall>x\<in>set xs. length x \<le> n \<Longrightarrow> length (xs ! i) \<le> n"
  using nth_mem by blast

lemma and7: "unat (b AND 7 :: u8) < 8"
proof -
  have "b AND 7 = take_bit 3 b" by (simp add: take_bit_eq_mask mask_eq_exp_minus_1)
  then show ?thesis using unsigned_take_bit_eq [of 3 b] by (simp only: unsigned_take_bit_eq) (simp add: take_bit_eq_mod)
qed

lemma reg_length: "length (snd (dest_reg rd base a h)) \<le> 10" "length (snd (source_reg rd base a h)) \<le> 10"
proof -
  have "length (snd (single_reg base i h off)) \<le> 10" if "i < 8" for i off
    using that place_length [of base h off]
    by (auto simp: single_reg_def intro!: snprintf_length nth_length)
  then show "length (snd (dest_reg rd base a h)) \<le> 10" "length (snd (source_reg rd base a h)) \<le> 10"
    using and7 by (simp_all add: dest_reg_def source_reg_def)
qed

lemma table_length:
  "length (addition_op b) \<le> 6" "length (condition_name b) \<le> 2"
  "b < 0x40 \<Longrightarrow> length (rotate_op b) \<le> 3" "b \<ge> 0x40 \<Longrightarrow> length (bit_op b) \<le> 3"
proof -
  show "length (addition_op b) \<le> 6" "length (condition_name b) \<le> 2"
    unfolding addition_op_def condition_name_def using and7 [of "drop_bit 3 b"] by (intro nth_length; simp)+
  have u: "unat (drop_bit 3 b) = unat b div 8" "unat (drop_bit 6 b) = unat b div 64"
    unfolding drop_unat by simp_all
  have l: "unat b < 256" using unsigned_less [of b] by simp
  show "b < 0x40 \<Longrightarrow> length (rotate_op b) \<le> 3"
    unfolding rotate_op_def u by (intro nth_length) (auto simp: word_less_nat_alt)
  show "b \<ge> 0x40 \<Longrightarrow> length (bit_op b) \<le> 3"
    unfolding bit_op_def u using l by (intro nth_length) (auto simp: word_le_nat_alt)
qed

lemma opcode_tables:
  fixes b :: u8
  shows "b < 0x40 \<Longrightarrow> length (opcode_00xxx000 ! unat (drop_bit 3 b)) \<le> 9" "b < 0x40 \<Longrightarrow> length (opcode_00xxx111 ! unat (drop_bit 3 b)) \<le> 4"
  "length (opcode_01xxx111 ! unat (drop_bit 3 b AND 0x07)) \<le> 6" "b \<le> 0xbb \<Longrightarrow> 0xa0 \<le> b \<Longrightarrow> length (opcode_101xxxxx ! unat (b AND 0x1f)) \<le> 4"
proof -
  have "unat (drop_bit 3 b) < 8" if "b < 0x40"
    using that unfolding drop_unat by (auto simp: word_less_nat_alt)
  then show "b < 0x40 \<Longrightarrow> length (opcode_00xxx000 ! unat (drop_bit 3 b)) \<le> 9" "b < 0x40 \<Longrightarrow> length (opcode_00xxx111 ! unat (drop_bit 3 b)) \<le> 4"
    by (intro nth_length; simp add: opcode_00xxx000_def opcode_00xxx111_def)+
  show "length (opcode_01xxx111 ! unat (drop_bit 3 b AND 0x07)) \<le> 6"
    using and7 [of "drop_bit 3 b"] by (intro nth_length) (simp_all add: opcode_01xxx111_def)
  assume "b \<le> 0xbb" "0xa0 \<le> b"
  then have b: "unat b \<le> 187" "160 \<le> unat b" by (simp_all add: word_le_nat_alt)
  have "b AND 0x1f = take_bit 5 b" by (simp add: take_bit_eq_mask mask_eq_exp_minus_1)
  then have "unat (b AND 0x1f) = unat b mod 32" by (simp only: unsigned_take_bit_eq) (simp add: take_bit_eq_mod)
  moreover have "unat b mod 32 < 28" using b by presburger
  ultimately show "length (opcode_101xxxxx ! unat (b AND 0x1f)) \<le> 4"
    by (intro nth_length) (simp_all add: opcode_101xxxxx_def)
qed

lemma length_010: "length (fst (disassemble_00xxx010 rd base a h)) \<le> 30" "length (fst (disassemble_00xxx110 rd base a h)) \<le> 30"
  using number_length(2) [of rd base "a + 1"]
  by (simp_all add: disassemble_00xxx010_def disassemble_00xxx110_def Let_def)

lemma length_00: "rd a < 0x40 \<Longrightarrow> length (fst (disassemble_00xxxxxx rd base a h)) \<le> 30"
  using number_length(2) [of rd base "a + 1"] number_length(3) [of base "a + 2" "rd (a + 1)"] reg_length(1) [of rd base a h]
    number_length(1) [of base "rd (a + of_nat (2 + fst (dest_reg rd base a h)) - 1)"] opcode_tables(1,2) [of "rd a"] length_010 [of rd base a h]
  by (auto simp: disassemble_00xxxxxx_def Let_def case_prod_beta)

lemma length_cb: "length (fst (disassemble_cb rd base a)) \<le> 35"
  using reg_length(2) [of rd base a USE_HL] table_length(3,4) [of "rd a"] decimal_length [of "bit_op_bit (rd a)"]
  by (auto simp: disassemble_cb_def Let_def case_prod_beta not_less)

lemma length_ddfd: "length (fst (disassemble_ddfd_cb rd base a off h)) \<le> 35"
  using reg_length(2) [of rd base a USE_HL] table_length(3,4) [of "rd a"] decimal_length [of "bit_op_bit (rd a)"] place_length [of base h off]
  by (auto simp: disassemble_ddfd_cb_def Let_def case_prod_beta not_less)

lemma length_ed: "length (fst (disassemble_ed rd base a)) \<le> 30"
  using number_length(2) [of rd base "a + 1"] reg_length(1) [of rd base a USE_HL] opcode_tables(3,4) [of "rd a"]
    decimal_length [of "im_modes ! unat (drop_bit 3 (rd a) AND 0x03)"]
  by (auto simp: disassemble_ed_def Let_def case_prod_beta not_less)

lemma length_11: "disassemble_11xxxxxx rd base a h = Some (t, n) \<Longrightarrow> length t \<le> 35"
proof -
  have "length (fst (disassemble_11xxx001 (rd a) h)) \<le> 30" by (simp add: disassemble_11xxx001_def Let_def)
  moreover have "length (fst (disassemble_11xxx011 rd base a h)) \<le> 35"
    using number_length(1) [of base "rd (a + 1)"] number_length(2) [of rd base "a + 1"] length_cb [of rd base "a + 1"]
      length_ddfd [of rd base "a + 2" "rd (a + 1)" h]
    by (auto simp: disassemble_11xxx011_def Let_def case_prod_beta)
  moreover have "disassemble_11xxx101 rd base a h = Some (t, n) \<Longrightarrow> length t \<le> 30"
    using number_length(2) [of rd base "a + 1"] length_ed [of rd base "a + 1"]
    by (auto simp: disassemble_11xxx101_def Let_def case_prod_beta split: if_splits)
  ultimately show "disassemble_11xxxxxx rd base a h = Some (t, n) \<Longrightarrow> length t \<le> 35"
    using number_length(1) [of base "rd (a + 1)"] number_length(2) [of rd base "a + 1"] table_length(1,2) [of "rd a"]
      strip_zeros_length [of "fixed_hex 2 (0x08 * (unat (drop_bit 3 (rd a)) - 0x18))"]
    unfolding disassemble_11xxxxxx_def Let_def by (auto split: if_splits)
qed

lemma length_opcode: "disassemble_opcode rd base a h = Some (t, n) \<Longrightarrow> length t \<le> 35"
  using length_00 [of rd a base h] length_11 [of rd base a h t n] reg_length [of rd base a h] reg_length [of rd base a USE_HL] table_length(1) [of "rd a"]
  unfolding disassemble_opcode_def Let_def by (auto simp: case_prod_beta split: if_splits)

section \<open>The whole instruction\<close>

lemma main_found:
  assumes "\<forall>i<m. is_prefix (rd (a + of_nat i))" "\<not> is_prefix (rd (a + of_nat m))"
  obtains t n where "disassemble_opcode rd base (a + of_nat m) (prefix_type rd a h m) = Some (t, n)"
    "disassemble_main rd base k a h = Some (Disassembler.snprintf k t, n + m)" "0 < n" "n \<le> 4" "length t \<le> 35"
proof -
  obtain t n where o: "disassemble_opcode rd base (a + of_nat m) (prefix_type rd a h m) = Some (t, n)"
    using opcode_not_prefix [where rd = rd and a = "a + of_nat m", OF assms(2), of base "prefix_type rd a h m"] by fastforce
  then show thesis
    using strip_found [OF assms, of h 0] within_opcode(1) [OF o] length_opcode [OF o] by (intro that [of t n]) (auto simp: disassemble_main_def)
qed

lemma main_ends: "(\<exists>b. \<not> is_prefix (rd b)) \<longleftrightarrow> disassemble_main rd base k a h \<noteq> None"
proof
  assume "\<exists>b. \<not> is_prefix (rd b)"
  then obtain b where b: "\<not> is_prefix (rd b)" by blast
  from prefixes_end [where rd = rd, OF b, of a]
  obtain m where "\<forall>i<m. is_prefix (rd (a + of_nat i))" "\<not> is_prefix (rd (a + of_nat m))" by metis
  then obtain t n where "disassemble_main rd base k a h = Some (t, n)" by (rule main_found) blast
  then show "disassemble_main rd base k a h \<noteq> None" by simp
next
  assume "disassemble_main rd base k a h \<noteq> None"
  then have "strip_prefixes rd a h 0 \<noteq> None" by (auto simp: disassemble_main_def split: option.splits)
  then show "\<exists>b. \<not> is_prefix (rd b)" using strip_never by fastforce
qed

lemma main_shape:
  assumes "disassemble_main rd base k a h = Some (t, n)"
  obtains m l tx where "\<forall>i<m. is_prefix (rd (a + of_nat i))" "\<not> is_prefix (rd (a + of_nat m))" "m < 65536"
    "disassemble_opcode rd base (a + of_nat m) (prefix_type rd a h m) = Some (tx, l)" "0 < l" "l \<le> 4" "n = l + m"
    "t = Disassembler.snprintf k tx" "length tx \<le> 35"
proof -
  obtain b where b: "\<not> is_prefix (rd b)" using main_ends [of rd base k a h] assms by auto
  from prefixes_end [where rd = rd, OF b, of a]
  obtain m where m: "m < 65536" "\<forall>i<m. is_prefix (rd (a + of_nat i))" "\<not> is_prefix (rd (a + of_nat m))" by metis
  obtain tx l where "disassemble_opcode rd base (a + of_nat m) (prefix_type rd a h m) = Some (tx, l)"
    "disassemble_main rd base k a h = Some (Disassembler.snprintf k tx, l + m)" "0 < l" "l \<le> 4" "length tx \<le> 35"
    using main_found [OF m(2,3)] by metis
  then show thesis using that m assms by simp
qed

lemma main_agree:
  assumes "disassemble_main rd base k a h = Some (t, n)" "agree rd rd' a n"
  shows "disassemble_main rd' base k a h = Some (t, n)"
proof -
  obtain m l tx where m: "\<forall>i<m. is_prefix (rd (a + of_nat i))" "\<not> is_prefix (rd (a + of_nat m))"
    "disassemble_opcode rd base (a + of_nat m) (prefix_type rd a h m) = Some (tx, l)" "0 < l" "n = l + m" "t = Disassembler.snprintf k tx"
    using main_shape [OF assms(1)] by metis
  have e: "i < l + m \<Longrightarrow> rd' (a + of_nat i) = rd (a + of_nat i)" for i using assms(2) m(5) by (simp add: agree_def)
  have p: "\<forall>i<m. is_prefix (rd' (a + of_nat i))" "\<not> is_prefix (rd' (a + of_nat m))" using m e by simp_all
  have "prefix_type rd' a h m = prefix_type rd a h m"
  proof (cases m)
    case (Suc j)
    then show ?thesis using e [of j] by (simp add: prefix_type_def)
  qed (simp add: prefix_type_def)
  moreover have "disassemble_opcode rd' base (a + of_nat m) (prefix_type rd a h m) = Some (tx, l)"
    using e [of m] e [of "m + 1"] e [of "m + 2"] e [of "m + 3"] m(4)
    by (intro within_opcode(2) [OF m(3)]) (simp_all add: algebra_simps)
  ultimately show ?thesis
    using strip_found [OF p, of h 0] by (simp add: disassemble_main_def m(5,6))
qed

section \<open>Listings\<close>

lemma longest_before_found:
  "longest_before len a js k = Some n \<Longrightarrow> n = k \<and> (\<forall>j\<in>set js. len (a - of_nat j) \<noteq> Some j) \<or> (n \<in> set js \<and> len (a - of_nat n) = Some n)"
  by (induction js arbitrary: k) (auto split: option.splits if_splits)

lemma longest_before_last:
  "longest_before len a js k = Some n \<Longrightarrow> sorted js \<Longrightarrow> j \<in> set js \<Longrightarrow> len (a - of_nat j) = Some j \<Longrightarrow> j \<le> n"
proof (induction js arbitrary: k)
  case (Cons i js)
  obtain x where x: "len (a - of_nat i) = Some x" "longest_before len a js (if x = i then i else k) = Some n"
    using Cons.prems(1) by (auto split: option.splits)
  show ?case
  proof (cases "j \<in> set js")
    case True
    then show ?thesis using Cons.IH [OF x(2)] Cons.prems by simp
  next
    case False
    then have "j = i" using Cons.prems(3) by simp
    then show ?thesis using longest_before_found [OF x(2)] x(1) Cons.prems(2,4) by auto
  qed
qed simp





section \<open>The properties\<close>


text \<open>
  C27. The disassembler comes back exactly if some byte of the memory is not a DD or FD prefix. Then the instruction is the
  prefixes and one to four more bytes, and its text fits the buffers of 40 characters, so that a larger buffer gives the same.
\<close>

theorem disassembly_ends:
  "(debugger_disassemble k a s \<noteq> None \<longleftrightarrow> (\<exists>b. readbyte_internal b s \<noteq> 0xdd \<and> readbyte_internal b s \<noteq> 0xfd)) \<and>
   (\<forall>t n. debugger_disassemble k a s = Some (t, n) \<longrightarrow>
      (\<exists>m<65536. m < n \<and> n \<le> m + 4 \<and> (\<forall>i<m. readbyte_internal (a + of_nat i) s \<in> {0xdd, 0xfd}) \<and> readbyte_internal (a + of_nat m) s \<notin> {0xdd, 0xfd}) \<and>
      (DISASM_BUF_LEN \<le> k \<longrightarrow> debugger_disassemble DISASM_BUF_LEN a s = Some (t, n)))"
proof (intro conjI allI impI)
  show "debugger_disassemble k a s \<noteq> None \<longleftrightarrow> (\<exists>b. readbyte_internal b s \<noteq> 0xdd \<and> readbyte_internal b s \<noteq> 0xfd)"
    using main_ends [of "\<lambda>a. readbyte_internal a s" "debugger_output_base s" k a USE_HL] by (auto simp: debugger_disassemble_def is_prefix_def)
next
  fix t n
  assume "debugger_disassemble k a s = Some (t, n)"
  then have d: "disassemble_main (\<lambda>a. readbyte_internal a s) (debugger_output_base s) k a USE_HL = Some (t, n)"
    by (simp add: debugger_disassemble_def)
  then obtain m l x where m: "\<forall>i<m. is_prefix (readbyte_internal (a + of_nat i) s)" "\<not> is_prefix (readbyte_internal (a + of_nat m) s)" "m < 65536"
    "disassemble_opcode (\<lambda>a. readbyte_internal a s) (debugger_output_base s) (a + of_nat m) (prefix_type (\<lambda>a. readbyte_internal a s) a USE_HL m) = Some (x, l)"
    "0 < l" "l \<le> 4" "n = l + m" "t = Disassembler.snprintf k x" "length x \<le> 35"
    by (rule main_shape) blast
  then show "\<exists>m<65536. m < n \<and> n \<le> m + 4 \<and> (\<forall>i<m. readbyte_internal (a + of_nat i) s \<in> {0xdd, 0xfd}) \<and> readbyte_internal (a + of_nat m) s \<notin> {0xdd, 0xfd}"
    by (intro exI [of _ m]) (simp add: is_prefix_def)
  assume k: "DISASM_BUF_LEN \<le> k"
  then have "Disassembler.snprintf DISASM_BUF_LEN x = t" using m(8,9) by (simp add: Disassembler.snprintf_def DISASM_BUF_LEN_def)
  then show "debugger_disassemble DISASM_BUF_LEN a s = Some (t, n)"
    using strip_found [where rd = "\<lambda>a. readbyte_internal a s", OF m(1,2), of USE_HL 0] m(4,7)
    by (simp add: debugger_disassemble_def disassemble_main_def)
qed

lemma demo_bytes: "readbyte_internal a demo_debugger = 0"
proof -
  have "mem demo_ram = (\<lambda>b i. 0)"
    using aligned_slot(3) [of "0x4000"]
    by (simp add: demo_ram_def memory_map_16k_def r16k.map_law)
      (simp add: demo_machine_def memory_state.extend_def machine_state.fields_def blank_memory_def memory_init_def
        memory_source_register_def Let_def)
  then have "mem demo_debugger = (\<lambda>b i. 0)"
    by (simp add: demo_debugger_def z80_state.extend_def demo_z80_def machine_state.extend_def)
  then show ?thesis
    by (cases "page (read_mapping a demo_debugger)") (auto simp: readbyte_internal_def)
qed

theorem disassembly_ends_witness: "\<exists>t n. debugger_disassemble 60 0x8000 demo_debugger = Some (t, n) \<and> n \<le> 65539"
  using disassembly_ends [of 60 "0x8000" demo_debugger] by (force simp: demo_bytes)

text \<open>
  C28. The instruction depends on its own bytes alone: two memories with the same bytes from the address on, as many as the
  length that was given, disassemble to the same text and length there.
\<close>

theorem disassembly_is_local:
  assumes "debugger_disassemble k a s = Some (t, n)" "debugger_output_base s' = debugger_output_base s"
    and "\<forall>i<n. readbyte_internal (a + of_nat i) s' = readbyte_internal (a + of_nat i) s"
  shows "debugger_disassemble k a s' = Some (t, n)"
  using assms main_agree [of "\<lambda>a. readbyte_internal a s" "debugger_output_base s" k a USE_HL t n "\<lambda>a. readbyte_internal a s'"]
  by (simp add: debugger_disassemble_def agree_def)

theorem disassembly_is_local_witness: "debugger_disassemble 40 0x8000 (demo_debugger\<lparr>debugger_mode := DEBUGGER_MODE_HALTED\<rparr>) = Some (''NOP'', 1)"
proof -
  have d: "debugger_disassemble 40 0x8000 demo_debugger = Some (''NOP'', 1)"
    by (simp add: debugger_disassemble_def demo_bytes disassembling)
  show ?thesis
    by (rule disassembly_is_local [OF d]) (simp_all add: readbyte_internal_def read_mapping_def)
qed

text \<open>
  C29. Moving back in a listing: when some instruction of at most eight bytes ends where the listing starts, going back one
  instruction finds the longest of them, and going forward again comes back to where it was.
\<close>

theorem listing_back_and_forward:
  assumes "debugger_search_instruction a (-1) s = Some b" "instruction_length s (a - of_nat j) = Some j" "1 \<le> j" "j \<le> 8"
  shows "debugger_search_instruction b 1 s = Some a \<and>
    (\<exists>n. b = a - of_nat n \<and> j \<le> n \<and> n \<le> 8 \<and> instruction_length s b = Some n)"
proof -
  obtain n where n: "longest_before (instruction_length s) a [1..<9] 1 = Some n" "b = a - of_nat n"
    using assms(1) by (auto simp: debugger_search_instruction_def split: option.splits)
  have j: "j \<in> set [1..<9]" using assms(3,4) by auto
  have l: "n \<in> set [1..<9] \<and> instruction_length s (a - of_nat n) = Some n"
    using longest_before_found [OF n(1)] assms(2) j by blast
  have "j \<le> n" using longest_before_last [OF n(1) _ j assms(2)] by simp
  then show ?thesis using l n(2) by (auto simp: debugger_search_instruction_def)
qed

theorem listing_back_and_forward_witness: "\<exists>b. debugger_search_instruction 0x8000 (-1) demo_debugger = Some b \<and> debugger_search_instruction b 1 demo_debugger = Some 0x8000"
proof -
  have i: "instruction_length demo_debugger a = Some 1" for a
    by (simp add: instruction_length_def debugger_disassemble_def demo_bytes disassembling)
  have "debugger_search_instruction 0x8000 (-1) demo_debugger = Some 0x7fff"
    by (simp add: debugger_search_instruction_def i upt_rec)
  then show ?thesis using listing_back_and_forward [of "0x8000" demo_debugger "0x7fff" 1] i by simp
qed

text \<open>
  C30. Stepping over: the one-shot breakpoint is after the last byte of the instruction, and the check stops the
  program when it gets there, in whatever state, and drops the breakpoint.
\<close>

theorem next_stops_after_instruction:
  fixes s s1 s2 :: "('u, 'z) breakpoint_state_scheme"
  assumes "debugger_next ins null s = Some s1" "no_commands s" "\<forall>bp\<in>set (debugger_breakpoints s). bp_id bp \<noteq> next_breakpoint_id s"
    and "debugger_breakpoints s2 = debugger_breakpoints s1" "debugger_mode s2 = debugger_mode s1"
      "\<not> debugger_breakpoints_remove_pending s2" "\<not> gdbserver_debugging_enabled s2"
    and "debugger_disassemble k (PC (z80 s)) s = Some (t, n)" "PC (z80 s2) = PC (z80 s) + of_nat n"
  shows "\<exists>s3. debugger_check (z80_debugger_variables_init []) cmd activate DEBUGGER_BREAKPOINT_TYPE_EXECUTE (ucast (PC (z80 s2))) s2 = Some (True, s3) \<and>
    debugger_mode s3 = DEBUGGER_MODE_HALTED \<and> (\<forall>bp\<in>set (debugger_breakpoints s3). bp_id bp \<noteq> next_breakpoint_id s)"
proof -
  have "instruction_length s (PC (z80 s)) = Some n"
    using assms(8) by (auto simp: instruction_length_def debugger_disassemble_def disassemble_main_def split: option.splits)
  then have "map_option debugger_run (debugger_breakpoint_add_address ins null DEBUGGER_BREAKPOINT_TYPE_EXECUTE memory_source_any 0
     (PC (z80 s) + of_nat n) 0 DEBUGGER_BREAKPOINT_LIFE_ONESHOT None s) = Some s1"
    using assms(1) by (simp add: debugger_next_def)
  note s1 = stop_at_added [OF this]
  have "no_commands s2" using assms(2,4,6,7) s1(1,4) by (auto simp: no_commands_def)
  then show ?thesis
    using stop_at_stops [of s2 "debugger_breakpoints s" "next_breakpoint_id s" "PC (z80 s) + of_nat n"] s1(1,2) assms(3-5,9) by simp
qed

theorem next_stops_after_instruction_witness:
  "\<exists>s1 s3. debugger_next insert_sorted_ref () demo_debugger = Some s1 \<and>
    debugger_check (z80_debugger_variables_init []) (\<lambda>_ s. s) id DEBUGGER_BREAKPOINT_TYPE_EXECUTE
      0x5679 (s1\<lparr>z80 := (z80 s1)\<lparr>PC := 0x5679\<rparr>\<rparr>) = Some (True, s3)"
proof -
  have d: "debugger_disassemble 40 (PC (z80 demo_debugger)) demo_debugger = Some (''NOP'', 1)"
    by (simp add: debugger_disassemble_def demo_bytes disassembling)
  then obtain s1 where s1: "debugger_next insert_sorted_ref () demo_debugger = Some s1"
    by (auto simp: debugger_next_def instruction_length_def debugger_disassemble_def demo_bytes disassembling debugger_breakpoint_add_address_def)
  have n: "no_commands demo_debugger" by (simp add: no_commands_def)
  have s: "\<not> debugger_breakpoints_remove_pending s1" "\<not> gdbserver_debugging_enabled s1"
    using s1 by (auto simp: debugger_next_def instruction_length_def debugger_disassemble_def demo_bytes disassembling
      debugger_breakpoint_add_address_def debugger_run_def breakpoint_add_def)
  show ?thesis
    using next_stops_after_instruction [OF s1 n, of "s1\<lparr>z80 := (z80 s1)\<lparr>PC := 0x5679\<rparr>\<rparr>" 40 "''NOP''" 1 "\<lambda>_ s. s" id] s1 s d
    by (auto simp: demo_processor_def)
qed

end
