(* ===== verification/Disk_Crc.thy ===== *)
theory Disk_Crc
  imports Prelude
begin

text \<open>
  The checksum of a floppy disk, \<open>peripherals/disk/crc.c\<close>: the table, the step that adds a byte, and the proof
  that it is the CRC of the polynomial x^16 + x^12 + x^5 + 1.
\<close>

section \<open>The table and the step\<close>

definition crc_fdc_table :: "u16 list" where
  "crc_fdc_table = [
     0x0000, 0x1021, 0x2042, 0x3063, 0x4084, 0x50a5, 0x60c6, 0x70e7, 0x8108, 0x9129, 0xa14a, 0xb16b, 0xc18c, 0xd1ad, 0xe1ce, 0xf1ef,
     0x1231, 0x0210, 0x3273, 0x2252, 0x52b5, 0x4294, 0x72f7, 0x62d6, 0x9339, 0x8318, 0xb37b, 0xa35a, 0xd3bd, 0xc39c, 0xf3ff, 0xe3de,
     0x2462, 0x3443, 0x0420, 0x1401, 0x64e6, 0x74c7, 0x44a4, 0x5485, 0xa56a, 0xb54b, 0x8528, 0x9509, 0xe5ee, 0xf5cf, 0xc5ac, 0xd58d,
     0x3653, 0x2672, 0x1611, 0x0630, 0x76d7, 0x66f6, 0x5695, 0x46b4, 0xb75b, 0xa77a, 0x9719, 0x8738, 0xf7df, 0xe7fe, 0xd79d, 0xc7bc,
     0x48c4, 0x58e5, 0x6886, 0x78a7, 0x0840, 0x1861, 0x2802, 0x3823, 0xc9cc, 0xd9ed, 0xe98e, 0xf9af, 0x8948, 0x9969, 0xa90a, 0xb92b,
     0x5af5, 0x4ad4, 0x7ab7, 0x6a96, 0x1a71, 0x0a50, 0x3a33, 0x2a12, 0xdbfd, 0xcbdc, 0xfbbf, 0xeb9e, 0x9b79, 0x8b58, 0xbb3b, 0xab1a,
     0x6ca6, 0x7c87, 0x4ce4, 0x5cc5, 0x2c22, 0x3c03, 0x0c60, 0x1c41, 0xedae, 0xfd8f, 0xcdec, 0xddcd, 0xad2a, 0xbd0b, 0x8d68, 0x9d49,
     0x7e97, 0x6eb6, 0x5ed5, 0x4ef4, 0x3e13, 0x2e32, 0x1e51, 0x0e70, 0xff9f, 0xefbe, 0xdfdd, 0xcffc, 0xbf1b, 0xaf3a, 0x9f59, 0x8f78,
     0x9188, 0x81a9, 0xb1ca, 0xa1eb, 0xd10c, 0xc12d, 0xf14e, 0xe16f, 0x1080, 0x00a1, 0x30c2, 0x20e3, 0x5004, 0x4025, 0x7046, 0x6067,
     0x83b9, 0x9398, 0xa3fb, 0xb3da, 0xc33d, 0xd31c, 0xe37f, 0xf35e, 0x02b1, 0x1290, 0x22f3, 0x32d2, 0x4235, 0x5214, 0x6277, 0x7256,
     0xb5ea, 0xa5cb, 0x95a8, 0x8589, 0xf56e, 0xe54f, 0xd52c, 0xc50d, 0x34e2, 0x24c3, 0x14a0, 0x0481, 0x7466, 0x6447, 0x5424, 0x4405,
     0xa7db, 0xb7fa, 0x8799, 0x97b8, 0xe75f, 0xf77e, 0xc71d, 0xd73c, 0x26d3, 0x36f2, 0x0691, 0x16b0, 0x6657, 0x7676, 0x4615, 0x5634,
     0xd94c, 0xc96d, 0xf90e, 0xe92f, 0x99c8, 0x89e9, 0xb98a, 0xa9ab, 0x5844, 0x4865, 0x7806, 0x6827, 0x18c0, 0x08e1, 0x3882, 0x28a3,
     0xcb7d, 0xdb5c, 0xeb3f, 0xfb1e, 0x8bf9, 0x9bd8, 0xabbb, 0xbb9a, 0x4a75, 0x5a54, 0x6a37, 0x7a16, 0x0af1, 0x1ad0, 0x2ab3, 0x3a92,
     0xfd2e, 0xed0f, 0xdd6c, 0xcd4d, 0xbdaa, 0xad8b, 0x9de8, 0x8dc9, 0x7c26, 0x6c07, 0x5c64, 0x4c45, 0x3ca2, 0x2c83, 0x1ce0, 0x0cc1,
     0xef1f, 0xff3e, 0xcf5d, 0xdf7c, 0xaf9b, 0xbfba, 0x8fd9, 0x9ff8, 0x6e17, 0x7e36, 0x4e55, 0x5e74, 0x2e93, 0x3eb2, 0x0ed1, 0x1ef0]"

definition crc_fdc :: "u16 \<Rightarrow> u8 \<Rightarrow> u16" where
  "crc_fdc crc b = push_bit 8 crc XOR crc_fdc_table ! unat (drop_bit 8 crc XOR ucast b)"

text \<open>The checksum of the standard, bit by bit: the polynomial x^16 + x^12 + x^5 + 1.\<close>

definition crc_shift :: "u16 \<Rightarrow> u16" where
  "crc_shift crc = (if bit crc 15 then push_bit 1 crc XOR 0x1021 else push_bit 1 crc)"

definition crc_ccitt :: "u16 \<Rightarrow> u8 \<Rightarrow> u16" where
  "crc_ccitt crc b = (crc_shift ^^ 8) (crc XOR push_bit 8 (ucast b))"

section \<open>The table is the standard's\<close>

lemma crc_shift_xor: "crc_shift (x XOR y) = crc_shift x XOR crc_shift y"
  by (simp add: crc_shift_def bit_xor_iff push_bit_xor ac_simps)

lemma crc_shifts_xor: "(crc_shift ^^ n) (x XOR y) = (crc_shift ^^ n) x XOR (crc_shift ^^ n) y"
  by (induction n) (simp_all add: crc_shift_xor)

lemma crc_shifts_low: "k \<le> 8 \<Longrightarrow> (crc_shift ^^ k) (ucast (b :: u8)) = push_bit k (ucast b)"
proof (induction k)
  case (Suc k)
  have "\<not> bit (push_bit k (ucast b :: u16)) 15" using Suc.prems by (auto simp: bit_simps dest: bit_imp_le_length)
  then show ?case using Suc by (simp add: crc_shift_def)
qed simp

lemma crc_shift_8: "(crc_shift ^^ 8) x = crc_shift (crc_shift (crc_shift (crc_shift (crc_shift (crc_shift (crc_shift (crc_shift x)))))))"
  by (simp add: eval_nat_numeral)

lemma crc_shift_numeral:
  "crc_shift (numeral w) = (if bit (numeral w :: u16) 15 then push_bit 1 (numeral w) XOR 0x1021 else push_bit 1 (numeral w))"
  "crc_shift 0 = 0" "crc_shift 1 = 2"
  by (simp_all add: crc_shift_def)

lemma crc_table_is_shifts: "map (\<lambda>n. (crc_shift ^^ 8) (push_bit 8 (of_nat n))) [0..<256] = crc_fdc_table"
proof -
  have "[0..<256] = 0 # 1 # [2..<256]" by (simp add: upt_rec [of 0] upt_rec [of "Suc 0"] numeral_2_eq_2)
  then show ?thesis unfolding crc_fdc_table_def crc_shift_8 by (simp add: upt_rec_numeral crc_shift_numeral)
qed

lemma crc_fdc_is_ccitt: "crc_fdc crc b = crc_ccitt crc b"
proof -
  define h where "h = (hi crc XOR b)"
  have e: "crc XOR push_bit 8 (ucast b) = ucast (lo crc) XOR push_bit 8 (ucast h)"
    unfolding h_def by (rule bit_word_eqI) (auto simp: bit_simps hi_def lo_def)
  have "unat h < 256" by (rule unat_u8_bound)
  then have "crc_fdc_table ! unat h = (crc_shift ^^ 8) (push_bit 8 (of_nat (unat h)))"
    by (subst crc_table_is_shifts [symmetric]) simp
  moreover have "drop_bit 8 crc XOR ucast b = (ucast h :: u16)"
    unfolding h_def by (rule bit_word_eqI) (auto simp: bit_simps hi_def dest: bit_imp_le_length)
  moreover have "(of_nat (unat h) :: u16) = ucast h" by simp
  moreover have "push_bit 8 crc = push_bit 8 (ucast (lo crc) :: u16)"
    by (rule bit_word_eqI) (auto simp: bit_simps lo_def)
  ultimately show ?thesis
    unfolding crc_fdc_def crc_ccitt_def e crc_shifts_xor by (simp add: crc_shifts_low)
qed

lemma crc_fdc_residue: "foldl crc_fdc c [hi c, lo c] = 0"
proof -
  have z: "drop_bit 8 c XOR ucast (hi c) = 0" "drop_bit 8 (push_bit 8 c) XOR ucast (lo c) = 0"
    by (rule bit_word_eqI; auto simp: bit_simps hi_def lo_def dest: bit_imp_le_length)+
  have t: "crc_fdc_table ! 0 = 0" by (simp add: crc_fdc_table_def)
  have "push_bit 8 (push_bit 8 c) = 0" by (rule bit_word_eqI) (auto simp: bit_simps)
  then show ?thesis by (simp add: crc_fdc_def z t)
qed

text \<open>C31. The table-driven step of the code is the bitwise CRC-CCITT of the byte, and the two checksum bytes, high one first,
  bring the register of a correct sector to zero.\<close>

theorem crc_fdc_standard: "crc_fdc crc b = crc_ccitt crc b \<and> foldl crc_fdc crc [hi crc, lo crc] = 0"
  by (simp only: crc_fdc_is_ccitt crc_fdc_residue)

end
