(* ===== verification/Disk_Track.thy ===== *)
theory Disk_Track
  imports Disk_Crc
begin

text \<open>
  The tracks of a floppy disk, the first half of \<open>peripherals/disk/disk.c\<close>. A disk is one block of bytes; the
  record of a track is its length, its type, its bytes and three bitmaps (clock marks, FM marks, weak marks), at
  the offsets kept in the disk. The theory has the functions that write a formatted track (gaps, marks, headers,
  data), those that find the sectors on it again and write them to a file, and the guess of its geometry.
\<close>

section \<open>The disk\<close>

datatype disk_error = DISK_OK | DISK_IMPL | DISK_MEM | DISK_GEOM | DISK_OPEN | DISK_UNSUP | DISK_RDONLY | DISK_CLOSE
  | DISK_WRFILE | DISK_WRPART | DISK_LAST_ERROR

datatype disk_type_t = DISK_TYPE_NONE | DISK_UDI | DISK_FDI | DISK_TD0 | DISK_MGT | DISK_IMG | DISK_SAD | DISK_CPC
  | DISK_ECPC | DISK_TRD | DISK_SCL | DISK_OPD | DISK_D40 | DISK_D80 | DISK_LOG | DISK_TYPE_LAST

datatype disk_dens = DISK_DENS_AUTO | DISK_8_SD | DISK_8_DD | DISK_SD | DISK_DD | DISK_DD_PLUS | DISK_HD

record disk =
  sides :: nat
  cylinders :: nat
  bpt :: nat
  wrprot :: bool
  dirty :: bool
  have_weak :: bool
  status :: disk_error
  disk_data :: "nat \<Rightarrow> u8"
  tlen :: nat
  c_bpt :: nat
  track :: nat
  clocks :: nat
  fm :: nat
  weak :: nat
  at :: nat
  disk_type :: disk_type_t
  density :: disk_dens

definition disk_bpt :: "disk_dens \<Rightarrow> nat" where
  "disk_bpt dn = (case dn of DISK_DENS_AUTO \<Rightarrow> 6250 | DISK_8_SD \<Rightarrow> 5208 | DISK_8_DD \<Rightarrow> 10416 | DISK_SD \<Rightarrow> 3125
     | DISK_DD \<Rightarrow> 6250 | DISK_DD_PLUS \<Rightarrow> 6500 | DISK_HD \<Rightarrow> 12500)"

definition DISK_CLEN :: "nat \<Rightarrow> nat" where
  "DISK_CLEN n = n div 8 + (if n mod 8 \<noteq> 0 then 1 else 0)"

definition DISK_SET_TRACK_IDX :: "nat \<Rightarrow> disk \<Rightarrow> disk" where
  "DISK_SET_TRACK_IDX idx d =
    (let t = 3 + idx * tlen d; n = unat (disk_data d (t - 3)) + 256 * unat (disk_data d (t - 2)); c = t + n; f = c + DISK_CLEN n
     in d\<lparr>track := t, c_bpt := n, clocks := c, fm := f, weak := f + DISK_CLEN n\<rparr>)"

definition DISK_SET_TRACK :: "nat \<Rightarrow> nat \<Rightarrow> disk \<Rightarrow> disk" where
  "DISK_SET_TRACK h cyl d = DISK_SET_TRACK_IDX (sides d * cyl + h) d"

text \<open>Bytes and bitmaps of \<open>bitmap.h\<close> in the block of a disk.\<close>

definition put :: "nat \<Rightarrow> u8 \<Rightarrow> disk \<Rightarrow> disk" where
  "put k b d = d\<lparr>disk_data := (disk_data d)(k := b)\<rparr>"

definition memset :: "nat \<Rightarrow> u8 \<Rightarrow> nat \<Rightarrow> disk \<Rightarrow> disk" where
  "memset k b n d = d\<lparr>disk_data := (\<lambda>x. if k \<le> x \<and> x < k + n then b else disk_data d x)\<rparr>"

definition memcpy :: "nat \<Rightarrow> u8 list \<Rightarrow> disk \<Rightarrow> disk" where
  "memcpy k bs d = d\<lparr>disk_data := (\<lambda>x. if k \<le> x \<and> x < k + length bs then bs ! (x - k) else disk_data d x)\<rparr>"

definition bitmap_set :: "nat \<Rightarrow> nat \<Rightarrow> disk \<Rightarrow> disk" where
  "bitmap_set b n d = put (b + n div 8) (set_bit (n mod 8) (disk_data d (b + n div 8))) d"

definition bitmap_reset :: "nat \<Rightarrow> nat \<Rightarrow> disk \<Rightarrow> disk" where
  "bitmap_reset b n d = put (b + n div 8) (unset_bit (n mod 8) (disk_data d (b + n div 8))) d"

definition bitmap_test :: "nat \<Rightarrow> nat \<Rightarrow> disk \<Rightarrow> bool" where
  "bitmap_test b n d = bit (disk_data d (b + n div 8)) (n mod 8)"

definition track_byte :: "disk \<Rightarrow> nat \<Rightarrow> u8" where
  "track_byte d k = disk_data d (track d + k)"

definition clock_mark :: "disk \<Rightarrow> nat \<Rightarrow> bool" where
  "clock_mark d k = bitmap_test (clocks d) k d"

section \<open>Writing a formatted track\<close>

record disk_gap =
  gap :: u8
  sync :: u8
  sync_len :: nat
  mark :: int
  len :: "nat list"

definition gaps :: "disk_gap list" where
  "gaps = map (\<lambda>(g, s, n, m, l). \<lparr>gap = g, sync = s, sync_len = n, mark = m, len = l\<rparr>)
    [(0x4e, 0x00, 12, 0xa1, [0, 60, 22, 24]),
     (0x4e, 0x00, 12, 0xa1, [0, 10, 22, 60]),
     (0xff, 0x00,  6, -1,   [40, 26, 11, 27]),
     (0x4e, 0x00, 12, 0xa1, [80, 50, 22, 54]),
     (0xff, 0x00,  6, -1,   [0, 16, 11, 10]),
     (0x4e, 0x00, 12, 0xa1, [0, 32, 22, 24]),
     (0xff, 0x00,  6, -1,   [8, 8, 11, 10]),
     (0x4e, 0x00, 12, 0xa1, [16, 16, 22, 24]),
     (0xff, 0x00,  6, -1,   [0, 0, 0, 0]),
     (0x4e, 0x00, 12, 0xa1, [0, 0, 0, 0])]"

definition GAP_MGT_PLUSD :: nat where "GAP_MGT_PLUSD = 0"
definition GAP_TRDOS :: nat where "GAP_TRDOS = 1"
definition GAP_MINIMAL_FM :: nat where "GAP_MINIMAL_FM = 4"
definition GAP_MINIMAL_MFM :: nat where "GAP_MINIMAL_MFM = 5"

text \<open>
  A function that fails gives \<open>True\<close> with the disk as it left it, as the code does. The three mark bytes with
  their clock bits come before every mark of an MFM track; on an FM track the mark itself has a clock bit.
\<close>

definition gap_add :: "nat \<Rightarrow> nat \<Rightarrow> disk \<Rightarrow> bool \<times> disk" where
  "gap_add k gaptype d =
    (let g = gaps ! gaptype in
     if at d + len g ! k \<ge> c_bpt d then (True, d)
     else (False, (memset (track d + at d) (gap g) (len g ! k) d)\<lparr>at := at d + len g ! k\<rparr>))"

definition add_byte :: "u8 \<Rightarrow> disk \<Rightarrow> disk" where
  "add_byte b d = (put (track d + at d) b d)\<lparr>at := at d + 1\<rparr>"

definition add_clock :: "disk \<Rightarrow> disk" where
  "add_clock d = (bitmap_set (clocks d) (at d) d)\<lparr>at := at d + 1\<rparr>"

definition sync_add :: "disk_gap \<Rightarrow> disk \<Rightarrow> disk" where
  "sync_add g d =
    (let d = (memset (track d + at d) (sync g) (sync_len g) d)\<lparr>at := at d + sync_len g\<rparr> in
     if mark g \<ge> 0 then add_clock (add_clock (add_clock (memset (track d + at d) (of_int (mark g)) 3 d))) else d)"

definition mark_add :: "disk_gap \<Rightarrow> u8 \<Rightarrow> disk \<Rightarrow> disk" where
  "mark_add g b d = add_byte b (if mark g < 0 then bitmap_set (clocks d) (at d) d else d)"

definition mark_crc :: "disk_gap \<Rightarrow> u16" where
  "mark_crc g = (if mark g \<ge> 0 then foldl crc_fdc 0xffff (replicate 3 (of_int (mark g))) else 0xffff)"

definition mark_len :: "disk_gap \<Rightarrow> nat" where
  "mark_len g = (if mark g \<ge> 0 then 3 else 0)"

definition preindex_len :: "nat \<Rightarrow> nat" where
  "preindex_len gaptype = (let g = gaps ! gaptype in len g ! 0 + sync_len g + mark_len g + 1)"

definition preindex_add :: "nat \<Rightarrow> disk \<Rightarrow> bool \<times> disk" where
  "preindex_add gaptype d =
    (let g = gaps ! gaptype in
     if at d + preindex_len gaptype \<ge> c_bpt d then (True, d)
     else case gap_add 0 gaptype d of
            (True, d) \<Rightarrow> (True, d)
          | (False, d) \<Rightarrow> (False, mark_add g 0xfc (sync_add g d)))"

definition postindex_len :: "nat \<Rightarrow> nat" where
  "postindex_len gaptype = len (gaps ! gaptype) ! 1"

definition postindex_add :: "nat \<Rightarrow> disk \<Rightarrow> bool \<times> disk" where
  "postindex_add gaptype d = gap_add 1 gaptype d"

definition gap4_add :: "nat \<Rightarrow> disk \<Rightarrow> bool \<times> disk" where
  "gap4_add gaptype d =
    (if at d > c_bpt d then (True, d)
     else (False, (memset (track d + at d) (gap (gaps ! gaptype)) (c_bpt d - at d) d)\<lparr>at := c_bpt d\<rparr>))"

definition id_add :: "nat \<Rightarrow> nat \<Rightarrow> nat \<Rightarrow> nat \<Rightarrow> nat \<Rightarrow> bool \<Rightarrow> disk \<Rightarrow> bool \<times> disk" where
  "id_add h t s l gaptype crc_error d =
    (let g = gaps ! gaptype in
     if at d + sync_len g + mark_len g + 7 \<ge> c_bpt d then (True, d)
     else let d = mark_add g 0xfe (sync_add g d);
              hdr = [of_nat t, of_nat h, of_nat s, of_nat l];
              crc = foldl crc_fdc (mark_crc g) (0xfe # hdr);
              d = foldl (\<lambda>d b. add_byte b d) d (hdr @ [hi crc, if crc_error then lo (NOT crc) else lo crc])
          in gap_add 2 gaptype d)"

definition datamark_add :: "bool \<Rightarrow> nat \<Rightarrow> disk \<Rightarrow> bool \<times> disk" where
  "datamark_add ddam gaptype d =
    (let g = gaps ! gaptype in
     if at d + len g ! 2 + sync_len g + mark_len g + 1 \<ge> c_bpt d then (True, d)
     else (False, mark_add g (if ddam then 0xf8 else 0xfb) (sync_add g d)))"

text \<open>The file in memory. The formats below keep \<open>index\<close> within the length of the file.\<close>

record buffer =
  content :: "u8 list"
  index :: nat

definition buffavail :: "buffer \<Rightarrow> nat" where
  "buffavail b = length (content b) - index b"

definition buffread :: "nat \<Rightarrow> buffer \<Rightarrow> u8 list option \<times> buffer" where
  "buffread n b =
    (if n > buffavail b then (None, b) else (Some (take n (drop (index b) (content b))), b\<lparr>index := index b + n\<rparr>))"

text \<open>
  Data comes from the file when there is one, and from \<open>data\<close> otherwise. A file that ends early is filled up with
  \<open>autofill\<close>, or is an error when that is negative. A negative length leaves only the data mark.
\<close>

definition sector_source :: "buffer option \<Rightarrow> u8 list \<Rightarrow> nat \<Rightarrow> u8 list \<times> buffer option" where
  "sector_source buf dat n =
    (case buf of
       None \<Rightarrow> (take n dat, None)
     | Some b \<Rightarrow> (case buffread (min (buffavail b) n) b of (bs, b) \<Rightarrow> (case bs of None \<Rightarrow> [] | Some bs \<Rightarrow> bs, Some b)))"

definition data_add :: "buffer option \<Rightarrow> u8 list \<Rightarrow> int \<Rightarrow> bool \<Rightarrow> nat \<Rightarrow> bool \<Rightarrow> int \<Rightarrow> disk \<Rightarrow> bool \<times> buffer option \<times> disk" where
  "data_add buf dat n ddam gaptype crc_error autofill d =
    (let g = gaps ! gaptype in
     case datamark_add ddam gaptype d of
       (True, d) \<Rightarrow> (True, buf, d)
     | (False, d) \<Rightarrow>
         if n < 0 then (case gap_add 3 gaptype d of (e, d) \<Rightarrow> (e, buf, d))
         else if int (at d) + n + 2 \<ge> int (c_bpt d) then (True, buf, d)
         else let (bs, buf) = sector_source buf dat (nat n);
                  d = memcpy (track d + at d) bs d in
              if length bs < nat n \<and> autofill < 0 then (True, buf, d)
              else let d = memset (track d + at d + length bs) (of_int autofill) (nat n - length bs) d;
                       bs = bs @ replicate (nat n - length bs) (of_int autofill);
                       crc = foldl crc_fdc (crc_fdc (mark_crc g) (if ddam then 0xf8 else 0xfb)) bs;
                       crc = (if crc_error then crc XOR 1 else crc);
                       d = add_byte (lo crc) (add_byte (hi crc) (d\<lparr>at := at d + nat n\<rparr>))
                   in (case gap_add 3 gaptype d of (e, d) \<Rightarrow> (e, buf, d)))"

definition calc_sectorlen :: "nat \<Rightarrow> nat \<Rightarrow> nat" where
  "calc_sectorlen sector_length gaptype =
    (let g = gaps ! gaptype in
     (sync_len g + mark_len g + 7) + len g ! 2 + (sync_len g + mark_len g + 1) + sector_length + 2 + len g ! 3)"

fun calc_lenid :: "nat \<Rightarrow> nat" where
  "calc_lenid sector_length = (if sector_length > 0x80 then Suc (calc_lenid (sector_length div 2)) else 0)"

declare calc_lenid.simps [simp del]

text \<open>Where the next sector goes: the slot and the number of slots skipped so far.\<close>

definition next_slot :: "nat \<Rightarrow> nat \<Rightarrow> nat \<times> nat \<Rightarrow> nat \<times> nat" where
  "next_slot sectors interleave = (\<lambda>(pos, i).
    let pos = pos + interleave in
    if pos \<ge> sectors then (let pos = pos - sectors in if pos \<le> i then (pos + 1, i + 1) else (pos, i)) else (pos, i))"

primrec sectors_add :: "nat \<Rightarrow> nat \<Rightarrow> nat \<Rightarrow> nat \<Rightarrow> nat \<Rightarrow> nat \<Rightarrow> int \<Rightarrow> nat \<Rightarrow> nat list \<Rightarrow> nat \<times> nat \<Rightarrow> buffer \<Rightarrow> disk \<Rightarrow> bool \<times> buffer \<times> disk" where
  "sectors_add sd trk sectors sector_length gaptype interleave autofill idx [] pi b d = (False, b, d)"
| "sectors_add sd trk sectors sector_length gaptype interleave autofill idx (s # ss) pi b d =
    (let d = d\<lparr>at := idx + fst pi * calc_sectorlen sector_length gaptype\<rparr> in
     case id_add sd trk s (calc_lenid sector_length) gaptype False d of
       (True, d) \<Rightarrow> (True, b, d)
     | (False, d) \<Rightarrow>
         (case data_add (Some b) [] (int sector_length) False gaptype False autofill d of
            (True, b', d) \<Rightarrow> (True, the b', d)
          | (False, b', d) \<Rightarrow>
              sectors_add sd trk sectors sector_length gaptype interleave autofill idx ss
                (next_slot sectors interleave pi) (the b') d))"

definition trackgen :: "nat \<Rightarrow> nat \<Rightarrow> nat \<Rightarrow> nat \<Rightarrow> nat \<Rightarrow> bool \<Rightarrow> nat \<Rightarrow> nat \<Rightarrow> int \<Rightarrow> buffer \<Rightarrow> disk \<Rightarrow> bool \<times> buffer \<times> disk" where
  "trackgen sd trk sector_base sectors sector_length preindex gaptype interleave autofill b d =
    (let d = DISK_SET_TRACK sd trk (d\<lparr>at := 0\<rparr>) in
     case (if preindex then preindex_add gaptype d else (False, d)) of
       (True, d) \<Rightarrow> (True, b, d)
     | (False, d) \<Rightarrow>
         (case postindex_add gaptype d of
            (True, d) \<Rightarrow> (True, b, d)
          | (False, d) \<Rightarrow>
              let idx = at d in
              (case sectors_add sd trk sectors sector_length gaptype interleave autofill idx
                      [sector_base..<sector_base + sectors] (0, 0) b d of
                 (True, b, d) \<Rightarrow> (True, b, d)
               | (False, b, d) \<Rightarrow>
                   (case gap4_add gaptype (d\<lparr>at := idx + sectors * calc_sectorlen sector_length gaptype\<rparr>) of
                      (e, d) \<Rightarrow> (e, b, d)))))"

section \<open>Finding the sectors of a track\<close>

record sector_id =
  id_head :: int
  id_track :: int
  id_sector :: int
  id_length :: int

function id_scan :: "bool \<Rightarrow> disk \<Rightarrow> sector_id option \<times> disk" where
  "id_scan a1mark d =
    (if at d < c_bpt d
     then if track_byte d (at d) = 0xa1 \<and> clock_mark d (at d) then id_scan True (d\<lparr>at := at d + 1\<rparr>)
          else if track_byte d (at d) = 0xfe \<and> (clock_mark d (at d) \<or> a1mark)
          then (Some \<lparr>id_head = uint (track_byte d (at d + 2)), id_track = uint (track_byte d (at d + 1)),
                      id_sector = uint (track_byte d (at d + 3)), id_length = uint (track_byte d (at d + 4))\<rparr>,
                d\<lparr>at := at d + 7\<rparr>)
          else id_scan False (d\<lparr>at := at d + 1\<rparr>)
     else (None, d))"
  by pat_completeness auto
termination by (relation "measure (\<lambda>(a, d). c_bpt d - at d)") auto

declare id_scan.simps [simp del]

definition id_read :: "disk \<Rightarrow> sector_id option \<times> disk" where
  "id_read d = id_scan False d"

function datamark_scan :: "bool \<Rightarrow> disk \<Rightarrow> bool option \<times> disk" where
  "datamark_scan a1mark d =
    (if at d < c_bpt d
     then if track_byte d (at d) = 0xa1 \<and> clock_mark d (at d) then datamark_scan True (d\<lparr>at := at d + 1\<rparr>)
          else if 0xf8 \<le> track_byte d (at d) \<and> track_byte d (at d) \<le> 0xfe \<and> (clock_mark d (at d) \<or> a1mark)
          then (Some (track_byte d (at d) = 0xf8), d\<lparr>at := at d + 1\<rparr>)
          else datamark_scan False (d\<lparr>at := at d + 1\<rparr>)
     else (None, d))"
  by pat_completeness auto
termination by (relation "measure (\<lambda>(a, d). c_bpt d - at d)") auto

declare datamark_scan.simps [simp del]

definition datamark_read :: "disk \<Rightarrow> bool option \<times> disk" where
  "datamark_read d = datamark_scan False d"

text \<open>The sector of a number: every header from the start of the track is read until one has it.\<close>

lemma id_scan_moves:
  "\<exists>k\<ge>at d. snd (id_scan a d) = d\<lparr>at := k\<rparr> \<and> (fst (id_scan a d) \<noteq> None \<longrightarrow> at d < c_bpt d \<and> at d < k)"
proof (induction a d rule: id_scan.induct)
  case (1 a d)
  show ?case
  proof (cases "at d < c_bpt d \<and> \<not> (track_byte d (at d) = 0xfe \<and> (clock_mark d (at d) \<or> a))")
    case True
    then have e: "id_scan a d = id_scan (track_byte d (at d) = 0xa1 \<and> clock_mark d (at d)) (d\<lparr>at := at d + 1\<rparr>)"
      by (subst id_scan.simps) auto
    have "\<exists>k\<ge>at d + 1. snd (id_scan a d) = d\<lparr>at := k\<rparr>"
    proof (cases "track_byte d (at d) = 0xa1 \<and> clock_mark d (at d)")
      case m: True
      show ?thesis using "1.IH"(1) [OF conjunct1 [OF True] m] unfolding e Eq_TrueI [OF m] by auto
    next
      case m: False
      show ?thesis using "1.IH"(2) [OF conjunct1 [OF True] m conjunct2 [OF True]] unfolding e Eq_FalseI [OF m] by auto
    qed
    with True show ?thesis by (auto intro: Suc_leD)
  next
    case False
    then have "id_scan a d = (None, d) \<and> \<not> at d < c_bpt d \<or> (\<exists>x. id_scan a d = (Some x, d\<lparr>at := at d + 7\<rparr>)) \<and> at d < c_bpt d"
      by (subst (1 2) id_scan.simps) auto
    then show ?thesis by (elim disjE conjE exE) (auto intro: exI [of _ "at d"] exI [of _ "at d + 7"])
  qed
qed

lemma datamark_scan_moves: "\<exists>k\<ge>at d. snd (datamark_scan a d) = d\<lparr>at := k\<rparr>"
proof (induction a d rule: datamark_scan.induct)
  case (1 a d)
  show ?case
  proof (cases "at d < c_bpt d \<and> \<not> (0xf8 \<le> track_byte d (at d) \<and> track_byte d (at d) \<le> 0xfe \<and> (clock_mark d (at d) \<or> a))")
    case True
    then have e: "datamark_scan a d = datamark_scan (track_byte d (at d) = 0xa1 \<and> clock_mark d (at d)) (d\<lparr>at := at d + 1\<rparr>)"
      by (subst datamark_scan.simps) auto
    have "\<exists>k\<ge>at d + 1. snd (datamark_scan a d) = d\<lparr>at := k\<rparr>"
    proof (cases "track_byte d (at d) = 0xa1 \<and> clock_mark d (at d)")
      case m: True
      show ?thesis using "1.IH"(1) [OF conjunct1 [OF True] m] unfolding e Eq_TrueI [OF m] by auto
    next
      case m: False
      show ?thesis using "1.IH"(2) [OF conjunct1 [OF True] m conjunct2 [OF True]] unfolding e Eq_FalseI [OF m] by auto
    qed
    then show ?thesis by (auto intro: Suc_leD)
  next
    case False
    then have "datamark_scan a d = (None, d) \<or> (\<exists>x. datamark_scan a d = (Some x, d\<lparr>at := at d + 1\<rparr>))"
      by (subst (1 2) datamark_scan.simps) auto
    then show ?thesis by (elim disjE exE) (auto intro: exI [of _ "at d"] exI [of _ "Suc (at d)"])
  qed
qed

lemma id_read_moves: "id_read d = (Some x, d') \<Longrightarrow> \<exists>k. d' = d\<lparr>at := k\<rparr> \<and> at d < k \<and> at d < c_bpt d"
  using id_scan_moves [of d False] by (auto simp: id_read_def)

lemma id_read_stops: "id_read d = (None, d') \<Longrightarrow> \<exists>k\<ge>at d. d' = d\<lparr>at := k\<rparr>"
  using id_scan_moves [of d False] by (auto simp: id_read_def)

lemma datamark_read_moves: "datamark_read d = (r, d') \<Longrightarrow> \<exists>k\<ge>at d. d' = d\<lparr>at := k\<rparr>"
  using datamark_scan_moves [of d False] by (auto simp: datamark_read_def)

function id_seek_from :: "int \<Rightarrow> disk \<Rightarrow> bool \<times> disk" where
  "id_seek_from s d =
    (case id_read d of
       (None, d') \<Rightarrow> (False, d')
     | (Some x, d') \<Rightarrow> if id_sector x = s then (True, d') else id_seek_from s d')"
  by pat_completeness auto
termination
  by (relation "measure (\<lambda>(s, d). c_bpt d - at d)") (auto dest!: id_read_moves [OF sym])

declare id_seek_from.simps [simp del]

definition id_seek :: "int \<Rightarrow> disk \<Rightarrow> bool \<times> disk" where
  "id_seek s d = id_seek_from s (d\<lparr>at := 0\<rparr>)"

text \<open>The file written: its bytes, and how many more the medium takes.\<close>

record out_file =
  written :: "u8 list"
  room :: nat

definition fwrite :: "u8 list \<Rightarrow> out_file \<Rightarrow> bool \<times> out_file" where
  "fwrite bs f =
    (if length bs \<le> room f then (True, f\<lparr>written := written f @ bs, room := room f - length bs\<rparr>)
     else (False, f\<lparr>written := written f @ take (room f) bs, room := 0\<rparr>))"

definition track_bytes :: "disk \<Rightarrow> nat \<Rightarrow> nat \<Rightarrow> u8 list" where
  "track_bytes d k n = map (\<lambda>i. track_byte d (k + i)) [0..<n]"

definition data_write_file :: "nat \<Rightarrow> disk \<Rightarrow> out_file \<Rightarrow> bool \<times> out_file" where
  "data_write_file seclen d f = (case fwrite (track_bytes d (at d) (0x80 * 2 ^ seclen)) f of (ok, f) \<Rightarrow> (\<not> ok, f))"

primrec save_sectors :: "nat \<Rightarrow> nat list \<Rightarrow> disk \<Rightarrow> out_file \<Rightarrow> bool \<times> disk \<times> out_file" where
  "save_sectors seclen [] d f = (False, d, f)"
| "save_sectors seclen (s # ss) d f =
    (case id_seek (int s) d of
       (False, d) \<Rightarrow> (True, d, f)
     | (True, d) \<Rightarrow>
         (case datamark_read d of
            (None, d) \<Rightarrow> save_sectors seclen ss d f
          | (Some del, d) \<Rightarrow>
              (case data_write_file seclen d f of (True, f) \<Rightarrow> (True, d, f) | (False, f) \<Rightarrow> save_sectors seclen ss d f)))"

definition savetrack :: "nat \<Rightarrow> nat \<Rightarrow> nat \<Rightarrow> nat \<Rightarrow> nat \<Rightarrow> disk \<Rightarrow> out_file \<Rightarrow> bool \<times> disk \<times> out_file" where
  "savetrack sd trk sector_base sectors seclen d f =
    save_sectors seclen [sector_base..<sector_base + sectors] ((DISK_SET_TRACK sd trk d)\<lparr>at := 0\<rparr>) f"

function saveraw_loop :: "disk \<Rightarrow> out_file \<Rightarrow> bool \<times> disk \<times> out_file" where
  "saveraw_loop d f =
    (case id_read d of
       (None, d) \<Rightarrow> (False, d, f)
     | (Some x, d) \<Rightarrow>
         (case datamark_read d of
            (None, d) \<Rightarrow> saveraw_loop d f
          | (Some del, d) \<Rightarrow>
              (case data_write_file (nat (id_length x)) d f of (True, f) \<Rightarrow> (True, d, f) | (False, f) \<Rightarrow> saveraw_loop d f)))"
  by pat_completeness auto
termination
proof (relation "measure (\<lambda>(d, f). c_bpt d - at d)"; (auto; fail)?)
qed (fastforce dest!: id_read_moves [OF sym] datamark_read_moves [OF sym])+

declare saveraw_loop.simps [simp del]

definition saverawtrack :: "nat \<Rightarrow> nat \<Rightarrow> disk \<Rightarrow> out_file \<Rightarrow> bool \<times> disk \<times> out_file" where
  "saverawtrack sd trk d f = saveraw_loop ((DISK_SET_TRACK sd trk d)\<lparr>at := 0\<rparr>) f"

section \<open>The geometry of a disk\<close>

definition DISK_ID_NOTMATCH :: nat where "DISK_ID_NOTMATCH = 1"
definition DISK_SECLEN_VARI :: nat where "DISK_SECLEN_VARI = 2"
definition DISK_SPT_VARI :: nat where "DISK_SPT_VARI = 4"
definition DISK_SBASE_VARI :: nat where "DISK_SBASE_VARI = 8"
definition DISK_MFM_VARI :: nat where "DISK_MFM_VARI = 16"
definition DISK_DDAM :: nat where "DISK_DDAM = 32"
definition DISK_CORRUPT_SECTOR :: nat where "DISK_CORRUPT_SECTOR = 64"
definition DISK_UNFORMATTED_TRACK :: nat where "DISK_UNFORMATTED_TRACK = 128"
definition DISK_FM_DATA :: nat where "DISK_FM_DATA = 256"
definition DISK_WEAK_DATA :: nat where "DISK_WEAK_DATA = 512"

text \<open>What is known so far: the first sector, the number of sectors, their length, MFM or not, and the oddities.\<close>

record geom =
  geom_base :: int
  geom_sectors :: int
  geom_seclen :: int
  geom_mfm :: int
  oddities :: nat

function track_geom_loop :: "nat \<Rightarrow> bool \<Rightarrow> geom \<Rightarrow> disk \<Rightarrow> geom \<times> disk" where
  "track_geom_loop trk del g d =
    (case id_read d of
       (None, d) \<Rightarrow> (g, d)
     | (Some x, d) \<Rightarrow>
         let g = (if geom_base g = -1 then g\<lparr>geom_base := id_sector x\<rparr> else g);
             g = (if geom_seclen g = -1 then g\<lparr>geom_seclen := id_length x\<rparr> else g);
             g = (if geom_mfm g = -1 then g\<lparr>geom_mfm := if track_byte d (at d) = 0x4e then 1 else 0\<rparr> else g) in
         (case datamark_read d of (r, d) \<Rightarrow>
            let g = (if r = None then g\<lparr>oddities := oddities g OR DISK_CORRUPT_SECTOR\<rparr> else g);
                del = (case r of None \<Rightarrow> del | Some deleted \<Rightarrow> deleted);
                g = (if id_track x \<noteq> int trk then g\<lparr>oddities := oddities g OR DISK_ID_NOTMATCH\<rparr> else g);
                g = (if id_sector x < geom_base g then g\<lparr>geom_base := id_sector x\<rparr> else g);
                g = (if id_length x \<noteq> geom_seclen g
                     then g\<lparr>oddities := oddities g OR DISK_SECLEN_VARI, geom_seclen := max (id_length x) (geom_seclen g)\<rparr> else g);
                g = (if del then g\<lparr>oddities := oddities g OR DISK_DDAM\<rparr> else g)
            in track_geom_loop trk del (g\<lparr>geom_sectors := geom_sectors g + 1\<rparr>) d))"
  by pat_completeness auto
termination
proof (relation "measure (\<lambda>(t, e, g, d). c_bpt d - at d)"; (auto; fail)?)
qed (fastforce dest!: id_read_moves [OF sym] datamark_read_moves [OF sym])+

declare track_geom_loop.simps [simp del]

definition guess_track_geom :: "nat \<Rightarrow> nat \<Rightarrow> disk \<Rightarrow> geom \<times> disk" where
  "guess_track_geom sd trk d =
    track_geom_loop trk False \<lparr>geom_base = -1, geom_sectors = 0, geom_seclen = -1, geom_mfm = -1, oddities = 0\<rparr>
      ((DISK_SET_TRACK sd trk d)\<lparr>at := 0\<rparr>)"

text \<open>
  The type byte of each track record, from its FM and weak bitmaps. \<open>~d->fm[j]\<close> is the complement of an \<open>int\<close>.
\<close>

definition track_mode :: "disk \<Rightarrow> disk" where
  "track_mode d =
    (let js = rev [0..<DISK_CLEN (c_bpt d)];
         mf = foldl (\<lambda>m j. m OR NOT (uint (disk_data d (fm d + j)))) (0::int) js;
         f = foldl (\<lambda>m j. m OR uint (disk_data d (fm d + j))) (0::int) js;
         w = foldl (\<lambda>m j. m OR uint (disk_data d (weak d + j))) (0::int) js;
         d = (if mf \<noteq> 0 \<and> f = 0 then put (track d - 1) 0x00 d else d);
         d = (if mf = 0 \<and> f \<noteq> 0 then put (track d - 1) 0x01 d else d);
         d = (if mf \<noteq> 0 \<and> f \<noteq> 0 then put (track d - 1) 0x02 d else d)
     in if w \<noteq> 0 then (put (track d - 1) (disk_data d (track d - 1) OR 0x80) d)\<lparr>have_weak := True\<rparr> else d)"

definition update_tracks_mode :: "disk \<Rightarrow> disk" where
  "update_tracks_mode d = foldl (\<lambda>d i. track_mode (DISK_SET_TRACK_IDX i d)) d [0..<cylinders d * sides d]"

text \<open>All tracks together. \<open>unf\<close> is the first unformatted cylinder, -1 if there is none, -2 if one is in the middle.\<close>

record disk_geom = geom + unf :: int

definition geom_init :: disk_geom where
  "geom_init = \<lparr>geom_base = -1, geom_sectors = -1, geom_seclen = -1, geom_mfm = -1, oddities = 0, unf = -1\<rparr>"

definition check_track_geom :: "nat \<Rightarrow> nat \<Rightarrow> disk_geom \<times> disk \<Rightarrow> disk_geom \<times> disk" where
  "check_track_geom t h = (\<lambda>(g, d).
    let ty = disk_data d (track d - 1);
        r = oddities g OR (if ty AND 0x80 \<noteq> 0 then DISK_WEAK_DATA else 0) OR (if ty AND 0x03 = 0x02 then DISK_MFM_VARI else 0)
              OR (if ty AND 0x03 = 0x01 then DISK_FM_DATA else 0) in
    case guess_track_geom h t d of (x, d) \<Rightarrow>
      let g = g\<lparr>oddities := r OR oddities x\<rparr>;
          g = (if geom_base g = -1 then g\<lparr>geom_base := geom_base x\<rparr> else g);
          g = (if geom_sectors g = -1 then g\<lparr>geom_sectors := geom_sectors x\<rparr> else g);
          g = (if geom_seclen g = -1 then g\<lparr>geom_seclen := geom_seclen x\<rparr> else g);
          g = (if geom_mfm g = -1 then g\<lparr>geom_mfm := geom_mfm x\<rparr> else g) in
      if geom_base x = -1
      then (let g = (if unf g = -1 \<and> h > 0 then g\<lparr>unf := -2\<rparr> else g) in
            (if unf g = -1 then g\<lparr>unf := int t\<rparr> else g, d))
      else
        let g = (if unf g > -1 then g\<lparr>unf := -2\<rparr> else g);
            g = (if geom_base x \<noteq> geom_base g
                 then g\<lparr>oddities := oddities g OR DISK_SBASE_VARI, geom_base := min (geom_base x) (geom_base g)\<rparr> else g);
            g = (if geom_sectors x \<noteq> geom_sectors g
                 then g\<lparr>oddities := oddities g OR DISK_SPT_VARI, geom_sectors := max (geom_sectors x) (geom_sectors g)\<rparr> else g);
            g = (if geom_seclen x \<noteq> geom_seclen g
                 then g\<lparr>oddities := oddities g OR DISK_SECLEN_VARI, geom_seclen := max (geom_seclen x) (geom_seclen g)\<rparr> else g);
            g = (if geom_mfm x \<noteq> geom_mfm g then g\<lparr>oddities := oddities g OR DISK_MFM_VARI, geom_mfm := 1\<rparr> else g)
        in (g, d))"

definition disk_tracks :: "disk \<Rightarrow> (nat \<times> nat) list" where
  "disk_tracks d = [(t, h). t \<leftarrow> [0..<cylinders d], h \<leftarrow> [0..<sides d]]"

definition check_disk_geom :: "disk \<Rightarrow> disk_geom \<times> disk" where
  "check_disk_geom d =
    (case foldl (\<lambda>s (t, h). check_track_geom t h s) (geom_init, (DISK_SET_TRACK_IDX 0 d)\<lparr>at := 0\<rparr>) (disk_tracks d) of
       (g, d) \<Rightarrow> (if unf g = -2 then g\<lparr>oddities := oddities g OR DISK_UNFORMATTED_TRACK, unf := -1\<rparr> else g, d))"

section \<open>A new disk\<close>

definition disk_update_tlens :: "disk \<Rightarrow> disk" where
  "disk_update_tlens d =
    foldl (\<lambda>d i. let d = DISK_SET_TRACK_IDX i d in
        if unat (disk_data d (track d - 3)) + 256 * unat (disk_data d (track d - 2)) = 0
        then put (track d - 2) (of_nat (bpt d div 256)) (put (track d - 3) (of_nat (bpt d)) d) else d)
      d [0..<sides d * cylinders d]"

text \<open>Allocated memory is zero.\<close>

definition disk_alloc :: "disk \<Rightarrow> disk" where
  "disk_alloc d =
    (if density d = DISK_DENS_AUTO \<and> bpt d > 12500 then d\<lparr>status := DISK_UNSUP\<rparr>
     else
       let dn = (if density d \<noteq> DISK_DENS_AUTO then density d
                 else if bpt d > 10416 then DISK_HD else if bpt d > 6500 then DISK_8_DD else if bpt d > 6250 then DISK_DD_PLUS
                 else if bpt d > 5208 then DISK_DD else if bpt d > 3125 then DISK_8_SD else if bpt d > 0 then DISK_SD
                 else DISK_DENS_AUTO);
           d = (if dn = DISK_DENS_AUTO then d else d\<lparr>density := dn, bpt := disk_bpt dn\<rparr>);
           d = (if bpt d > 0 then d\<lparr>tlen := 4 + bpt d + 3 * DISK_CLEN (bpt d)\<rparr> else d)
       in if sides d * cylinders d * tlen d = 0 then d\<lparr>status := DISK_GEOM\<rparr>
          else (disk_update_tlens (d\<lparr>disk_data := (\<lambda>x. 0)\<rparr>))\<lparr>status := DISK_OK\<rparr>)"

definition disk_new :: "nat \<Rightarrow> nat \<Rightarrow> disk_dens \<Rightarrow> disk_type_t \<Rightarrow> disk \<Rightarrow> disk" where
  "disk_new sds cyls dens ty d =
    (if ty = DISK_TYPE_NONE \<or> ty = DISK_TYPE_LAST \<or> sds < 1 \<or> sds > 2 \<or> cyls < 35 \<or> cyls > 83 then d\<lparr>status := DISK_GEOM\<rparr>
     else
       let d = disk_alloc (d\<lparr>disk_type := ty, density := if dens = DISK_DENS_AUTO then DISK_DD else dens, sides := sds, cylinders := cyls\<rparr>)
       in if status d \<noteq> DISK_OK then d else d\<lparr>wrprot := False, dirty := True, status := DISK_OK\<rparr>)"

definition NO_INTERLEAVE :: nat where "NO_INTERLEAVE = 1"
definition INTERLEAVE_2 :: nat where "INTERLEAVE_2 = 2"
definition INTERLEAVE_OPUS :: nat where "INTERLEAVE_OPUS = 13"

text \<open>Four tracks, each made from an empty file until one fails; the result tells whether they were all made.\<close>

primrec preformat_tracks :: "(nat \<times> nat \<times> nat) list \<Rightarrow> disk \<Rightarrow> disk_error \<times> disk" where
  "preformat_tracks [] d = (DISK_OK, d)"
| "preformat_tracks (x # xs) d =
    (case x of (h, t, s) \<Rightarrow>
       (case trackgen h t s 1 128 False GAP_MINIMAL_MFM NO_INTERLEAVE 0xff \<lparr>content = [], index = 0\<rparr> d of
          (True, b, d) \<Rightarrow> (DISK_GEOM, d) | (False, b, d) \<Rightarrow> preformat_tracks xs d))"

definition disk_preformat :: "disk \<Rightarrow> disk_error \<times> disk" where
  "disk_preformat d =
    preformat_tracks ((if sides d = 2 then [(1, 0, 0xff), (1, 2, 0xfe)] else []) @ [(0, 0, 0xff), (0, 2, 0xfe)]) d"

end
