(* ===== verification/Disk_Layout.thy ===== *)
theory Disk_Layout
  imports Disk_Track
begin

text \<open>
  What a formatted track looks like: the cells (a byte and its clock bit) that each writer of \<open>Disk_Track\<close> leaves,
  and the proof that the readers find the headers, the data and the geometry again.
\<close>

section \<open>What the writers leave on the track\<close>

text \<open>The parts of the record of the current track follow each other.\<close>

definition on_track :: "disk \<Rightarrow> bool" where
  "on_track d \<longleftrightarrow> 3 \<le> track d \<and> clocks d = track d + c_bpt d \<and> fm d = clocks d + DISK_CLEN (c_bpt d) \<and> weak d = fm d + DISK_CLEN (c_bpt d)"

text \<open>
  \<open>wrote xs d d'\<close>: the cells from the position of \<open>d\<close> on are now \<open>xs\<close>, each a byte and whether its clock bit was set;
  the position has moved past them and everything else is as it was.
\<close>

definition wrote :: "(u8 \<times> bool) list \<Rightarrow> disk \<Rightarrow> disk \<Rightarrow> bool" where
  "wrote xs d d' \<longleftrightarrow>
     d' = d\<lparr>disk_data := disk_data d', at := at d + length xs\<rparr> \<and> at d + length xs \<le> c_bpt d \<and>
     (\<forall>k<c_bpt d. track_byte d' k = (if at d \<le> k \<and> k < at d + length xs then fst (xs ! (k - at d)) else track_byte d k)) \<and>
     (\<forall>k<c_bpt d. clock_mark d' k \<longleftrightarrow> clock_mark d k \<or> at d \<le> k \<and> k < at d + length xs \<and> snd (xs ! (k - at d))) \<and>
     (\<forall>x. x < track d \<or> fm d \<le> x \<longrightarrow> disk_data d' x = disk_data d x)"

lemma wrote_fields:
  assumes "wrote xs d d'"
  shows "at d' = at d + length xs" "track d' = track d" "clocks d' = clocks d" "fm d' = fm d" "weak d' = weak d" "c_bpt d' = c_bpt d"
    "sides d' = sides d" "cylinders d' = cylinders d" "tlen d' = tlen d" "bpt d' = bpt d" "density d' = density d" "disk_type d' = disk_type d"
    "status d' = status d" "on_track d' = on_track d"
proof -
  obtain m where "d' = d\<lparr>disk_data := m, at := at d + length xs\<rparr>" using assms by (auto simp: wrote_def)
  then show "at d' = at d + length xs" "track d' = track d" "clocks d' = clocks d" "fm d' = fm d" "weak d' = weak d" "c_bpt d' = c_bpt d"
    "sides d' = sides d" "cylinders d' = cylinders d" "tlen d' = tlen d" "bpt d' = bpt d" "density d' = density d" "disk_type d' = disk_type d"
    "status d' = status d" "on_track d' = on_track d"
    by (simp_all add: on_track_def)
qed

lemma wrote_nothing: "at d \<le> c_bpt d \<Longrightarrow> wrote [] d d"
  by (auto simp: wrote_def)

lemma wrote_trans:
  assumes "wrote xs d d'" "wrote ys d' d''"
  shows "wrote (xs @ ys) d d''"
proof -
  note f = wrote_fields [OF assms(1)]
  have "d'' = d\<lparr>disk_data := disk_data d'', at := at d + length (xs @ ys)\<rparr>"
  proof -
    obtain m where 1: "d' = d\<lparr>disk_data := m, at := at d + length xs\<rparr>" using assms(1) unfolding wrote_def by blast
    obtain m where 2: "d'' = d'\<lparr>disk_data := m, at := at d' + length ys\<rparr>" using assms(2) unfolding wrote_def by blast
    show ?thesis unfolding 2 1 by simp
  qed
  moreover have "at d + length (xs @ ys) \<le> c_bpt d" using assms(2) f by (simp add: wrote_def)
  moreover have "track_byte d'' k = (if at d \<le> k \<and> k < at d + length (xs @ ys) then fst ((xs @ ys) ! (k - at d)) else track_byte d k)"
    if "k < c_bpt d" for k using that assms f by (auto simp: wrote_def nth_append)
  moreover have "clock_mark d'' k \<longleftrightarrow> clock_mark d k \<or> at d \<le> k \<and> k < at d + length (xs @ ys) \<and> snd ((xs @ ys) ! (k - at d))"
    if "k < c_bpt d" for k using that assms f by (auto simp: wrote_def nth_append)
  moreover have "disk_data d'' x = disk_data d x" if "x < track d \<or> fm d \<le> x" for x using that assms f by (auto simp: wrote_def)
  ultimately show ?thesis by (simp add: wrote_def)
qed

lemma div8_lt: "k < n \<Longrightarrow> k div 8 < DISK_CLEN n"
proof -
  assume "k < n"
  then have "k div 8 \<le> (n - 1) div 8" by (intro div_le_mono) simp
  moreover have "(n - 1) div 8 < DISK_CLEN n" using \<open>k < n\<close> unfolding DISK_CLEN_def by auto
  ultimately show ?thesis by simp
qed

lemma div8_eq: "n div 8 = k div 8 \<and> n mod 8 = k mod 8 \<longleftrightarrow> n = (k::nat)"
  by (metis div_mod_decomp)

lemma wrote_memset:
  assumes "on_track d" "at d + n \<le> c_bpt d" "d' = (memset (track d + at d) b n d)\<lparr>at := at d + n\<rparr>"
  shows "wrote (replicate n (b, False)) d d'"
  using assms by (auto simp: wrote_def on_track_def memset_def track_byte_def clock_mark_def bitmap_test_def)

lemma wrote_memcpy:
  assumes "on_track d" "at d + length bs \<le> c_bpt d" "d' = (memcpy (track d + at d) bs d)\<lparr>at := at d + length bs\<rparr>"
  shows "wrote (map (\<lambda>b. (b, False)) bs) d d'"
  using assms by (auto simp: wrote_def on_track_def memcpy_def track_byte_def clock_mark_def bitmap_test_def)

lemma wrote_add_byte:
  assumes "on_track d" "at d < c_bpt d"
  shows "wrote [(b, False)] d (add_byte b d)"
  using assms by (auto simp: wrote_def on_track_def add_byte_def put_def track_byte_def clock_mark_def bitmap_test_def)

lemma bitmap_set_view:
  assumes "on_track d" "n < c_bpt d" and e: "e = bitmap_set (clocks d) n d"
  shows "k < c_bpt d \<Longrightarrow> track_byte e k = track_byte d k" "k < c_bpt d \<Longrightarrow> clock_mark e k \<longleftrightarrow> clock_mark d k \<or> k = n"
    "x < track d \<or> fm d \<le> x \<Longrightarrow> disk_data e x = disk_data d x" "e = d\<lparr>disk_data := disk_data e\<rparr>"
proof -
  have c: "n div 8 < DISK_CLEN (c_bpt d)" by (rule div8_lt) fact
  show "k < c_bpt d \<Longrightarrow> track_byte e k = track_byte d k" "x < track d \<or> fm d \<le> x \<Longrightarrow> disk_data e x = disk_data d x" "e = d\<lparr>disk_data := disk_data e\<rparr>"
    using assms(1) c by (auto simp: e bitmap_set_def put_def track_byte_def on_track_def)
  have "k = n \<longleftrightarrow> k div 8 = n div 8 \<and> k mod 8 = n mod 8" using div8_eq by blast
  then show "clock_mark e k \<longleftrightarrow> clock_mark d k \<or> k = n"
    by (auto simp: e bitmap_set_def put_def clock_mark_def bitmap_test_def bit_set_bit_iff)
qed

lemma wrote_clock:
  assumes "on_track d" "at d < c_bpt d"
  shows "wrote [(track_byte d (at d), True)] d (add_clock d)"
proof -
  note v = bitmap_set_view [OF assms refl]
  define e where "e = bitmap_set (clocks d) (at d) d"
  note v = v [folded e_def]
  have a: "add_clock d = e\<lparr>at := at d + 1\<rparr>" by (simp add: add_clock_def e_def)
  have e: "e = d\<lparr>disk_data := disk_data e\<rparr>" by (rule v(4))
  have "track_byte (add_clock d) k = track_byte e k" "clock_mark (add_clock d) k = clock_mark e k" "disk_data (add_clock d) = disk_data e" for k
    by (simp_all add: a track_byte_def clock_mark_def bitmap_test_def)
  moreover have "add_clock d = d\<lparr>disk_data := disk_data e, at := at d + 1\<rparr>" unfolding a by (subst e) simp
  ultimately show ?thesis using assms v(1-3) by (auto simp: wrote_def less_Suc_eq)
qed

lemma wrote_over_memset:
  assumes "on_track d" "wrote xs (memset (track d + at d) b (length xs) d) d'"
  shows "wrote xs d d'"
  using assms by (auto simp: wrote_def memset_def on_track_def track_byte_def clock_mark_def bitmap_test_def)

definition plain :: "u8 list \<Rightarrow> (u8 \<times> bool) list" where
  "plain bs = map (\<lambda>b. (b, False)) bs"

definition sync_cells :: "disk_gap \<Rightarrow> (u8 \<times> bool) list" where
  "sync_cells g = replicate (sync_len g) (sync g, False) @ replicate (mark_len g) (of_int (mark g), True)"

definition gap_cells :: "disk_gap \<Rightarrow> nat \<Rightarrow> (u8 \<times> bool) list" where
  "gap_cells g k = replicate (len g ! k) (gap g, False)"

definition id_bytes :: "disk_gap \<Rightarrow> nat \<Rightarrow> nat \<Rightarrow> nat \<Rightarrow> nat \<Rightarrow> bool \<Rightarrow> u8 list" where
  "id_bytes g h t s l crc_error =
    (let hdr = [of_nat t, of_nat h, of_nat s, of_nat l]; crc = foldl crc_fdc (mark_crc g) (0xfe # hdr)
     in hdr @ [hi crc, if crc_error then lo (NOT crc) else lo crc])"

definition id_cells :: "disk_gap \<Rightarrow> nat \<Rightarrow> nat \<Rightarrow> nat \<Rightarrow> nat \<Rightarrow> bool \<Rightarrow> (u8 \<times> bool) list" where
  "id_cells g h t s l crc_error = sync_cells g @ (0xfe, mark g < 0) # plain (id_bytes g h t s l crc_error)"

definition data_crc :: "disk_gap \<Rightarrow> bool \<Rightarrow> u8 list \<Rightarrow> bool \<Rightarrow> u16" where
  "data_crc g ddam bs crc_error =
    (let crc = foldl crc_fdc (crc_fdc (mark_crc g) (if ddam then 0xf8 else 0xfb)) bs in if crc_error then crc XOR 1 else crc)"

definition dam_cells :: "disk_gap \<Rightarrow> bool \<Rightarrow> (u8 \<times> bool) list" where
  "dam_cells g ddam = sync_cells g @ [(if ddam then 0xf8 else 0xfb, mark g < 0)]"

definition data_cells :: "disk_gap \<Rightarrow> bool \<Rightarrow> u8 list \<Rightarrow> bool \<Rightarrow> (u8 \<times> bool) list" where
  "data_cells g ddam bs crc_error =
    (let crc = data_crc g ddam bs crc_error in dam_cells g ddam @ plain (bs @ [hi crc, lo crc]))"

lemma length_cells [simp]:
  "length (sync_cells g) = sync_len g + mark_len g" "length (gap_cells g k) = len g ! k" "length (plain bs) = length bs"
  "length (id_bytes g h t s l e) = 6" "length (id_cells g h t s l e) = sync_len g + mark_len g + 7"
  "length (dam_cells g ddam) = sync_len g + mark_len g + 1"
  "length (data_cells g ddam bs e) = sync_len g + mark_len g + 1 + length bs + 2"
  by (simp_all add: sync_cells_def gap_cells_def plain_def id_bytes_def id_cells_def dam_cells_def data_cells_def Let_def)

lemma gap_add_wrote:
  assumes "on_track d" "gap_add k gaptype d = (False, d')"
  shows "wrote (gap_cells (gaps ! gaptype) k) d d'"
  using assms wrote_memset [OF assms(1), of "len (gaps ! gaptype) ! k" d' "gap (gaps ! gaptype)"]
  by (auto simp: gap_add_def Let_def gap_cells_def split: if_splits)

lemma wrote_bytes:
  "on_track d \<Longrightarrow> at d + length bs \<le> c_bpt d \<Longrightarrow> wrote (plain bs) d (foldl (\<lambda>d b. add_byte b d) d bs)"
proof (induction bs arbitrary: d)
  case (Cons b bs)
  have 1: "wrote [(b, False)] d (add_byte b d)" using Cons.prems by (intro wrote_add_byte) simp_all
  have "wrote (plain bs) (add_byte b d) (foldl (\<lambda>d b. add_byte b d) (add_byte b d) bs)"
    using Cons.prems wrote_fields [OF 1] by (intro Cons.IH) simp_all
  from wrote_trans [OF 1 this] show ?case by (simp add: plain_def)
qed (auto simp: plain_def wrote_nothing)

lemma wrote_sync:
  assumes "on_track d" "at d + sync_len g + mark_len g \<le> c_bpt d"
  shows "wrote (sync_cells g) d (sync_add g d)"
proof -
  define d1 where "d1 = (memset (track d + at d) (sync g) (sync_len g) d)\<lparr>at := at d + sync_len g\<rparr>"
  have 1: "wrote (replicate (sync_len g) (sync g, False)) d d1" using assms d1_def by (intro wrote_memset) simp_all
  note f = wrote_fields [OF 1, simplified]
  show ?thesis
  proof (cases "mark g \<ge> 0")
    case True
    define b :: u8 where "b = of_int (mark g)"
    define d2 where "d2 = memset (track d1 + at d1) b 3 d1"
    have o: "on_track d1" "at d1 + 3 \<le> c_bpt d1" "on_track d2" "at d2 = at d1" "c_bpt d2 = c_bpt d1"
      using assms f True by (auto simp: mark_len_def d2_def memset_def on_track_def)
    have m: "track_byte d2 (at d2) = b" "track_byte d2 (at d2 + 1) = b" "track_byte d2 (at d2 + 2) = b"
      by (simp_all add: d2_def memset_def track_byte_def)
    have 2: "wrote [(b, True)] d2 (add_clock d2)" using wrote_clock [of d2] o m by simp
    note f2 = wrote_fields [OF 2]
    have 3: "wrote [(b, True)] (add_clock d2) (add_clock (add_clock d2))"
      using wrote_clock [of "add_clock d2"] 2 o m f2 by (simp add: wrote_def)
    note f3 = wrote_fields [OF 3]
    have 4: "wrote [(b, True)] (add_clock (add_clock d2)) (add_clock (add_clock (add_clock d2)))"
      using wrote_clock [of "add_clock (add_clock d2)"] 2 3 o m f2 f3 by (simp add: wrote_def)
    have "wrote (replicate 3 (b, True)) d2 (add_clock (add_clock (add_clock d2)))"
      using wrote_trans [OF 2 wrote_trans [OF 3 4]] by (simp add: numeral_3_eq_3)
    then have "wrote (replicate 3 (b, True)) d1 (add_clock (add_clock (add_clock d2)))"
      by (intro wrote_over_memset [of d1 _ b]) (simp_all add: o d2_def)
    from wrote_trans [OF 1 this] show ?thesis
      using True by (simp add: sync_cells_def sync_add_def mark_len_def Let_def d1_def [symmetric] d2_def b_def)
  next
    case False
    with 1 show ?thesis by (simp add: sync_cells_def sync_add_def mark_len_def Let_def d1_def)
  qed
qed

lemma wrote_mark:
  assumes "on_track d" "at d < c_bpt d"
  shows "wrote [(b, mark g < 0)] d (mark_add g b d)"
proof (cases "mark g < 0")
  case True
  note v = bitmap_set_view [OF assms refl]
  define e where "e = bitmap_set (clocks d) (at d) d"
  note v = v [folded e_def]
  obtain m where e: "e = d\<lparr>disk_data := m\<rparr>" using v(4) by blast
  have "on_track e" "at e < c_bpt e" using assms by (simp_all add: e on_track_def)
  from wrote_add_byte [OF this, of b] have w: "wrote [(b, False)] e (add_byte b e)" .
  have f: "at e = at d" "c_bpt e = c_bpt d" "track e = track d" "fm e = fm d" by (simp_all add: e)
  have "add_byte b e = d\<lparr>disk_data := disk_data (add_byte b e), at := at d + 1\<rparr>" by (simp add: e add_byte_def put_def)
  then have "wrote [(b, True)] d (add_byte b e)"
    using w v(1-3) assms unfolding wrote_def f by (auto simp: less_Suc_eq)
  then show ?thesis using True by (simp add: mark_add_def e_def)
next
  case False
  with wrote_add_byte [OF assms, of b] show ?thesis by (simp add: mark_add_def)
qed
lemma wrote_sync_mark:
  assumes "on_track d" "at d + sync_len g + mark_len g < c_bpt d"
  shows "wrote (sync_cells g @ [(b, mark g < 0)]) d (mark_add g b (sync_add g d))"
proof -
  have 1: "wrote (sync_cells g) d (sync_add g d)" using assms by (intro wrote_sync) simp_all
  note f = wrote_fields [OF 1]
  have "wrote [(b, mark g < 0)] (sync_add g d) (mark_add g b (sync_add g d))" using assms f by (intro wrote_mark) simp_all
  from wrote_trans [OF 1 this] show ?thesis .
qed

lemma id_add_wrote:
  assumes o: "on_track d" and a: "id_add h t s l gaptype e d = (False, d')"
  defines "g \<equiv> gaps ! gaptype"
  shows "wrote (id_cells g h t s l e @ gap_cells g 2) d d'"
proof -
  define d1 where "d1 = mark_add g 0xfe (sync_add g d)"
  define d2 where "d2 = foldl (\<lambda>d b. add_byte b d) d1 (id_bytes g h t s l e)"
  have r: "at d + sync_len g + mark_len g + 7 < c_bpt d" and ga: "gap_add 2 gaptype d2 = (False, d')"
    using a by (auto simp: id_add_def Let_def g_def d1_def d2_def id_bytes_def split: if_splits)
  have 1: "wrote (sync_cells g @ [(0xfe, mark g < 0)]) d d1" unfolding d1_def using o r by (intro wrote_sync_mark) simp_all
  note f1 = wrote_fields [OF 1]
  have 2: "wrote (plain (id_bytes g h t s l e)) d1 d2" unfolding d2_def using o r f1 by (intro wrote_bytes) simp_all
  note f2 = wrote_fields [OF 2]
  have 3: "wrote (gap_cells g 2) d2 d'" unfolding g_def using o f1 f2 ga by (intro gap_add_wrote) simp_all
  from wrote_trans [OF wrote_trans [OF 1 2] 3] show ?thesis by (simp add: id_cells_def)
qed

lemma datamark_add_wrote:
  assumes "on_track d" "datamark_add ddam gaptype d = (False, d')"
  shows "wrote (dam_cells (gaps ! gaptype) ddam) d d'"
  using assms wrote_sync_mark [OF assms(1), of "gaps ! gaptype"]
  by (auto simp: datamark_add_def dam_cells_def Let_def split: if_splits)

lemma memset_memcpy:
  "length bs \<le> n \<Longrightarrow> memset (k + length bs) b (n - length bs) (memcpy k bs d) = memcpy k (bs @ replicate (n - length bs) b) d"
  by (rule disk.equality) (auto simp: memset_def memcpy_def nth_append fun_eq_iff)

lemma data_add_wrote:
  assumes o: "on_track d" and a: "data_add buf dat (int n) ddam gaptype e autofill d = (False, buf', d')"
  defines "g \<equiv> gaps ! gaptype"
  obtains bs where "(bs, buf') = sector_source buf dat n" "length bs \<ge> n \<or> 0 \<le> autofill" 
    "wrote (data_cells g ddam (take n bs @ replicate (n - length bs) (of_int autofill)) e @ gap_cells g 3) d d'"
proof -
  obtain d1 where d1: "datamark_add ddam gaptype d = (False, d1)"
    using a by (auto simp: data_add_def Let_def split: prod.splits bool.splits)
  obtain bs b where bs: "sector_source buf dat n = (bs, b)" by fastforce
  have l: "length bs \<le> n"
    using bs by (auto simp: sector_source_def buffread_def split: option.splits prod.splits if_splits)
  define xs where "xs = bs @ replicate (n - length bs) (of_int autofill :: u8)"
  define crc where "crc = data_crc g ddam xs e"
  define d2 where "d2 = memset (track d1 + at d1 + length bs) (of_int autofill) (n - length bs) (memcpy (track d1 + at d1) bs d1)"
  define d3 where "d3 = add_byte (lo crc) (add_byte (hi crc) (d2\<lparr>at := at d1 + n\<rparr>))"
  have "at (memcpy (track d1 + at d1) bs d1) = at d1" "track (memcpy (track d1 + at d1) bs d1) = track d1" by (simp_all add: memcpy_def)
  moreover have "at d2 = at d1" by (simp add: d2_def memset_def memcpy_def)
  ultimately have r: "at d1 + n + 2 < c_bpt d1" "length bs = n \<or> 0 \<le> autofill" "b = buf'" "gap_add 3 gaptype d3 = (False, d')"
    using a l unfolding data_add_def Let_def d1 bs prod.case nat_int d3_def d2_def crc_def xs_def data_crc_def g_def
    by (auto split: if_splits prod.splits)
  have 1: "wrote (dam_cells g ddam) d d1" unfolding g_def using o d1 by (rule datamark_add_wrote)
  note f1 = wrote_fields [OF 1]
  have lx: "length xs = n" using l by (simp add: xs_def)
  have "d2\<lparr>at := at d1 + n\<rparr> = (memcpy (track d1 + at d1) xs d1)\<lparr>at := at d1 + n\<rparr>"
    using l by (simp add: d2_def xs_def memset_memcpy)
  then have 2: "wrote (plain xs) d1 (d2\<lparr>at := at d1 + n\<rparr>)"
    unfolding plain_def using o f1 r lx by (intro wrote_memcpy) simp_all
  note f2 = wrote_fields [OF 2]
  have 3: "wrote (plain [hi crc, lo crc]) (d2\<lparr>at := at d1 + n\<rparr>) d3"
    unfolding d3_def using wrote_bytes [of "d2\<lparr>at := at d1 + n\<rparr>" "[hi crc, lo crc]"] o f1 f2 r lx by simp
  note f3 = wrote_fields [OF 3]
  have 4: "wrote (gap_cells g 3) d3 d'" unfolding g_def using o f1 f2 f3 r by (intro gap_add_wrote) simp_all
  have "wrote (data_cells g ddam xs e @ gap_cells g 3) d d'"
    using wrote_trans [OF wrote_trans [OF wrote_trans [OF 1 2] 3] 4] by (simp add: data_cells_def crc_def [symmetric] plain_def Let_def)
  then show thesis using bs r l that [of bs] by (auto simp: xs_def)
qed
text \<open>Cells on the track, and stretches with no clock mark.\<close>

definition holds :: "disk \<Rightarrow> nat \<Rightarrow> (u8 \<times> bool) list \<Rightarrow> bool" where
  "holds d k xs \<longleftrightarrow> k + length xs \<le> c_bpt d \<and>
     (\<forall>j<length xs. track_byte d (k + j) = fst (xs ! j) \<and> (clock_mark d (k + j) \<longleftrightarrow> snd (xs ! j)))"

definition clear :: "disk \<Rightarrow> nat \<Rightarrow> nat \<Rightarrow> bool" where
  "clear d i j \<longleftrightarrow> (\<forall>k. i \<le> k \<and> k < j \<longrightarrow> \<not> clock_mark d k)"

lemma holds_append: "holds d k (xs @ ys) \<longleftrightarrow> holds d k xs \<and> holds d (k + length xs) ys"
proof
  assume h: "holds d k (xs @ ys)"
  have "track_byte d (k + j) = fst (xs ! j)" "clock_mark d (k + j) \<longleftrightarrow> snd (xs ! j)" if "j < length xs" for j
    using h that unfolding holds_def by (auto simp: nth_append dest!: spec [of _ j])
  moreover have "track_byte d (k + length xs + j) = fst (ys ! j)" "clock_mark d (k + length xs + j) \<longleftrightarrow> snd (ys ! j)" if "j < length ys" for j
    using h that unfolding holds_def by (auto simp: nth_append add.assoc dest!: spec [of _ "length xs + j"])
  ultimately show "holds d k xs \<and> holds d (k + length xs) ys" using h by (simp add: holds_def)
next
  assume h: "holds d k xs \<and> holds d (k + length xs) ys"
  have "track_byte d (k + j) = fst ((xs @ ys) ! j) \<and> (clock_mark d (k + j) \<longleftrightarrow> snd ((xs @ ys) ! j))" if "j < length (xs @ ys)" for j
  proof (cases "j < length xs")
    case False
    then obtain i where "j = length xs + i" by (metis le_add_diff_inverse not_le)
    with h that show ?thesis by (simp add: holds_def nth_append add.assoc)
  qed (use h in \<open>simp add: holds_def nth_append\<close>)
  with h show "holds d k (xs @ ys)" by (simp add: holds_def)
qed

lemma holds_Cons: "holds d k (x # xs) \<longleftrightarrow> holds d k [x] \<and> holds d (k + 1) xs"
  using holds_append [of d k "[x]" xs] by simp

lemma holds_one: "holds d k [(b, c)] \<longleftrightarrow> k < c_bpt d \<and> track_byte d k = b \<and> clock_mark d k = c"
  by (auto simp: holds_def)

lemma holds_at [simp]: "holds (d\<lparr>at := i\<rparr>) k xs = holds d k xs" "clear (d\<lparr>at := i\<rparr>) j m = clear d j m"
  by (simp_all add: holds_def clear_def track_byte_def clock_mark_def bitmap_test_def)

lemma view_at [simp]: "track_byte (d\<lparr>at := i\<rparr>) k = track_byte d k" "clock_mark (d\<lparr>at := i\<rparr>) k = clock_mark d k"
  "on_track (d\<lparr>at := i\<rparr>) = on_track d"
  by (simp_all add: track_byte_def clock_mark_def bitmap_test_def on_track_def)

lemma holds_clear: "holds d k xs \<Longrightarrow> (\<forall>x\<in>set xs. \<not> snd x) \<Longrightarrow> clear d k (k + length xs)"
proof (unfold clear_def holds_def, intro allI impI)
  fix i assume h: "k + length xs \<le> c_bpt d \<and> (\<forall>j<length xs. track_byte d (k + j) = fst (xs ! j) \<and> clock_mark d (k + j) = snd (xs ! j))"
    "\<forall>x\<in>set xs. \<not> snd x" "k \<le> i \<and> i < k + length xs"
  then obtain j where "i = k + j" "j < length xs" by (metis le_iff_add nat_add_left_cancel_less)
  with h show "\<not> clock_mark d i" by simp
qed

lemma wrote_holds:
  assumes "wrote xs d d'" "clear d (at d) (at d + length xs)"
  shows "holds d' (at d) xs"
  using assms wrote_fields(6) [OF assms(1)] by (auto simp: wrote_def holds_def clear_def)

lemma wrote_elsewhere:
  assumes "wrote xs d d'" "holds d k ys" "k + length ys \<le> at d \<or> at d + length xs \<le> k"
  shows "holds d' k ys"
  using assms wrote_fields(6) [OF assms(1)] by (auto simp: wrote_def holds_def)

lemma wrote_clear:
  assumes "wrote xs d d'" "clear d i j" "j \<le> c_bpt d" "j \<le> at d \<or> at d + length xs \<le> i"
  shows "clear d' i j"
  using assms by (auto simp: wrote_def clear_def)

section \<open>Reading them back\<close>

lemma id_scan_step:
  "id_scan a (d\<lparr>at := k\<rparr>) =
    (if k < c_bpt d
     then if track_byte d k = 0xa1 \<and> clock_mark d k then id_scan True (d\<lparr>at := k + 1\<rparr>)
          else if track_byte d k = 0xfe \<and> (clock_mark d k \<or> a)
          then (Some \<lparr>id_head = uint (track_byte d (k + 2)), id_track = uint (track_byte d (k + 1)),
                      id_sector = uint (track_byte d (k + 3)), id_length = uint (track_byte d (k + 4))\<rparr>, d\<lparr>at := k + 7\<rparr>)
          else id_scan False (d\<lparr>at := k + 1\<rparr>)
     else (None, d\<lparr>at := k\<rparr>))"
  by (subst id_scan.simps) auto

lemma datamark_scan_step:
  "datamark_scan a (d\<lparr>at := k\<rparr>) =
    (if k < c_bpt d
     then if track_byte d k = 0xa1 \<and> clock_mark d k then datamark_scan True (d\<lparr>at := k + 1\<rparr>)
          else if 0xf8 \<le> track_byte d k \<and> track_byte d k \<le> 0xfe \<and> (clock_mark d k \<or> a)
          then (Some (track_byte d k = 0xf8), d\<lparr>at := k + 1\<rparr>)
          else datamark_scan False (d\<lparr>at := k + 1\<rparr>)
     else (None, d\<lparr>at := k\<rparr>))"
  by (subst datamark_scan.simps) auto

lemma id_scan_clear: "clear d i (i + n) \<Longrightarrow> i + n \<le> c_bpt d \<Longrightarrow> id_scan False (d\<lparr>at := i\<rparr>) = id_scan False (d\<lparr>at := i + n\<rparr>)"
proof (induction n arbitrary: i)
  case (Suc n)
  have "\<not> clock_mark d i" using Suc.prems by (simp add: clear_def)
  then have "id_scan False (d\<lparr>at := i\<rparr>) = id_scan False (d\<lparr>at := i + 1\<rparr>)" using Suc.prems by (subst id_scan_step) simp
  also have "\<dots> = id_scan False (d\<lparr>at := i + 1 + n\<rparr>)" using Suc.prems by (intro Suc.IH) (auto simp: clear_def)
  finally show ?case by simp
qed simp

lemma datamark_scan_clear:
  "clear d i (i + n) \<Longrightarrow> i + n \<le> c_bpt d \<Longrightarrow> datamark_scan False (d\<lparr>at := i\<rparr>) = datamark_scan False (d\<lparr>at := i + n\<rparr>)"
proof (induction n arbitrary: i)
  case (Suc n)
  have "\<not> clock_mark d i" using Suc.prems by (simp add: clear_def)
  then have "datamark_scan False (d\<lparr>at := i\<rparr>) = datamark_scan False (d\<lparr>at := i + 1\<rparr>)" using Suc.prems by (subst datamark_scan_step) simp
  also have "\<dots> = datamark_scan False (d\<lparr>at := i + 1 + n\<rparr>)" using Suc.prems by (intro Suc.IH) (auto simp: clear_def)
  finally show ?case by simp
qed simp

text \<open>The marks are those of the code's formats.\<close>

definition gap_ok :: "disk_gap \<Rightarrow> bool" where
  "gap_ok g \<longleftrightarrow> mark g = 0xa1 \<or> mark g < 0"

lemma holds_marks:
  assumes "holds d p (sync_cells g)" "gap_ok g"
  shows "clear d p (p + sync_len g)"
    "mark g \<ge> 0 \<Longrightarrow> j < 3 \<Longrightarrow> track_byte d (p + sync_len g + j) = 0xa1 \<and> clock_mark d (p + sync_len g + j)"
proof -
  have h: "holds d p (replicate (sync_len g) (sync g, False))" "holds d (p + sync_len g) (replicate (mark_len g) (of_int (mark g), True))"
    using assms(1) by (simp_all add: sync_cells_def holds_append)
  show "clear d p (p + sync_len g)" using holds_clear [OF h(1)] by simp
  show "mark g \<ge> 0 \<Longrightarrow> j < 3 \<Longrightarrow> track_byte d (p + sync_len g + j) = 0xa1 \<and> clock_mark d (p + sync_len g + j)"
    using h(2) assms(2) by (simp add: mark_len_def holds_def gap_ok_def)
qed

lemma id_scan_mark:
  assumes h: "holds d p (sync_cells g @ [(b, mark g < 0)])" and g: "gap_ok g" and b: "b \<noteq> 0xa1"
  defines "k \<equiv> p + sync_len g + mark_len g"
  shows "id_scan False (d\<lparr>at := p\<rparr>) =
     (if b = 0xfe then (Some \<lparr>id_head = uint (track_byte d (k + 2)), id_track = uint (track_byte d (k + 1)),
                      id_sector = uint (track_byte d (k + 3)), id_length = uint (track_byte d (k + 4))\<rparr>, d\<lparr>at := k + 7\<rparr>)
      else id_scan False (d\<lparr>at := k + 1\<rparr>))"
proof -
  have hs: "holds d p (sync_cells g)" and hb: "k < c_bpt d" "track_byte d k = b" "clock_mark d k \<longleftrightarrow> mark g < 0"
    using h by (simp_all add: holds_append holds_one k_def add.assoc)
  note m = holds_marks [OF hs g]
  have "id_scan False (d\<lparr>at := p\<rparr>) = id_scan False (d\<lparr>at := p + sync_len g\<rparr>)"
    using m(1) hb(1) by (intro id_scan_clear) (simp_all add: k_def)
  also have "\<dots> = id_scan (mark g \<ge> 0) (d\<lparr>at := k\<rparr>)"
  proof (cases "mark g \<ge> 0")
    case True
    have "id_scan a (d\<lparr>at := p + sync_len g + j\<rparr>) = id_scan True (d\<lparr>at := p + sync_len g + j + 1\<rparr>)" if "j < 3" for a j
      using m(2) [OF True that] hb(1) that True by (subst id_scan_step) (simp add: k_def mark_len_def)
    from this [of 0] this [of 1] this [of 2] True show ?thesis by (simp add: k_def mark_len_def eval_nat_numeral)
  qed (simp add: k_def mark_len_def)
  also have "\<dots> = (if b = 0xfe then (Some \<lparr>id_head = uint (track_byte d (k + 2)), id_track = uint (track_byte d (k + 1)),
                      id_sector = uint (track_byte d (k + 3)), id_length = uint (track_byte d (k + 4))\<rparr>, d\<lparr>at := k + 7\<rparr>)
      else id_scan False (d\<lparr>at := k + 1\<rparr>))"
    using hb b by (subst id_scan_step) (auto simp: not_less)
  finally show ?thesis .
qed

lemma datamark_scan_mark:
  assumes h: "holds d p (sync_cells g @ [(b, mark g < 0)])" and g: "gap_ok g" and b: "0xf8 \<le> b" "b \<le> 0xfe"
  defines "k \<equiv> p + sync_len g + mark_len g"
  shows "datamark_scan False (d\<lparr>at := p\<rparr>) = (Some (b = 0xf8), d\<lparr>at := k + 1\<rparr>)"
proof -
  have hs: "holds d p (sync_cells g)" and hb: "k < c_bpt d" "track_byte d k = b" "clock_mark d k \<longleftrightarrow> mark g < 0"
    using h by (simp_all add: holds_append holds_one k_def add.assoc)
  note m = holds_marks [OF hs g]
  have "datamark_scan False (d\<lparr>at := p\<rparr>) = datamark_scan False (d\<lparr>at := p + sync_len g\<rparr>)"
    using m(1) hb(1) by (intro datamark_scan_clear) (simp_all add: k_def)
  also have "\<dots> = datamark_scan (mark g \<ge> 0) (d\<lparr>at := k\<rparr>)"
  proof (cases "mark g \<ge> 0")
    case True
    have "datamark_scan a (d\<lparr>at := p + sync_len g + j\<rparr>) = datamark_scan True (d\<lparr>at := p + sync_len g + j + 1\<rparr>)" if "j < 3" for a j
      using m(2) [OF True that] hb(1) that True by (subst datamark_scan_step) (simp add: k_def mark_len_def)
    from this [of 0] this [of 1] this [of 2] True show ?thesis by (simp add: k_def mark_len_def eval_nat_numeral)
  qed (simp add: k_def mark_len_def)
  also have "\<dots> = (Some (b = 0xf8), d\<lparr>at := k + 1\<rparr>)"
  proof -
    have "b \<noteq> 0xa1" using b(1) by auto
    then show ?thesis using hb b by (subst datamark_scan_step) auto
  qed
  finally show ?thesis .
qed

section \<open>One sector\<close>

definition sector_cells :: "nat \<Rightarrow> nat \<Rightarrow> nat \<Rightarrow> nat \<Rightarrow> nat \<Rightarrow> u8 list \<Rightarrow> (u8 \<times> bool) list" where
  "sector_cells gaptype h t s l bs =
    (let g = gaps ! gaptype in id_cells g h t s l False @ gap_cells g 2 @ data_cells g False bs False @ gap_cells g 3)"

lemma length_sector_cells [simp]: "length (sector_cells gaptype h t s l bs) = calc_sectorlen (length bs) gaptype"
  by (simp add: sector_cells_def calc_sectorlen_def Let_def)

text \<open>Where the header ends, and where the data starts.\<close>

definition header_len :: "nat \<Rightarrow> nat" where
  "header_len gaptype = (let g = gaps ! gaptype in sync_len g + mark_len g + 7)"

definition data_offset :: "nat \<Rightarrow> nat" where
  "data_offset gaptype = (let g = gaps ! gaptype in header_len gaptype + len g ! 2 + sync_len g + mark_len g + 1)"

lemma plain_clear: "holds d k (plain bs) \<Longrightarrow> clear d k (k + length bs)"
  using holds_clear [of d k "plain bs"] by (auto simp: plain_def)

lemma gap_clear: "holds d k (gap_cells g i) \<Longrightarrow> clear d k (k + len g ! i)"
  using holds_clear [of d k "gap_cells g i"] by (auto simp: gap_cells_def)

lemma holds_byte: "holds d k xs \<Longrightarrow> j < length xs \<Longrightarrow> track_byte d (k + j) = fst (xs ! j)"
  by (simp add: holds_def)

lemma sector_parts:
  assumes "holds d p (sector_cells gaptype h t s l bs)"
  defines "g \<equiv> gaps ! gaptype"
  shows "holds d p (sync_cells g @ [(0xfe, mark g < 0)])"
    "holds d (p + sync_len g + mark_len g + 1) (plain (id_bytes g h t s l False))"
    "holds d (p + header_len gaptype) (gap_cells g 2)"
    "holds d (p + header_len gaptype + len g ! 2) (sync_cells g @ [(0xfb, mark g < 0)])"
    "holds d (p + data_offset gaptype) (plain (bs @ [hi (data_crc g False bs False), lo (data_crc g False bs False)]))"
    "holds d (p + data_offset gaptype + length bs + 2) (gap_cells g 3)"
    "p + calc_sectorlen (length bs) gaptype \<le> c_bpt d"
    "calc_sectorlen (length bs) gaptype = data_offset gaptype + length bs + 2 + len g ! 3"
proof -
  define crc where "crc = data_crc g False bs False"
  have e: "sector_cells gaptype h t s l bs = (sync_cells g @ [(0xfe, mark g < 0)]) @ plain (id_bytes g h t s l False) @ gap_cells g 2
      @ (sync_cells g @ [(0xfb, mark g < 0)]) @ plain (bs @ [hi crc, lo crc]) @ gap_cells g 3"
    by (simp add: sector_cells_def id_cells_def data_cells_def dam_cells_def crc_def g_def Let_def)
  have o: "p + sync_len g + mark_len g + 1 = p + length (sync_cells g @ [(0xfe, mark g < 0)])"
    "p + header_len gaptype = p + length (sync_cells g @ [(0xfe, mark g < 0)]) + length (plain (id_bytes g h t s l False))"
    "p + data_offset gaptype = p + length (sync_cells g @ [(0xfe, mark g < 0)]) + length (plain (id_bytes g h t s l False))
        + length (gap_cells g 2) + length (sync_cells g @ [(0xfb, mark g < 0)])"
    by (simp_all add: header_len_def data_offset_def Let_def flip: g_def)
  note h = assms(1) [unfolded e holds_append [of _ _ "sync_cells g @ _"] holds_append [of _ _ "plain _"] holds_append [of _ _ "gap_cells _ _"]]
  show "holds d p (sync_cells g @ [(0xfe, mark g < 0)])"
    "holds d (p + sync_len g + mark_len g + 1) (plain (id_bytes g h t s l False))"
    "holds d (p + header_len gaptype) (gap_cells g 2)"
    "holds d (p + header_len gaptype + len g ! 2) (sync_cells g @ [(0xfb, mark g < 0)])"
    "holds d (p + data_offset gaptype) (plain (bs @ [hi (data_crc g False bs False), lo (data_crc g False bs False)]))"
    "holds d (p + data_offset gaptype + length bs + 2) (gap_cells g 3)"
    unfolding o crc_def [symmetric] using h by (simp_all add: ac_simps)
  show "p + calc_sectorlen (length bs) gaptype \<le> c_bpt d" using assms(1) by (simp add: holds_def)
  show "calc_sectorlen (length bs) gaptype = data_offset gaptype + length bs + 2 + len g ! 3"
    by (simp add: calc_sectorlen_def header_len_def data_offset_def Let_def flip: g_def)
qed

lemma read_sector:
  assumes h: "holds d p (sector_cells gaptype h t s l bs)" and g: "gap_ok (gaps ! gaptype)"
  shows "id_scan False (d\<lparr>at := p\<rparr>) =
      (Some \<lparr>id_head = int (h mod 256), id_track = int (t mod 256), id_sector = int (s mod 256), id_length = int (l mod 256)\<rparr>,
       d\<lparr>at := p + header_len gaptype\<rparr>)" (is ?id)
    and "id_scan False (d\<lparr>at := p + header_len gaptype\<rparr>) = id_scan False (d\<lparr>at := p + data_offset gaptype\<rparr>)" (is ?skip)
    and "datamark_scan False (d\<lparr>at := p + header_len gaptype\<rparr>) = (Some False, d\<lparr>at := p + data_offset gaptype\<rparr>)" (is ?dam)
    and "id_scan False (d\<lparr>at := p + data_offset gaptype\<rparr>) = id_scan False (d\<lparr>at := p + calc_sectorlen (length bs) gaptype\<rparr>)" (is ?rest)
    and "track_bytes d (p + data_offset gaptype) (length bs) = bs" (is ?bytes)
proof -
  define g where "g = gaps ! gaptype"
  note h = sector_parts [OF h, folded g_def]
  note g = g [folded g_def]
  define k where "k = p + sync_len g + mark_len g"
  have b: "track_byte d (k + 1) = of_nat t" "track_byte d (k + 2) = of_nat h" "track_byte d (k + 3) = of_nat s" "track_byte d (k + 4) = of_nat l"
    using holds_byte [OF h(2), of 0] holds_byte [OF h(2), of 1] holds_byte [OF h(2), of 2] holds_byte [OF h(2), of 3]
    by (simp_all add: k_def plain_def id_bytes_def Let_def eval_nat_numeral)
  have u: "uint (of_nat n :: u8) = int (n mod 256)" for n
  proof -
    have "uint (of_nat n :: u8) = int (unat (of_nat n :: u8))" by simp
    also have "unat (of_nat n :: u8) = n mod 256" by (simp only: unat_of_nat) simp
    finally show ?thesis .
  qed
  have e: "p + header_len gaptype = k + 7" by (simp add: k_def header_len_def g_def Let_def)
  show ?id using id_scan_mark [OF h(1) g] b by (simp add: e u flip: k_def)
  have c2: "clear d (k + 7) (k + 7 + len g ! 2)" using gap_clear [OF h(3)] by (simp add: e)
  have r: "k + 7 + len g ! 2 + sync_len g + mark_len g + 1 = p + data_offset gaptype"
    by (simp add: k_def data_offset_def header_len_def g_def Let_def)
  have le: "k + 7 + len g ! 2 \<le> c_bpt d" "p + data_offset gaptype + length bs + 2 + len g ! 3 \<le> c_bpt d"
    using h(7,8) r by simp_all
  have "id_scan False (d\<lparr>at := k + 7 + len g ! 2\<rparr>) = id_scan False (d\<lparr>at := k + 7 + len g ! 2 + sync_len g + mark_len g + 1\<rparr>)"
    using id_scan_mark [OF h(4) g] by (simp add: e)
  then show ?skip using id_scan_clear [OF c2 le(1)] by (simp add: e flip: r)
  show ?dam using datamark_scan_clear [OF c2 le(1)] datamark_scan_mark [OF h(4) g] by (simp add: e flip: r)
  have "clear d (p + data_offset gaptype) (p + data_offset gaptype + (length bs + 2 + len g ! 3))"
    using plain_clear [OF h(5)] gap_clear [OF h(6)] by (auto simp: clear_def) (metis add.assoc linorder_not_less add_2_eq_Suc')
  from id_scan_clear [OF this] le(2) show ?rest by (simp add: h(8) ac_simps)
  show ?bytes
    using holds_byte [OF h(5)] by (auto simp: track_bytes_def plain_def nth_append intro!: nth_equalityI)
qed
section \<open>A track of sectors\<close>

text \<open>The slots taken one after the other, and the bytes that the sectors take from the file.\<close>

primrec slots :: "nat \<Rightarrow> nat \<Rightarrow> nat \<Rightarrow> nat \<times> nat \<Rightarrow> nat list" where
  "slots n interleave 0 pi = []"
| "slots n interleave (Suc m) pi = fst pi # slots n interleave m (next_slot n interleave pi)"

lemma length_slots [simp]: "length (slots n interleave m pi) = m"
  by (induction m arbitrary: pi) simp_all

definition file_byte :: "buffer \<Rightarrow> int \<Rightarrow> nat \<Rightarrow> u8" where
  "file_byte b autofill j = (if index b + j < length (content b) then content b ! (index b + j) else of_int autofill)"

definition file_chunk :: "buffer \<Rightarrow> int \<Rightarrow> nat \<Rightarrow> nat \<Rightarrow> u8 list" where
  "file_chunk b autofill n k = map (\<lambda>i. file_byte b autofill (k * n + i)) [0..<n]"

definition file_rest :: "buffer \<Rightarrow> nat \<Rightarrow> buffer" where
  "file_rest b n = b\<lparr>index := min (length (content b)) (index b + n)\<rparr>"

lemma file_byte_rest: "index b \<le> length (content b) \<Longrightarrow> file_byte (file_rest b n) autofill j = file_byte b autofill (n + j)"
  by (auto simp: file_byte_def file_rest_def min_def ac_simps)

lemma file_chunk_rest: "index b \<le> length (content b) \<Longrightarrow> file_chunk (file_rest b n) autofill n k = file_chunk b autofill n (Suc k)"
  by (simp add: file_chunk_def file_byte_rest ac_simps)

lemma file_rest_rest: "file_rest (file_rest b n) m = file_rest b (n + m)"
  by (auto simp: file_rest_def min_def)

lemma file_rest_index [simp]: "index (file_rest b n) \<le> length (content b)" "content (file_rest b n) = content b"
  by (simp_all add: file_rest_def)

lemma sector_source_chunk:
  assumes "index b \<le> length (content b)" "sector_source (Some b) dat n = (bs, b')"
  shows "b' = Some (file_rest b n)" "take n bs @ replicate (n - length bs) (of_int autofill) = file_chunk b autofill n 0"
proof -
  define m where "m = min (buffavail b) n"
  have bs: "bs = take m (drop (index b) (content b))" "b' = Some (b\<lparr>index := index b + m\<rparr>)"
    using assms(2) by (auto simp: sector_source_def buffread_def m_def)
  have l: "length bs = m" unfolding bs(1) by (auto simp: m_def buffavail_def)
  show "b' = Some (file_rest b n)" using assms(1) unfolding bs(2) by (auto simp: file_rest_def m_def buffavail_def min_def)
  show "take n bs @ replicate (n - length bs) (of_int autofill) = file_chunk b autofill n 0"
  proof (rule nth_equalityI)
    show "length (take n bs @ replicate (n - length bs) (of_int autofill)) = length (file_chunk b autofill n 0)"
      by (simp add: file_chunk_def)
    fix i assume "i < length (take n bs @ replicate (n - length bs) (of_int autofill :: u8))"
    then have i: "i < n" by simp
    then have "i < m \<longleftrightarrow> index b + i < length (content b)" using assms(1) by (auto simp: m_def buffavail_def)
    with i l show "(take n bs @ replicate (n - length bs) (of_int autofill)) ! i = file_chunk b autofill n 0 ! i"
      by (auto simp: nth_append bs(1) file_chunk_def file_byte_def)
  qed
qed

lemma sector_add_wrote:
  assumes o: "on_track d" and b: "index b \<le> length (content b)"
    and i: "id_add sd trk s l gaptype False d = (False, d1)"
    and a: "data_add (Some b) [] (int n) False gaptype False autofill d1 = (False, b', d2)"
  shows "wrote (sector_cells gaptype sd trk s l (file_chunk b autofill n 0)) d d2" "b' = Some (file_rest b n)"
proof -
  have 1: "wrote (id_cells (gaps ! gaptype) sd trk s l False @ gap_cells (gaps ! gaptype) 2) d d1" using o i by (rule id_add_wrote)
  have o1: "on_track d1" using o wrote_fields [OF 1] by simp
  obtain bs where bs: "(bs, b') = sector_source (Some b) [] n"
    and 2: "wrote (data_cells (gaps ! gaptype) False (take n bs @ replicate (n - length bs) (of_int autofill)) False @ gap_cells (gaps ! gaptype) 3) d1 d2"
    using data_add_wrote [OF o1 a] by metis
  note c = sector_source_chunk [OF b bs [symmetric]]
  show "wrote (sector_cells gaptype sd trk s l (file_chunk b autofill n 0)) d d2" "b' = Some (file_rest b n)"
    using wrote_trans [OF 1 2] c by (simp_all add: sector_cells_def Let_def)
qed

text \<open>Only the position and the cells of the current track may differ.\<close>

definition same_place :: "disk \<Rightarrow> disk \<Rightarrow> bool" where
  "same_place d d' \<longleftrightarrow> d' = d\<lparr>disk_data := disk_data d', at := at d'\<rparr> \<and> (\<forall>x. x < track d \<or> fm d \<le> x \<longrightarrow> disk_data d' x = disk_data d x)"

lemma same_place_refl [simp]: "same_place d d" "same_place d (d\<lparr>at := i\<rparr>)"
  by (simp_all add: same_place_def)

lemma same_place_fields:
  assumes "same_place d d'"
  shows "track d' = track d" "clocks d' = clocks d" "fm d' = fm d" "weak d' = weak d" "c_bpt d' = c_bpt d"
    "sides d' = sides d" "cylinders d' = cylinders d" "tlen d' = tlen d" "bpt d' = bpt d" "density d' = density d" "disk_type d' = disk_type d"
    "status d' = status d" "on_track d' = on_track d"
proof -
  obtain m i where "d' = d\<lparr>disk_data := m, at := i\<rparr>" using assms unfolding same_place_def by blast
  then show "track d' = track d" "clocks d' = clocks d" "fm d' = fm d" "weak d' = weak d" "c_bpt d' = c_bpt d"
    "sides d' = sides d" "cylinders d' = cylinders d" "tlen d' = tlen d" "bpt d' = bpt d" "density d' = density d" "disk_type d' = disk_type d"
    "status d' = status d" "on_track d' = on_track d"
    by (simp_all add: on_track_def)
qed

lemma same_place_trans: "same_place d d' \<Longrightarrow> same_place d' d'' \<Longrightarrow> same_place d d''"
proof -
  assume 1: "same_place d d'" and 2: "same_place d' d''"
  obtain m i where e1: "d' = d\<lparr>disk_data := m, at := i\<rparr>" using 1 unfolding same_place_def by blast
  obtain n j where e2: "d'' = d'\<lparr>disk_data := n, at := j\<rparr>" using 2 unfolding same_place_def by blast
  show ?thesis using 1 2 same_place_fields [OF 1] unfolding same_place_def by (auto simp: e1 e2)
qed

lemma wrote_same_place: "wrote xs d d' \<Longrightarrow> same_place d d'"
  unfolding wrote_def same_place_def by (metis (no_types, lifting) disk.select_convs disk.surjective disk.update_convs)
lemma sectors_add_same_place:
  "sectors_add sd trk n sector_length gaptype interleave autofill idx ss pi b d = (False, b', d') \<Longrightarrow>
   on_track d \<Longrightarrow> index b \<le> length (content b) \<Longrightarrow> same_place d d'"
proof (induction ss arbitrary: pi b d)
  case (Cons s ss)
  define e where "e = d\<lparr>at := idx + fst pi * calc_sectorlen sector_length gaptype\<rparr>"
  obtain d1 where 1: "id_add sd trk s (calc_lenid sector_length) gaptype False e = (False, d1)"
    using Cons.prems(1) by (auto simp: e_def Let_def split: prod.splits bool.splits)
  obtain b1 d5 where 2: "data_add (Some b) [] (int sector_length) False gaptype False autofill d1 = (False, b1, d5)"
    and 3: "sectors_add sd trk n sector_length gaptype interleave autofill idx ss (next_slot n interleave pi) (the b1) d5 = (False, b', d')"
    using Cons.prems(1) 1 by (auto simp: e_def Let_def split: prod.splits bool.splits)
  have oe: "on_track e" using Cons.prems by (simp add: e_def)
  note w = sector_add_wrote [OF oe Cons.prems(3) 1 2]
  have "same_place d5 d'" using Cons.IH [OF 3] wrote_fields [OF w(1)] oe w(2) by simp
  then show ?case using wrote_same_place [OF w(1)] same_place_trans same_place_refl(2) unfolding e_def by metis
qed simp

lemma sectors_add_cells:
  assumes "sectors_add sd trk n sector_length gaptype interleave autofill idx ss pi b d = (False, b', d')"
    and "on_track d" "index b \<le> length (content b)" "idx + n * slen \<le> c_bpt d"
    and "distinct (slots n interleave (length ss) pi)" "\<forall>p\<in>set (slots n interleave (length ss) pi). p < n"
    and "\<forall>p\<in>set (slots n interleave (length ss) pi). clear d (idx + p * slen) (idx + p * slen + slen)"
    and "slen = calc_sectorlen sector_length gaptype"
  shows "same_place d d' \<and> b' = file_rest b (length ss * sector_length) \<and>
    (\<forall>k<length ss. holds d' (idx + slots n interleave (length ss) pi ! k * slen)
       (sector_cells gaptype sd trk (ss ! k) (calc_lenid sector_length) (file_chunk b autofill sector_length k))) \<and>
    (\<forall>k xs. holds d k xs \<longrightarrow> (\<forall>p\<in>set (slots n interleave (length ss) pi). k + length xs \<le> idx + p * slen \<or> idx + p * slen + slen \<le> k) \<longrightarrow> holds d' k xs) \<and>
    (\<forall>i j. clear d i j \<longrightarrow> j \<le> c_bpt d \<longrightarrow> (\<forall>p\<in>set (slots n interleave (length ss) pi). j \<le> idx + p * slen \<or> idx + p * slen + slen \<le> i) \<longrightarrow> clear d' i j)"
  using assms
proof (induction ss arbitrary: pi b d)
  case Nil
  then show ?case by (auto simp: file_rest_def)
next
  case (Cons s ss)
  define e where "e = d\<lparr>at := idx + fst pi * slen\<rparr>"
  define ps where "ps = slots n interleave (length ss) (next_slot n interleave pi)"
  obtain d1 where 1: "id_add sd trk s (calc_lenid sector_length) gaptype False e = (False, d1)"
    using Cons.prems(1) by (auto simp: e_def Cons.prems(8) Let_def split: prod.splits bool.splits)
  obtain b1 d2 where 2: "data_add (Some b) [] (int sector_length) False gaptype False autofill d1 = (False, b1, d2)"
    and 3: "sectors_add sd trk n sector_length gaptype interleave autofill idx ss (next_slot n interleave pi) (the b1) d2 = (False, b', d')"
    using Cons.prems(1) 1 by (auto simp: e_def Cons.prems(8) Let_def split: prod.splits bool.splits)
  define xs where "xs = sector_cells gaptype sd trk s (calc_lenid sector_length) (file_chunk b autofill sector_length 0)"
  have oe: "on_track e" using Cons.prems(2) by (simp add: e_def)
  have w: "wrote xs e d2" and b1: "the b1 = file_rest b sector_length"
    using sector_add_wrote [OF oe Cons.prems(3) 1 2] by (simp_all add: xs_def)
  have lx: "length xs = slen" using Cons.prems(8) by (simp add: xs_def file_chunk_def)
  have p: "fst pi < n" "fst pi \<notin> set ps" using Cons.prems(5,6) by (simp_all add: ps_def)
  have far: "q * slen + slen \<le> fst pi * slen \<or> fst pi * slen + slen \<le> q * slen" if "q \<noteq> fst pi" for q
  proof -
    have "q + 1 \<le> fst pi \<or> fst pi + 1 \<le> q" using that by auto
    then have "(q + 1) * slen \<le> fst pi * slen \<or> (fst pi + 1) * slen \<le> q * slen" by (meson mult_le_mono1)
    then show ?thesis by (simp add: ac_simps)
  qed
  note f = wrote_fields [OF w]
  have sp: "same_place d d2" using wrote_same_place [OF w] same_place_trans [of d e d2] by (simp add: e_def)
  have at: "at e = idx + fst pi * slen" "c_bpt e = c_bpt d" by (simp_all add: e_def)
  have here: "holds d2 (idx + fst pi * slen) xs"
    using wrote_holds [OF w] Cons.prems(7) by (simp add: at lx) (simp add: e_def)
  have le: "idx + q * slen + slen \<le> c_bpt d" if "q < n" for q
  proof -
    have "(q + 1) * slen \<le> n * slen" using that by (intro mult_le_mono1) simp
    then show ?thesis using Cons.prems(4) by simp
  qed
  have IH: "same_place d2 d' \<and> b' = file_rest (the b1) (length ss * sector_length) \<and>
    (\<forall>k<length ss. holds d' (idx + ps ! k * slen)
       (sector_cells gaptype sd trk (ss ! k) (calc_lenid sector_length) (file_chunk (the b1) autofill sector_length k))) \<and>
    (\<forall>k xs. holds d2 k xs \<longrightarrow> (\<forall>p\<in>set ps. k + length xs \<le> idx + p * slen \<or> idx + p * slen + slen \<le> k) \<longrightarrow> holds d' k xs) \<and>
    (\<forall>i j. clear d2 i j \<longrightarrow> j \<le> c_bpt d2 \<longrightarrow> (\<forall>p\<in>set ps. j \<le> idx + p * slen \<or> idx + p * slen + slen \<le> i) \<longrightarrow> clear d' i j)"
    unfolding ps_def
  proof (rule Cons.IH [OF 3])
    show "on_track d2" "index (the b1) \<le> length (content (the b1))" "idx + n * slen \<le> c_bpt d2"
      using Cons.prems f by (simp_all add: b1 e_def)
    show "distinct (slots n interleave (length ss) (next_slot n interleave pi))"
      "\<forall>p\<in>set (slots n interleave (length ss) (next_slot n interleave pi)). p < n" "slen = calc_sectorlen sector_length gaptype"
      using Cons.prems by simp_all
    show "\<forall>p\<in>set (slots n interleave (length ss) (next_slot n interleave pi)). clear d2 (idx + p * slen) (idx + p * slen + slen)"
    proof
      fix q assume q: "q \<in> set (slots n interleave (length ss) (next_slot n interleave pi))"
      then have "q \<noteq> fst pi" "q < n" "clear d (idx + q * slen) (idx + q * slen + slen)" using p Cons.prems by (auto simp: ps_def)
      then show "clear d2 (idx + q * slen) (idx + q * slen + slen)"
        using wrote_clear [OF w, of "idx + q * slen" "idx + q * slen + slen"] le [of q] far [of q]
        by (simp add: at lx e_def add.assoc)
    qed
  qed
  have same: "same_place d d'" using IH sp same_place_trans by blast
  have rest: "b' = file_rest b (length (s # ss) * sector_length)" using IH b1 by (simp add: file_rest_rest)
  have sectors: "holds d' (idx + slots n interleave (length (s # ss)) pi ! k * slen)
       (sector_cells gaptype sd trk ((s # ss) ! k) (calc_lenid sector_length) (file_chunk b autofill sector_length k))"
    if k: "k < length (s # ss)" for k
  proof (cases k)
    case 0
    have "idx + fst pi * slen + length xs \<le> idx + q * slen \<or> idx + q * slen + slen \<le> idx + fst pi * slen" if "q \<in> set ps" for q
      using far [of q] p that lx by fastforce
    then show ?thesis using IH here 0 unfolding xs_def by simp
  next
    case (Suc j)
    with k IH Cons.prems(3) show ?thesis by (simp add: ps_def b1 file_chunk_rest)
  qed
  show ?case
  proof (intro conjI same rest allI impI)
    fix k assume "k < length (s # ss)"
    then show "holds d' (idx + slots n interleave (length (s # ss)) pi ! k * slen)
       (sector_cells gaptype sd trk ((s # ss) ! k) (calc_lenid sector_length) (file_chunk b autofill sector_length k))" by (rule sectors)
  next
    fix k ys assume h: "holds d k ys" "\<forall>p\<in>set (slots n interleave (length (s # ss)) pi). k + length ys \<le> idx + p * slen \<or> idx + p * slen + slen \<le> k"
    then have "holds d2 k ys" using wrote_elsewhere [OF w, of k ys] by (simp add: at lx) (simp add: e_def)
    with IH h show "holds d' k ys" by (simp add: ps_def)
  next
    fix i j assume h: "clear d i j" "j \<le> c_bpt d" "\<forall>p\<in>set (slots n interleave (length (s # ss)) pi). j \<le> idx + p * slen \<or> idx + p * slen + slen \<le> i"
    then have "clear d2 i j" using wrote_clear [OF w, of i j] by (simp add: at lx) (simp add: e_def)
    with IH h f(6) at(2) show "clear d' i j" by (simp add: ps_def)
  qed
qed
text \<open>
  A track with \<open>n\<close> sectors in the slots of \<open>ps\<close>, after the index mark (if there is one) and the first gap: sector \<open>base + k\<close> is in slot \<open>ps ! k\<close> and holds \<open>dat k\<close>.
  No clock mark follows the slots.
\<close>

definition start_cells :: "nat \<Rightarrow> bool \<Rightarrow> (u8 \<times> bool) list" where
  "start_cells gaptype preindex =
     (let g = gaps ! gaptype in (if preindex then gap_cells g 0 @ sync_cells g @ [(0xfc, mark g < 0)] else []) @ gap_cells g 1)"

definition start_len :: "nat \<Rightarrow> bool \<Rightarrow> nat" where
  "start_len gaptype preindex = length (start_cells gaptype preindex)"

definition formatted :: "nat \<Rightarrow> nat \<Rightarrow> nat \<Rightarrow> nat \<Rightarrow> nat \<Rightarrow> nat list \<Rightarrow> bool \<Rightarrow> (nat \<Rightarrow> u8 list) \<Rightarrow> disk \<Rightarrow> bool" where
  "formatted gaptype sd trk base sector_length ps pre dat d \<longleftrightarrow>
     (let n = length ps; slen = calc_sectorlen sector_length gaptype; idx = start_len gaptype pre in
      on_track d \<and> idx + n * slen \<le> c_bpt d \<and> distinct ps \<and> set ps = {..<n} \<and>
      holds d 0 (start_cells gaptype pre) \<and> clear d (idx + n * slen) (c_bpt d) \<and>
      (\<forall>k<n. length (dat k) = sector_length \<and>
         holds d (idx + ps ! k * slen) (sector_cells gaptype sd trk (base + k) (calc_lenid sector_length) (dat k))))"

lemma gap4_wrote:
  assumes "on_track d" "gap4_add gaptype d = (False, d')"
  shows "wrote (replicate (c_bpt d - at d) (gap (gaps ! gaptype), False)) d d'" "at d \<le> c_bpt d"
proof -
  show "at d \<le> c_bpt d" using assms(2) by (auto simp: gap4_add_def split: if_splits)
  then show "wrote (replicate (c_bpt d - at d) (gap (gaps ! gaptype), False)) d d'"
    using wrote_memset [OF assms(1), of "c_bpt d - at d" d' "gap (gaps ! gaptype)"] assms(2)
    by (auto simp: gap4_add_def split: if_splits)
qed

text \<open>Before the first slot: nothing, or the index mark.\<close>

lemma preindex_wrote:
  assumes "on_track d" "preindex_add gaptype d = (False, d')"
  shows "wrote (gap_cells (gaps ! gaptype) 0 @ sync_cells (gaps ! gaptype) @ [(0xfc, mark (gaps ! gaptype) < 0)]) d d'"
proof -
  define g where "g = gaps ! gaptype"
  obtain d1 where g0: "gap_add 0 gaptype d = (False, d1)" and d': "d' = mark_add g 0xfc (sync_add g d1)"
    and r: "at d + preindex_len gaptype < c_bpt d"
    using assms(2) by (auto simp: preindex_add_def g_def Let_def split: if_splits prod.splits bool.splits)
  have 1: "wrote (gap_cells g 0) d d1" unfolding g_def using assms(1) g0 by (rule gap_add_wrote)
  note f = wrote_fields [OF 1]
  have "wrote (sync_cells g @ [(0xfc, mark g < 0)]) d1 d'"
    unfolding d' using assms(1) f r by (intro wrote_sync_mark) (simp_all add: preindex_len_def Let_def flip: g_def)
  from wrote_trans [OF 1 this] show ?thesis by (simp add: g_def)
qed

lemma track_start_skipped:
  assumes h: "holds d 0 (start_cells gaptype preindex)" and g: "gap_ok (gaps ! gaptype)"
  shows "id_scan False (d\<lparr>at := 0\<rparr>) = id_scan False (d\<lparr>at := start_len gaptype preindex\<rparr>)"
proof -
  define g where "g = gaps ! gaptype"
  define i where "i = (if preindex then len g ! 0 + sync_len g + mark_len g + 1 else 0)"
  note g = g [folded g_def]
  have e: "start_len gaptype preindex = i + len g ! 1" by (simp add: start_len_def start_cells_def i_def g_def Let_def)
  have g1: "holds d i (gap_cells g 1)" and hp: "holds d 0 (if preindex then gap_cells g 0 @ sync_cells g @ [(0xfc, mark g < 0)] else [])"
    using h by (simp_all add: start_cells_def holds_append i_def g_def Let_def add.assoc split: if_splits)
  have 1: "id_scan False (d\<lparr>at := i\<rparr>) = id_scan False (d\<lparr>at := i + len g ! 1\<rparr>)"
    using gap_clear [OF g1] g1 by (intro id_scan_clear) (simp_all add: holds_def)
  show ?thesis
  proof (cases preindex)
    case True
    then have h0: "holds d 0 (gap_cells g 0)" and hm: "holds d (len g ! 0) (sync_cells g @ [(0xfc, mark g < 0)])"
      using hp by (simp_all add: holds_append)
    have "id_scan False (d\<lparr>at := 0\<rparr>) = id_scan False (d\<lparr>at := len g ! 0\<rparr>)"
      using gap_clear [OF h0] h0 id_scan_clear [of d 0 "len g ! 0"] by (simp add: holds_def)
    also have "\<dots> = id_scan False (d\<lparr>at := i\<rparr>)" using id_scan_mark [OF hm g] True by (simp add: i_def add.assoc)
    finally show ?thesis using 1 by (simp add: e)
  qed (use 1 e in \<open>simp add: i_def\<close>)
qed

lemma set_track_at [simp]: "DISK_SET_TRACK_IDX k (d\<lparr>at := i\<rparr>) = (DISK_SET_TRACK_IDX k d)\<lparr>at := i\<rparr>"
    "DISK_SET_TRACK h t (d\<lparr>at := i\<rparr>) = (DISK_SET_TRACK h t d)\<lparr>at := i\<rparr>"
  by (simp_all add: DISK_SET_TRACK_IDX_def DISK_SET_TRACK_def Let_def)

lemma on_track_set [simp]: "on_track (DISK_SET_TRACK_IDX k d)" "on_track (DISK_SET_TRACK h t d)"
  by (simp_all add: DISK_SET_TRACK_IDX_def DISK_SET_TRACK_def Let_def on_track_def)

definition blank :: "disk \<Rightarrow> bool" where
  "blank d \<longleftrightarrow> clear d 0 (c_bpt d)"

lemma clear_sub: "clear d i j \<Longrightarrow> i \<le> i' \<Longrightarrow> j' \<le> j \<Longrightarrow> clear d i' j'"
  by (auto simp: clear_def)

lemma trackgen_formats:
  assumes g: "trackgen sd trk base n sector_length preindex gaptype interleave autofill b d = (False, b', d')"
    and blank: "blank (DISK_SET_TRACK sd trk d)" and b: "index b \<le> length (content b)" and ok: "gap_ok (gaps ! gaptype)"
    and ps: "distinct (slots n interleave n (0, 0))" "\<forall>p\<in>set (slots n interleave n (0, 0)). p < n"
  shows "formatted gaptype sd trk base sector_length (slots n interleave n (0, 0)) preindex (file_chunk b autofill sector_length) d'"
    and "same_place (DISK_SET_TRACK sd trk d) d'" "b' = file_rest b (n * sector_length)"
proof -
  define g where "g = gaps ! gaptype"
  define slen where "slen = calc_sectorlen sector_length gaptype"
  define S where "S = slots n interleave n (0, 0)"
  define d0 where "d0 = (DISK_SET_TRACK sd trk d)\<lparr>at := 0\<rparr>"
  note G = g [unfolded trackgen_def Let_def set_track_at, folded d0_def]
  have o0: "on_track d0" "at d0 = 0" and bl: "clear d0 0 (c_bpt d0)" using blank by (simp_all add: d0_def blank_def)
  obtain d1 where 1: "(if preindex then preindex_add gaptype d0 else (False, d0)) = (False, d1)"
    using G by (auto split: prod.splits bool.splits)
  obtain d2 where 2: "postindex_add gaptype d1 = (False, d2)"
    using G 1 by (auto split: prod.splits bool.splits)
  obtain b3 d3 where 3: "sectors_add sd trk n sector_length gaptype interleave autofill (at d2) [base..<base + n] (0, 0) b d2 = (False, b3, d3)"
    using G 1 2 by (auto split: prod.splits bool.splits)
  have 4: "gap4_add gaptype (d3\<lparr>at := at d2 + n * slen\<rparr>) = (False, d')" "b' = b3"
    using G 1 2 3 by (auto simp: slen_def split: prod.splits bool.splits)
  define pre where "pre = (if preindex then gap_cells g 0 @ sync_cells g @ [(0xfc, mark g < 0)] else [])"
  have w1: "wrote pre d0 d1"
    using 1 preindex_wrote [OF o0(1), of gaptype d1] o0 by (auto simp: pre_def g_def wrote_nothing split: if_splits)
  note f1 = wrote_fields [OF w1]
  have w2: "wrote (gap_cells g 1) d1 d2" unfolding g_def using 2 f1 o0 by (intro gap_add_wrote) (simp_all add: postindex_add_def)
  note f2 = wrote_fields [OF w2]
  note w = wrote_trans [OF w1 w2]
  note f = wrote_fields [OF w]
  have idx: "at d2 = length pre + len g ! 1" using f o0 by simp
  have sl: "start_len gaptype preindex = at d2" by (simp add: start_len_def start_cells_def pre_def idx g_def Let_def)
  have le: "at d2 \<le> c_bpt d0" using w o0 by (simp add: wrote_def idx)
  have start: "holds d2 0 (pre @ gap_cells g 1)" using wrote_holds [OF w] clear_sub [OF bl, of 0 "at d2"] o0 le by (simp add: idx)
  have cl2: "clear d2 (at d2) (c_bpt d0)" using wrote_clear [OF w] clear_sub [OF bl, of "at d2" "c_bpt d0"] o0 by (simp add: idx)
  define e where "e = d3\<lparr>at := at d2 + n * slen\<rparr>"
  have l4: "at d2 + n * slen \<le> c_bpt d3" using 4(1) by (auto simp: gap4_add_def split: if_splits)
  have c3: "c_bpt d3 = c_bpt d2"
    using same_place_fields [OF sectors_add_same_place [OF 3]] f1 f2 o0 b by simp
  have cells: "same_place d2 d3 \<and> b3 = file_rest b (length [base..<base + n] * sector_length) \<and>
    (\<forall>k<length [base..<base + n]. holds d3 (at d2 + slots n interleave (length [base..<base + n]) (0, 0) ! k * slen)
       (sector_cells gaptype sd trk ([base..<base + n] ! k) (calc_lenid sector_length) (file_chunk b autofill sector_length k))) \<and>
    (\<forall>k xs. holds d2 k xs \<longrightarrow> (\<forall>p\<in>set (slots n interleave (length [base..<base + n]) (0, 0)). k + length xs \<le> at d2 + p * slen \<or> at d2 + p * slen + slen \<le> k) \<longrightarrow> holds d3 k xs) \<and>
    (\<forall>i j. clear d2 i j \<longrightarrow> j \<le> c_bpt d2 \<longrightarrow> (\<forall>p\<in>set (slots n interleave (length [base..<base + n]) (0, 0)). j \<le> at d2 + p * slen \<or> at d2 + p * slen + slen \<le> i) \<longrightarrow> clear d3 i j)"
  proof (rule sectors_add_cells [OF 3])
    show "\<forall>p\<in>set (slots n interleave (length [base..<base + n]) (0, 0)). clear d2 (at d2 + p * slen) (at d2 + p * slen + slen)"
    proof
      fix p assume "p \<in> set (slots n interleave (length [base..<base + n]) (0, 0))"
      then have "(p + 1) * slen \<le> n * slen" using ps(2) by (intro mult_le_mono1) auto
      then show "clear d2 (at d2 + p * slen) (at d2 + p * slen + slen)" using cl2 l4 c3 f2 f1 by (intro clear_sub [OF cl2]) simp_all
    qed
  qed (use ps b f1 f2 o0 l4 c3 in \<open>simp_all add: slen_def\<close>)
  have after: "clear d3 (at d2 + n * slen) (c_bpt d2)" "holds d3 0 (pre @ gap_cells g 1)"
  proof -
    have "(p + 1) * slen \<le> n * slen" if "p \<in> set S" for p using that ps(2) by (intro mult_le_mono1) (auto simp: S_def)
    then have p: "p * slen + slen \<le> n * slen" if "p \<in> set S" for p using that by (simp add: ac_simps)
    have c: "clear d2 (at d2 + n * slen) (c_bpt d2)" using f by (intro clear_sub [OF cl2]) simp_all
    show "clear d3 (at d2 + n * slen) (c_bpt d2)" using cells c p by (simp add: S_def add.assoc)
    show "holds d3 0 (pre @ gap_cells g 1)" using cells start idx by simp
  qed
  have o3: "on_track e" using cells same_place_fields [of d2 d3] f o0 by (simp add: e_def)
  have w4: "wrote (replicate (c_bpt e - at e) (gap g, False)) e d'"
    using gap4_wrote [OF o3, of gaptype d'] 4 by (simp add: e_def g_def)
  note f4 = wrote_fields [OF w4]
  have e: "at e = at d2 + n * slen" "c_bpt e = c_bpt d0" using c3 f by (simp_all add: e_def)
  have sp3: "same_place d0 d3" using wrote_same_place [OF w] cells same_place_trans by blast
  have sp: "same_place d0 d'" using sp3 wrote_same_place [OF w4] same_place_trans same_place_refl(2) unfolding e_def by metis
  then show "same_place (DISK_SET_TRACK sd trk d) d'" using same_place_trans same_place_refl(2) unfolding d0_def by metis
  show "b' = file_rest b (n * sector_length)" using cells 4(2) by simp
  have c: "c_bpt d' = c_bpt d0" using same_place_fields [OF sp] by simp
  have set: "set S = {..<n}"
    using ps card_subset_eq [of "{..<n}" "set S"] distinct_card [of S] by (auto simp: S_def)
  have "holds d' (at d2 + S ! k * slen) (sector_cells gaptype sd trk (base + k) (calc_lenid sector_length) (file_chunk b autofill sector_length k))"
    if k: "k < n" for k
  proof -
    have "S ! k < n" using ps(2) k by (simp add: S_def)
    then have "(S ! k + 1) * slen \<le> n * slen" by (intro mult_le_mono1) simp
    then have "at d2 + S ! k * slen + slen \<le> at e" using e by simp
    moreover have "holds e (at d2 + S ! k * slen) (sector_cells gaptype sd trk (base + k) (calc_lenid sector_length) (file_chunk b autofill sector_length k))"
      using cells k by (simp add: e_def S_def)
    ultimately show ?thesis by (intro wrote_elsewhere [OF w4]) (simp_all add: slen_def file_chunk_def)
  qed
  moreover have "clear d' (at d2 + n * slen) (c_bpt d')"
    using w4 after(1) c3 f e c unfolding wrote_def clear_def by (auto simp: e_def)
  moreover have "holds d' 0 (pre @ gap_cells g 1)"
    using after(2) idx by (intro wrote_elsewhere [OF w4]) (simp_all add: e_def)
  then have "holds d' 0 (start_cells gaptype preindex)" by (cases preindex) (simp_all add: start_cells_def pre_def g_def Let_def)
  ultimately have "formatted gaptype sd trk base sector_length S preindex (file_chunk b autofill sector_length) d'"
    using sp o0 same_place_fields [OF sp] l4 c3 f set ps(1)
    by (auto simp: formatted_def S_def Let_def file_chunk_def slen_def sl)
  then show "formatted gaptype sd trk base sector_length (slots n interleave n (0, 0)) preindex (file_chunk b autofill sector_length) d'"
    unfolding S_def .
qed

lemma id_seek_from_skip:
  assumes "id_scan False (d\<lparr>at := i\<rparr>) = id_scan False (d\<lparr>at := j\<rparr>)"
  shows "id_seek_from s (d\<lparr>at := i\<rparr>) = id_seek_from s (d\<lparr>at := j\<rparr>)"
  using assms by (subst (1 2) id_seek_from.simps) (simp add: id_read_def)

text \<open>The sector in each slot.\<close>

lemma formatted_slot:
  assumes f: "formatted gaptype sd trk base sector_length ps pre dat d" and p: "p < length ps"
  obtains k where "k < length ps" "ps ! k = p" "length (dat k) = sector_length"
    "holds d (start_len gaptype pre + p * calc_sectorlen sector_length gaptype) (sector_cells gaptype sd trk (base + k) (calc_lenid sector_length) (dat k))"
proof -
  have "p \<in> set ps" using f p by (simp add: formatted_def Let_def)
  then obtain k where "k < length ps" "ps ! k = p" by (metis in_set_conv_nth)
  then show thesis using f that by (auto simp: formatted_def Let_def)
qed

lemma slot_skip:
  assumes h: "holds d p (sector_cells gaptype h t s l bs)" and g: "gap_ok (gaps ! gaptype)"
  shows "id_scan False (d\<lparr>at := p + header_len gaptype\<rparr>) = id_scan False (d\<lparr>at := p + calc_sectorlen (length bs) gaptype\<rparr>)"
  using read_sector(2,4) [OF h g] by simp

lemma seek_finds:
  assumes f: "formatted gaptype sd trk base sector_length ps pre dat d" and g: "gap_ok (gaps ! gaptype)"
    and r: "base + length ps \<le> 256" and k: "k < length ps" and p: "p \<le> ps ! k"
  defines "slen \<equiv> calc_sectorlen sector_length gaptype"
  shows "id_seek_from (int (base + k)) (d\<lparr>at := start_len gaptype pre + p * slen\<rparr>) = (True, d\<lparr>at := start_len gaptype pre + ps ! k * slen + header_len gaptype\<rparr>)"
  using p
proof (induction "ps ! k - p" arbitrary: p)
  case 0
  then have p: "p = ps ! k" by simp
  have "holds d (start_len gaptype pre + p * slen) (sector_cells gaptype sd trk (base + k) (calc_lenid sector_length) (dat k))"
    using f k by (simp add: formatted_def Let_def slen_def p)
  from read_sector(1) [OF this g] show ?case using r k by (subst id_seek_from.simps) (simp add: id_read_def p)
next
  case (Suc m)
  have q: "ps ! k < length ps" using f k nth_mem by (fastforce simp: formatted_def Let_def)
  then have "p < length ps" using Suc.hyps(2) by simp
  then obtain j where j: "j < length ps" "ps ! j = p" "length (dat j) = sector_length"
    "holds d (start_len gaptype pre + p * slen) (sector_cells gaptype sd trk (base + j) (calc_lenid sector_length) (dat j))"
    using formatted_slot [OF f] unfolding slen_def by blast
  have "j \<noteq> k" using j(2) Suc.hyps(2) by auto
  then have ne: "int ((base + j) mod 256) \<noteq> int (base + k)" using j(1) k r by simp
  have "id_seek_from (int (base + k)) (d\<lparr>at := start_len gaptype pre + p * slen\<rparr>) = id_seek_from (int (base + k)) (d\<lparr>at := start_len gaptype pre + p * slen + header_len gaptype\<rparr>)"
    using read_sector(1) [OF j(4) g] ne by (subst id_seek_from.simps) (simp add: id_read_def)
  also have "\<dots> = id_seek_from (int (base + k)) (d\<lparr>at := start_len gaptype pre + p * slen + slen\<rparr>)"
    using id_seek_from_skip [OF slot_skip [OF j(4) g]] j(3) by (simp add: slen_def)
  also have "\<dots> = id_seek_from (int (base + k)) (d\<lparr>at := start_len gaptype pre + (p + 1) * slen\<rparr>)" by (simp add: ac_simps)
  also have "\<dots> = (True, d\<lparr>at := start_len gaptype pre + ps ! k * slen + header_len gaptype\<rparr>)" using Suc.hyps by (intro Suc.hyps(1)) simp_all
  finally show ?case .
qed

lemma seek_sector:
  assumes f: "formatted gaptype sd trk base sector_length ps pre dat d" and g: "gap_ok (gaps ! gaptype)"
    and r: "base + length ps \<le> 256" and k: "k < length ps"
  defines "p \<equiv> start_len gaptype pre + ps ! k * calc_sectorlen sector_length gaptype"
  shows "id_seek (int (base + k)) d = (True, d\<lparr>at := p + header_len gaptype\<rparr>)"
    "datamark_read (d\<lparr>at := p + header_len gaptype\<rparr>) = (Some False, d\<lparr>at := p + data_offset gaptype\<rparr>)"
    "track_bytes d (p + data_offset gaptype) sector_length = dat k"
proof -
  have "id_scan False (d\<lparr>at := 0\<rparr>) = id_scan False (d\<lparr>at := start_len gaptype pre\<rparr>)" using f g by (intro track_start_skipped) (simp_all add: formatted_def Let_def)
  from id_seek_from_skip [OF this] show "id_seek (int (base + k)) d = (True, d\<lparr>at := p + header_len gaptype\<rparr>)"
    using seek_finds [OF f g r k, of 0] by (simp add: id_seek_def p_def)
  have h: "holds d p (sector_cells gaptype sd trk (base + k) (calc_lenid sector_length) (dat k))" "length (dat k) = sector_length"
    using f k by (simp_all add: formatted_def Let_def p_def)
  from read_sector(3,5) [OF h(1) g] show "datamark_read (d\<lparr>at := p + header_len gaptype\<rparr>) = (Some False, d\<lparr>at := p + data_offset gaptype\<rparr>)"
    "track_bytes d (p + data_offset gaptype) sector_length = dat k"
    by (simp_all add: datamark_read_def h(2))
qed

lemma formatted_at [simp]: "formatted gaptype sd trk base sector_length ps pre dat (d\<lparr>at := i\<rparr>) = formatted gaptype sd trk base sector_length ps pre dat d"
  by (simp add: formatted_def)

text \<open>Writing a formatted track to a file gives the sectors in the order of their numbers.\<close>

lemma save_sectors_formatted:
  assumes f: "formatted gaptype sd trk base sector_length ps pre dat d" and g: "gap_ok (gaps ! gaptype)"
    and r: "base + length ps \<le> 256" and l: "sector_length = 128 * 2 ^ seclen"
    and m: "m \<le> n" "n \<le> length ps" "(n - m) * sector_length \<le> room out"
  shows "\<exists>d'. save_sectors seclen [base + m..<base + n] d out =
     (False, d', out\<lparr>written := written out @ concat (map dat [m..<n]), room := room out - (n - m) * sector_length\<rparr>) \<and> (\<exists>i. d' = d\<lparr>at := i\<rparr>)"
  using f m
proof (induction "n - m" arbitrary: m d out)
  case 0
  then show ?case by (intro exI [of _ d] conjI exI [of _ "at d"]) simp_all
next
  case (Suc j)
  have k: "m < length ps" using Suc.hyps(2) Suc.prems(3) by simp
  note s = seek_sector [OF Suc.prems(1) g r k]
  define p where "p = start_len gaptype pre + ps ! m * calc_sectorlen sector_length gaptype"
  note s = s [folded p_def]
  define d2 where "d2 = d\<lparr>at := p + data_offset gaptype\<rparr>"
  define out2 where "out2 = out\<lparr>written := written out @ dat m, room := room out - sector_length\<rparr>"
  have ld: "length (dat m) = sector_length" using Suc.prems(1) k by (simp add: formatted_def Let_def)
  have n: "n - m = Suc (n - Suc m)" using Suc.hyps(2) by simp
  have ro: "sector_length \<le> room out" "(n - Suc m) * sector_length \<le> room out - sector_length" using Suc.prems(4) n by simp_all
  have tb: "track_bytes (d\<lparr>at := i\<rparr>) a b = track_bytes d a b" for i a b by (simp add: track_bytes_def)
  have "data_write_file seclen d2 out = (False, out2)"
    using s(3) ro(1) ld l by (simp add: data_write_file_def fwrite_def d2_def out2_def tb)
  moreover have "[base + m..<base + n] = (base + m) # [base + Suc m..<base + n]" using Suc.hyps(2) by (simp add: upt_conv_Cons)
  ultimately have "save_sectors seclen [base + m..<base + n] d out = save_sectors seclen [base + Suc m..<base + n] d2 out2"
    using s(1,2) by (simp add: d2_def)
  moreover obtain d' i where "save_sectors seclen [base + Suc m..<base + n] d2 out2 =
     (False, d', out2\<lparr>written := written out2 @ concat (map dat [Suc m..<n]), room := room out2 - (n - Suc m) * sector_length\<rparr>)"
    and d': "d' = d2\<lparr>at := i\<rparr>"
  proof -
    have "\<exists>d'. save_sectors seclen [base + Suc m..<base + n] d2 out2 =
     (False, d', out2\<lparr>written := written out2 @ concat (map dat [Suc m..<n]), room := room out2 - (n - Suc m) * sector_length\<rparr>) \<and> (\<exists>i. d' = d2\<lparr>at := i\<rparr>)"
      using Suc.hyps(2) Suc.prems ro by (intro Suc.hyps(1)) (simp_all add: d2_def out2_def)
    then show thesis using that by blast
  qed
  moreover have "concat (map dat [m..<n]) = dat m @ concat (map dat [Suc m..<n])" using Suc.hyps(2) by (simp add: upt_conv_Cons)
  moreover have "room out2 - (n - Suc m) * sector_length = room out - (n - m) * sector_length" by (simp add: out2_def n)
  ultimately have "save_sectors seclen [base + m..<base + n] d out =
     (False, d', out\<lparr>written := written out @ concat (map dat [m..<n]), room := room out - (n - m) * sector_length\<rparr>)"
    by (simp add: out2_def)
  moreover have "d' = d\<lparr>at := i\<rparr>" by (simp add: d' d2_def)
  ultimately show ?case by blast
qed

lemma savetrack_formatted:
  assumes f: "formatted gaptype sd trk base sector_length ps pre dat (DISK_SET_TRACK sd trk d)" and g: "gap_ok (gaps ! gaptype)"
    and r: "base + length ps \<le> 256" and l: "sector_length = 128 * 2 ^ seclen" and m: "length ps * sector_length \<le> room out"
  shows "\<exists>d'. savetrack sd trk base (length ps) seclen d out =
     (False, d', out\<lparr>written := written out @ concat (map dat [0..<length ps]), room := room out - length ps * sector_length\<rparr>) \<and>
     (\<exists>i. d' = (DISK_SET_TRACK sd trk d)\<lparr>at := i\<rparr>)"
  using save_sectors_formatted [of gaptype sd trk base sector_length ps pre dat "(DISK_SET_TRACK sd trk d)\<lparr>at := 0\<rparr>" seclen 0 "length ps" out] assms
  by (auto simp: savetrack_def)

text \<open>And its geometry is recognised.\<close>

lemma track_geom_loop_skip:
  assumes "id_scan False (d\<lparr>at := i\<rparr>) = id_scan False (d\<lparr>at := j\<rparr>)"
  shows "track_geom_loop t del g (d\<lparr>at := i\<rparr>) = track_geom_loop t del g (d\<lparr>at := j\<rparr>)"
  using assms by (subst (1 2) track_geom_loop.simps) (simp add: id_read_def)

lemma id_scan_end: "id_scan False (d\<lparr>at := c_bpt d\<rparr>) = (None, d\<lparr>at := c_bpt d\<rparr>)"
  by (subst id_scan_step) simp

lemma geom_slot:
  assumes h: "holds d p (sector_cells gaptype sd trk s l bs)" and g: "gap_ok (gaps ! gaptype)" and gap2: "len (gaps ! gaptype) ! 2 > 0"
    and t: "trk < 256" and s: "s < 256" and l: "l < 256"
    and x: "geom_base x = -1 \<and> geom_seclen x = -1 \<and> geom_mfm x = -1 \<and> m = (if gap (gaps ! gaptype) = 0x4e then 1 else 0) \<and> b = int s
       \<or> geom_seclen x = int l \<and> geom_mfm x = m \<and> m \<noteq> -1 \<and> geom_base x \<noteq> -1 \<and> b = min (int s) (geom_base x)"
  shows "track_geom_loop trk False x (d\<lparr>at := p\<rparr>) =
     track_geom_loop trk False \<lparr>geom_base = b, geom_sectors = geom_sectors x + 1, geom_seclen = int l, geom_mfm = m, oddities = oddities x\<rparr>
       (d\<lparr>at := p + calc_sectorlen (length bs) gaptype\<rparr>)"
proof -
  note r = read_sector [OF h g]
  have "track_byte d (p + header_len gaptype) = gap (gaps ! gaptype)"
    using holds_byte [OF sector_parts(3) [OF h], of 0] gap2 by (simp add: gap_cells_def)
  then have "track_geom_loop trk False x (d\<lparr>at := p\<rparr>) =
     track_geom_loop trk False \<lparr>geom_base = b, geom_sectors = geom_sectors x + 1, geom_seclen = int l, geom_mfm = m, oddities = oddities x\<rparr>
       (d\<lparr>at := p + data_offset gaptype\<rparr>)"
    using r(1,3) t s l x by (cases x; subst track_geom_loop.simps) (elim disjE; simp add: id_read_def datamark_read_def Let_def min_def)
  also have "\<dots> = track_geom_loop trk False \<lparr>geom_base = b, geom_sectors = geom_sectors x + 1, geom_seclen = int l, geom_mfm = m, oddities = oddities x\<rparr>
       (d\<lparr>at := p + calc_sectorlen (length bs) gaptype\<rparr>)"
    by (rule track_geom_loop_skip [OF r(4)])
  finally show ?thesis .
qed
lemma slot_step: "i + p * slen + slen = i + Suc p * (slen :: nat)"
  by simp

lemma geom_slots:
  assumes f: "formatted gaptype sd trk base sector_length ps pre dat d" and g: "gap_ok (gaps ! gaptype)" and gap2: "len (gaps ! gaptype) ! 2 > 0"
    and r: "base + length ps \<le> 256" and t: "trk < 256" and l: "calc_lenid sector_length < 256"
  defines "slen \<equiv> calc_sectorlen sector_length gaptype"
  assumes p: "p \<le> length ps" and x: "geom_seclen x = int (calc_lenid sector_length)" "geom_mfm x \<noteq> -1" "int base \<le> geom_base x"
    "geom_mfm x = (if gap (gaps ! gaptype) = 0x4e then 1 else 0)"
    and some: "geom_base x = int base \<or> (\<exists>k<length ps. k = 0 \<and> p \<le> ps ! k)"
  shows "track_geom_loop trk False x (d\<lparr>at := start_len gaptype pre + p * slen\<rparr>) =
     (x\<lparr>geom_base := int base, geom_sectors := geom_sectors x + int (length ps - p)\<rparr>, d\<lparr>at := c_bpt d\<rparr>)"
  using p x some
proof (induction "length ps - p" arbitrary: p x)
  case 0
  then have p: "p = length ps" by simp
  have "set ps = {..<length ps}" using f by (simp add: formatted_def Let_def)
  then have "ps ! k < length ps" if "k < length ps" for k using that nth_mem by blast
  then have b: "geom_base x = int base" using 0 p by fastforce
  have c: "clear d (start_len gaptype pre + p * slen) (c_bpt d)" "start_len gaptype pre + p * slen \<le> c_bpt d" using f by (simp_all add: formatted_def Let_def slen_def p)
  have "id_scan False (d\<lparr>at := start_len gaptype pre + p * slen\<rparr>) = (None, d\<lparr>at := c_bpt d\<rparr>)"
    using id_scan_clear [of d "start_len gaptype pre + p * slen" "c_bpt d - (start_len gaptype pre + p * slen)"] c id_scan_end by simp
  then show ?case using b p by (cases x; subst track_geom_loop.simps) (simp add: id_read_def)
next
  case (Suc m)
  then have "p < length ps" by simp
  then obtain k where k: "k < length ps" "ps ! k = p" "length (dat k) = sector_length"
    and h: "holds d (start_len gaptype pre + p * slen) (sector_cells gaptype sd trk (base + k) (calc_lenid sector_length) (dat k))"
    using formatted_slot [OF f] unfolding slen_def by blast
  define y where "y = \<lparr>geom_base = min (int (base + k)) (geom_base x), geom_sectors = geom_sectors x + 1, geom_seclen = geom_seclen x,
    geom_mfm = geom_mfm x, oddities = oddities x\<rparr>"
  have s: "base + k < 256" using k(1) r by simp
  have "track_geom_loop trk False x (d\<lparr>at := start_len gaptype pre + p * slen\<rparr>) = track_geom_loop trk False y (d\<lparr>at := start_len gaptype pre + Suc p * slen\<rparr>)"
    using geom_slot [OF h g gap2 t s l, of x "geom_mfm x" "min (int (base + k)) (geom_base x)"] Suc.prems(2-5) k(3)
    by (simp add: slot_step y_def slen_def [symmetric])
  also have "\<dots> = (y\<lparr>geom_base := int base, geom_sectors := geom_sectors y + int (length ps - Suc p)\<rparr>, d\<lparr>at := c_bpt d\<rparr>)"
  proof (rule Suc.hyps(1))
    show "geom_base y = int base \<or> (\<exists>k<length ps. k = 0 \<and> Suc p \<le> ps ! k)"
    proof (cases "geom_base x = int base \<or> k = 0")
      case True
      then show ?thesis using Suc.prems(4) by (auto simp: y_def)
    next
      case False
      then have "0 < length ps" "p \<le> ps ! 0" using Suc.prems(6) by auto
      moreover have "ps ! 0 \<noteq> p" using False k(1,2) f by (metis formatted_def nth_eq_iff_index_eq \<open>0 < length ps\<close>)
      ultimately show ?thesis by auto
    qed
  qed (use Suc.hyps(2) Suc.prems in \<open>auto simp: y_def\<close>)
  finally show ?case using \<open>p < length ps\<close> Suc.prems(2,4) by (cases x) (simp add: y_def)
qed

lemma guess_formatted:
  assumes f: "formatted gaptype sd trk base sector_length ps pre dat (DISK_SET_TRACK sd trk d)" and g: "gap_ok (gaps ! gaptype)"
    and gap2: "len (gaps ! gaptype) ! 2 > 0" and n: "0 < length ps"
    and r: "base + length ps \<le> 256" and t: "trk < 256" and l: "calc_lenid sector_length < 256"
  shows "guess_track_geom sd trk d =
     (\<lparr>geom_base = int base, geom_sectors = int (length ps), geom_seclen = int (calc_lenid sector_length),
       geom_mfm = if gap (gaps ! gaptype) = 0x4e then 1 else 0, oddities = 0\<rparr>,
      (DISK_SET_TRACK sd trk d)\<lparr>at := c_bpt (DISK_SET_TRACK sd trk d)\<rparr>)"
proof -
  define e where "e = DISK_SET_TRACK sd trk d"
  define slen where "slen = calc_sectorlen sector_length gaptype"
  define m :: int where "m = (if gap (gaps ! gaptype) = 0x4e then 1 else 0)"
  note f = f [folded e_def]
  define x where "x = \<lparr>geom_base = -1, geom_sectors = 0, geom_seclen = -1, geom_mfm = -1, oddities = 0\<rparr>"
  have "id_scan False (e\<lparr>at := 0\<rparr>) = id_scan False (e\<lparr>at := start_len gaptype pre\<rparr>)" using f g by (intro track_start_skipped) (simp_all add: formatted_def Let_def)
  from track_geom_loop_skip [OF this] have 1: "guess_track_geom sd trk d = track_geom_loop trk False x (e\<lparr>at := start_len gaptype pre\<rparr>)"
    by (simp add: guess_track_geom_def x_def e_def)
  obtain k where k: "k < length ps" "ps ! k = 0" "length (dat k) = sector_length"
    and h: "holds e (start_len gaptype pre + 0 * slen) (sector_cells gaptype sd trk (base + k) (calc_lenid sector_length) (dat k))"
    using formatted_slot [OF f n] unfolding slen_def by blast
  have s: "base + k < 256" using k(1) r by simp
  define y where "y = \<lparr>geom_base = int (base + k), geom_sectors = 1, geom_seclen = int (calc_lenid sector_length), geom_mfm = m, oddities = 0\<rparr>"
  have 2: "track_geom_loop trk False x (e\<lparr>at := start_len gaptype pre\<rparr>) = track_geom_loop trk False y (e\<lparr>at := start_len gaptype pre + 1 * slen\<rparr>)"
    using geom_slot [OF h g gap2 t s l, of x m "int (base + k)"] k(3) by (simp add: x_def y_def m_def slen_def)
  have "geom_base y = int base \<or> (\<exists>k<length ps. k = 0 \<and> 1 \<le> ps ! k)"
  proof (cases "k = 0")
    case False
    then have "ps ! 0 \<noteq> 0" using k(1,2) f n by (metis formatted_def nth_eq_iff_index_eq)
    then show ?thesis using n by auto
  qed (simp add: y_def)
  moreover have n1: "int (length ps) = 1 + int (length ps - Suc 0)" using n by (cases ps) simp_all
  ultimately
  have "track_geom_loop trk False y (e\<lparr>at := start_len gaptype pre + 1 * slen\<rparr>) =
    (y\<lparr>geom_base := int base, geom_sectors := geom_sectors y + int (length ps - 1)\<rparr>, e\<lparr>at := c_bpt e\<rparr>)"
    using geom_slots [OF f g gap2 r t l, of 1 y] n n1 [symmetric] by (simp add: y_def m_def slen_def)
  then show ?thesis using 1 2 n1 [symmetric] by (simp add: y_def m_def e_def)
qed

end
