(* ===== verification/Disk_Images.thy ===== *)
theory Disk_Images
  imports Disk_Layout Expressions
begin

text \<open>
  The image formats of \<open>peripherals/disk/disk.c\<close> that hold the sectors of a disk and little else: \<open>IMG\<close>, \<open>MGT\<close>,
  \<open>OPD\<close>, \<open>SAD\<close>, \<open>D40\<close>/\<open>D80\<close> and the writer of \<open>TRD\<close>, with the functions that choose them,
  \<open>disk_open_buffer\<close> and \<open>disk_write\<close>.
\<close>

section \<open>Making the tracks of an image\<close>

definition NO_AUTOFILL :: int where "NO_AUTOFILL = -1"

text \<open>The tracks \<open>(cylinder, side)\<close> of a disk, side after side in each cylinder or one whole side after the other.\<close>

definition out_out_tracks :: "disk \<Rightarrow> (nat \<times> nat) list" where
  "out_out_tracks d = [(t, h). h \<leftarrow> [0..<sides d], t \<leftarrow> [0..<cylinders d]]"

primrec gen_tracks :: "nat \<Rightarrow> nat \<Rightarrow> nat \<Rightarrow> bool \<Rightarrow> nat \<Rightarrow> nat \<Rightarrow> int \<Rightarrow> (nat \<times> nat) list \<Rightarrow> buffer \<Rightarrow> disk \<Rightarrow> bool \<times> buffer \<times> disk" where
  "gen_tracks base n sector_length preindex gaptype interleave autofill [] b d = (False, b, d)"
| "gen_tracks base n sector_length preindex gaptype interleave autofill (th # ths) b d =
    (case trackgen (snd th) (fst th) base n sector_length preindex gaptype interleave autofill b d of
       (True, b, d) \<Rightarrow> (True, b, d)
     | (False, b, d) \<Rightarrow> gen_tracks base n sector_length preindex gaptype interleave autofill ths b d)"

definition image_status :: "bool \<times> buffer \<times> disk \<Rightarrow> disk" where
  "image_status r = (case r of (e, b, d) \<Rightarrow> d\<lparr>status := if e then DISK_GEOM else DISK_OK\<rparr>)"

definition img_geometry :: "nat \<Rightarrow> (nat \<times> nat \<times> nat \<times> nat) option" where
  "img_geometry n =
    (if n = 2*80*10*512 then Some (2, 80, 10, 512) else if n = 1*80*10*512 then Some (1, 80, 10, 512)
     else if n = 1*40*10*512 then Some (1, 40, 10, 512) else if n = 1*40*18*256 then Some (1, 40, 18, 256)
     else if n = 1*80*18*256 then Some (1, 80, 18, 256) else if n = 2*80*18*256 then Some (2, 80, 18, 256) else None)"

definition open_img_mgt_opd :: "buffer \<Rightarrow> disk \<Rightarrow> disk" where
  "open_img_mgt_opd b d =
    (case img_geometry (length (content b)) of
       None \<Rightarrow> d\<lparr>status := DISK_GEOM\<rparr>
     | Some (s, c, n, l) \<Rightarrow>
         let d = disk_alloc (d\<lparr>sides := s, cylinders := c, density := DISK_DD\<rparr>); b = b\<lparr>index := 0\<rparr> in
         if status d \<noteq> DISK_OK then d
         else image_status
           (if disk_type d = DISK_IMG
            then gen_tracks 1 n l False GAP_MGT_PLUSD NO_INTERLEAVE NO_AUTOFILL (out_out_tracks d) b d
            else gen_tracks (if disk_type d = DISK_MGT then 1 else 0) n l False GAP_MGT_PLUSD
                   (if disk_type d = DISK_MGT then NO_INTERLEAVE else INTERLEAVE_OPUS) NO_AUTOFILL (disk_tracks d) b d))"

text \<open>\<open>GEOM_CHECK\<close> of the code.\<close>

definition geom_fails :: "disk \<Rightarrow> bool" where
  "geom_fails d \<longleftrightarrow> sides d < 1 \<or> sides d > 2 \<or> cylinders d < 1 \<or> cylinders d > 86"

text \<open>The header is read without a test of the length of the file: \<open>None\<close> when it is longer than the file.\<close>

definition open_sad :: "bool \<Rightarrow> buffer \<Rightarrow> disk \<Rightarrow> disk option" where
  "open_sad preindex b d =
    (if buffavail b < 22 then None
     else Some (let at = (\<lambda>k. unat (content b ! (index b + k)));
         d = d\<lparr>sides := at 18, cylinders := at 19\<rparr> in
     if geom_fails d then d\<lparr>status := DISK_GEOM\<rparr>
     else let n = at 20; l = at 21 * 64; d = disk_alloc (d\<lparr>density := DISK_DD\<rparr>) in
          if status d \<noteq> DISK_OK then d
          else image_status (gen_tracks 1 n l preindex GAP_MGT_PLUSD NO_INTERLEAVE NO_AUTOFILL (out_out_tracks d) (b\<lparr>index := 22\<rparr>) d)))"

definition open_d40_d80 :: "buffer \<Rightarrow> disk \<Rightarrow> disk" where
  "open_d40_d80 b d =
    (if buffavail b < 180 then d\<lparr>status := DISK_OPEN\<rparr>
     else let at = (\<lambda>k. content b ! (index b + k));
              d = d\<lparr>sides := if at 0xb1 AND 0x10 \<noteq> 0 then 2 else 1, cylinders := unat (at 0xb2)\<rparr>; n = unat (at 0xb3) in
          if sides d < 1 \<or> sides d > 2 \<or> cylinders d > 83 \<or> n > 127 then d\<lparr>status := DISK_GEOM\<rparr>
          else let d = disk_alloc (d\<lparr>density := DISK_DD\<rparr>) in
               if status d \<noteq> DISK_OK then d
               else image_status (gen_tracks 1 n 512 False GAP_MGT_PLUSD NO_INTERLEAVE NO_AUTOFILL (disk_tracks d) (b\<lparr>index := 0\<rparr>) d))"

section \<open>Writing an image\<close>

primrec save_tracks :: "nat \<Rightarrow> nat \<Rightarrow> nat \<Rightarrow> (nat \<times> nat) list \<Rightarrow> disk \<Rightarrow> out_file \<Rightarrow> bool \<times> disk \<times> out_file" where
  "save_tracks base n seclen [] d f = (False, d, f)"
| "save_tracks base n seclen (th # ths) d f =
    (case savetrack (snd th) (fst th) base n seclen d f of
       (True, d, f) \<Rightarrow> (True, d, f) | (False, d, f) \<Rightarrow> save_tracks base n seclen ths d f)"

definition saved_status :: "disk_error \<Rightarrow> bool \<times> disk \<times> out_file \<Rightarrow> disk \<times> out_file" where
  "saved_status err r = (case r of (e, d, f) \<Rightarrow> (d\<lparr>status := if e then err else DISK_OK\<rparr>, f))"

text \<open>The formats drop the unformatted cylinders at the end of the disk.\<close>

definition used_cylinders :: "disk_geom \<Rightarrow> disk \<Rightarrow> nat" where
  "used_cylinders g d = (if unf g = -1 then cylinders d else nat (unf g))"

definition write_img_mgt_opd :: "disk \<Rightarrow> out_file \<Rightarrow> disk \<times> out_file" where
  "write_img_mgt_opd d f =
    (case check_disk_geom d of (g, d) \<Rightarrow>
       let c = used_cylinders g d; n = nat (geom_sectors g); l = nat (geom_seclen g) in
       if oddities g \<noteq> 0 \<or> (disk_type d \<noteq> DISK_OPD \<and> (geom_base g \<noteq> 1 \<or> geom_seclen g \<noteq> 2 \<or> geom_sectors g \<noteq> 10))
         \<or> (disk_type d = DISK_OPD \<and> (geom_base g \<noteq> 0 \<or> geom_seclen g \<noteq> 1 \<or> geom_sectors g \<noteq> 18)) \<or> c \<noteq> 40 \<and> c \<noteq> 80
       then (d\<lparr>status := DISK_GEOM\<rparr>, f)
       else saved_status DISK_GEOM
         (if disk_type d = DISK_IMG then save_tracks 1 n l (out_out_tracks (d\<lparr>cylinders := c\<rparr>)) d f
          else save_tracks (if disk_type d = DISK_MGT then 1 else 0) n l (disk_tracks (d\<lparr>cylinders := c\<rparr>)) d f))"

definition write_d40_d80 :: "disk \<Rightarrow> out_file \<Rightarrow> disk \<times> out_file" where
  "write_d40_d80 d f =
    (case check_disk_geom d of (g, d) \<Rightarrow>
       let c = used_cylinders g d in
       if oddities g \<noteq> 0 \<or> geom_base g \<noteq> 1 \<or> (disk_type d = DISK_D40 \<and> c > 43 \<or> disk_type d = DISK_D80 \<and> c > 83)
       then (d\<lparr>status := DISK_GEOM\<rparr>, f)
       else saved_status DISK_GEOM (save_tracks 1 (nat (geom_sectors g)) (nat (geom_seclen g)) (disk_tracks (d\<lparr>cylinders := c\<rparr>)) d f))"

definition write_trd :: "disk \<Rightarrow> out_file \<Rightarrow> disk \<times> out_file" where
  "write_trd d f =
    (case check_disk_geom d of (g, d) \<Rightarrow>
       if oddities g \<noteq> 0 \<or> geom_base g \<noteq> 1 \<or> geom_seclen g \<noteq> 1 \<or> geom_sectors g \<noteq> 16
       then (d\<lparr>status := DISK_GEOM\<rparr>, f)
       else saved_status DISK_GEOM (save_tracks 1 16 1 (disk_tracks (d\<lparr>cylinders := used_cylinders g d\<rparr>)) d f))"

definition sad_signature :: "u8 list" where
  "sad_signature = map (of_nat \<circ> of_char) ''Aley's disk backup''"

definition write_sad :: "disk \<Rightarrow> out_file \<Rightarrow> disk \<times> out_file" where
  "write_sad d f =
    (case check_disk_geom d of (g, d) \<Rightarrow>
       if oddities g \<noteq> 0 \<or> geom_base g \<noteq> 1 then (d\<lparr>status := DISK_GEOM\<rparr>, f)
       else let c = used_cylinders g d in
            case fwrite (sad_signature @ [of_nat (sides d), of_nat c, of_int (geom_sectors g), of_int (geom_seclen g * 4)]) f of
              (False, f) \<Rightarrow> (d\<lparr>status := DISK_WRPART\<rparr>, f)
            | (True, f) \<Rightarrow> saved_status DISK_GEOM
                (save_tracks 1 (nat (geom_sectors g)) (nat (geom_seclen g)) (out_out_tracks (d\<lparr>cylinders := c\<rparr>)) d f))"

section \<open>Opening and writing by type\<close>

text \<open>
  What \<open>libspectrum\<close> says the file is. The formats \<open>UDI\<close>, \<open>TRD\<close>, \<open>FDI\<close>, \<open>CPC\<close>, \<open>SCL\<close> and \<open>TD0\<close> are not in
  this type; \<open>ID_OTHER\<close> is a file that is no disk image.
\<close>

datatype libspectrum_id = ID_DISK_OPD | ID_DISK_MGT | ID_DISK_IMG | ID_DISK_SAD | ID_DISK_D80 | ID_OTHER

definition disk_open_buffer :: "libspectrum_id \<Rightarrow> bool \<Rightarrow> bool \<Rightarrow> buffer \<Rightarrow> disk \<Rightarrow> disk option" where
  "disk_open_buffer ty access_ok preindex b d =
    (let d = d\<lparr>wrprot := \<not> access_ok, disk_type := DISK_TYPE_NONE\<rparr>;
         r = (case ty of
                ID_DISK_OPD \<Rightarrow> Some (open_img_mgt_opd b (d\<lparr>disk_type := DISK_OPD\<rparr>))
              | ID_DISK_MGT \<Rightarrow> Some (open_img_mgt_opd b (d\<lparr>disk_type := DISK_MGT\<rparr>))
              | ID_DISK_IMG \<Rightarrow> Some (open_img_mgt_opd b (d\<lparr>disk_type := DISK_IMG\<rparr>))
              | ID_DISK_SAD \<Rightarrow> open_sad preindex b (d\<lparr>disk_type := DISK_SAD\<rparr>)
              | ID_DISK_D80 \<Rightarrow> Some (open_d40_d80 b (d\<lparr>disk_type := DISK_D80\<rparr>))
              | ID_OTHER \<Rightarrow> Some (d\<lparr>status := DISK_OPEN\<rparr>)) in
     case r of
       None \<Rightarrow> None
     | Some d \<Rightarrow> Some (if status d \<noteq> DISK_OK then d else (update_tracks_mode (d\<lparr>dirty := False\<rparr>))\<lparr>status := DISK_OK\<rparr>))"

record disk_position_context_t =
  ctx_track :: nat
  ctx_clocks :: nat
  ctx_fm :: nat
  ctx_weak :: nat
  ctx_i :: nat
  ctx_c_bpt :: nat

definition position_context_save :: "disk \<Rightarrow> disk_position_context_t" where
  "position_context_save d =
    \<lparr>ctx_track = track d, ctx_clocks = clocks d, ctx_fm = fm d, ctx_weak = weak d, ctx_i = at d, ctx_c_bpt = c_bpt d\<rparr>"

definition position_context_restore :: "disk_position_context_t \<Rightarrow> disk \<Rightarrow> disk" where
  "position_context_restore c d =
    d\<lparr>track := ctx_track c, clocks := ctx_clocks c, fm := ctx_fm c, weak := ctx_weak c, c_bpt := ctx_c_bpt c, at := ctx_i c\<rparr>"

text \<open>The type that the extension of a file name stands for.\<close>

definition type_of_name :: "string \<Rightarrow> disk_type_t" where
  "type_of_name filename =
    (let ext = (if length filename < 4 then [] else drop (length filename - 4) filename) in
     if same_name ext ''.udi'' then DISK_UDI else if same_name ext ''.dsk'' then DISK_CPC
     else if same_name ext ''.mgt'' then DISK_MGT else if same_name ext ''.opd'' \<or> same_name ext ''.opu'' then DISK_OPD
     else if same_name ext ''.img'' then DISK_IMG else if same_name ext ''.trd'' then DISK_TRD
     else if same_name ext ''.sad'' then DISK_SAD else if same_name ext ''.fdi'' then DISK_FDI
     else if same_name ext ''.d40'' then DISK_D40 else if same_name ext ''.d80'' then DISK_D80
     else if same_name ext ''.scl'' then DISK_SCL else if same_name ext ''.td0'' then DISK_TD0
     else if same_name ext ''.log'' then DISK_LOG else DISK_UDI)"

text \<open>\<open>None\<close> for the formats whose writers are not here. The file may not open, or may not close.\<close>

definition write_image :: "disk \<Rightarrow> out_file \<Rightarrow> (disk \<times> out_file) option" where
  "write_image d f =
    (if disk_type d \<in> {DISK_IMG, DISK_MGT, DISK_OPD} then Some (write_img_mgt_opd d f)
     else if disk_type d \<in> {DISK_D40, DISK_D80} then Some (write_d40_d80 d f)
     else if disk_type d = DISK_TRD then Some (write_trd d f)
     else if disk_type d = DISK_SAD then Some (write_sad d f)
     else if disk_type d \<in> {DISK_UDI, DISK_FDI, DISK_SCL, DISK_CPC, DISK_LOG} then None
     else Some (d\<lparr>status := DISK_WRFILE\<rparr>, f))"

definition disk_write :: "string \<Rightarrow> bool \<Rightarrow> bool \<Rightarrow> disk \<Rightarrow> out_file \<Rightarrow> (disk \<times> out_file) option" where
  "disk_write filename opens closes d f =
    (if \<not> opens then Some (d\<lparr>status := DISK_WRFILE\<rparr>, f)
     else let d = (if disk_type d = DISK_TYPE_NONE then d\<lparr>disk_type := type_of_name filename\<rparr> else d);
              ctx = position_context_save d in
          case write_image (update_tracks_mode d) f of
            None \<Rightarrow> None
          | Some (d, f) \<Rightarrow>
              let d = position_context_restore ctx d in
              Some (if status d \<noteq> DISK_OK then d else d\<lparr>status := if closes then DISK_OK else DISK_WRFILE\<rparr>, f))"

end
