(* ===== verification/Disk_Whole.thy ===== *)
theory Disk_Whole
  imports Disk_Images
begin

text \<open>
  All tracks of a disk: a track that fits is always made, the records of the tracks keep apart, a new disk filled
  from a file holds the parts of the file track by track, and reading it back in the same order gives the file.
\<close>

section \<open>A track that fits is always made\<close>

lemma gap_add_succeeds: "at d + len (gaps ! gaptype) ! k < c_bpt d \<Longrightarrow> \<exists>d'. gap_add k gaptype d = (False, d')"
  by (simp add: gap_add_def Let_def)

lemma id_add_succeeds:
  assumes o: "on_track d" and r: "at d + header_len gaptype + len (gaps ! gaptype) ! 2 < c_bpt d"
  shows "\<exists>d'. id_add h t s l gaptype e d = (False, d')"
proof -
  define g where "g = gaps ! gaptype"
  define d1 where "d1 = mark_add g 0xfe (sync_add g d)"
  define d2 where "d2 = foldl (\<lambda>d b. add_byte b d) d1 (id_bytes g h t s l e)"
  note r = r [unfolded header_len_def Let_def, folded g_def]
  have 1: "wrote (sync_cells g @ [(0xfe, mark g < 0)]) d d1" unfolding d1_def using o r by (intro wrote_sync_mark) simp_all
  note f1 = wrote_fields [OF 1]
  have 2: "wrote (plain (id_bytes g h t s l e)) d1 d2" unfolding d2_def using o r f1 by (intro wrote_bytes) simp_all
  note f2 = wrote_fields [OF 2]
  have "id_add h t s l gaptype e d = gap_add 2 gaptype d2"
    using r by (simp add: id_add_def Let_def d1_def d2_def id_bytes_def flip: g_def)
  moreover have "\<exists>d'. gap_add 2 gaptype d2 = (False, d')" using f1 f2 r by (intro gap_add_succeeds) (simp flip: g_def)
  ultimately show ?thesis by simp
qed

lemma data_add_succeeds:
  assumes o: "on_track d" and g: "g = gaps ! gaptype" and b: "index b \<le> length (content b)" "n \<le> buffavail b \<or> 0 \<le> autofill"
    and r: "at d + len g ! 2 + sync_len g + mark_len g + 1 < c_bpt d" "at d + sync_len g + mark_len g + 1 + n + 2 + len g ! 3 < c_bpt d"
  shows "\<exists>b' d'. data_add (Some b) [] (int n) ddam gaptype e autofill d = (False, b', d')"
proof -
  define d1 where "d1 = mark_add g (if ddam then 0xf8 else 0xfb) (sync_add g d)"
  have 1: "datamark_add ddam gaptype d = (False, d1)" using r by (simp add: datamark_add_def d1_def Let_def flip: g)
  note f1 = wrote_fields [OF datamark_add_wrote [OF o 1], folded g, simplified]
  obtain bs b' where bs: "sector_source (Some b) [] n = (bs, b')" by fastforce
  have l: "length bs = min (buffavail b) n"
    using bs b by (auto simp: sector_source_def buffread_def buffavail_def)
  have m: "at (memcpy k xs x) = at x" "track (memcpy k xs x) = track x" "c_bpt (memcpy k xs x) = c_bpt x"
    "at (memset k y i x) = at x" "c_bpt (memset k y i x) = c_bpt x" "c_bpt (add_byte y x) = c_bpt x" "at (add_byte y x) = at x + 1" for k xs x y i
    by (simp_all add: memcpy_def memset_def add_byte_def put_def)
  define xs where "xs = bs @ replicate (n - length bs) (of_int autofill :: u8)"
  define crc where "crc = data_crc g ddam xs e"
  define d2 where "d2 = memset (track (memcpy (track d1 + at d1) bs d1) + at (memcpy (track d1 + at d1) bs d1) + length bs)
    (of_int autofill) (n - length bs) (memcpy (track d1 + at d1) bs d1)"
  define d3 where "d3 = add_byte (lo crc) (add_byte (hi crc) (d2\<lparr>at := at d2 + n\<rparr>))"
  have c: "(int n < 0) = False" "(int (at d1) + int n + 2 \<ge> int (c_bpt d1)) = False" "(length bs < n \<and> autofill < 0) = False"
    using r f1 l b by auto
  have "data_add (Some b) [] (int n) ddam gaptype e autofill d = (case gap_add 3 gaptype d3 of (e, d) \<Rightarrow> (e, b', d))"
    unfolding data_add_def Let_def 1 prod.case bool.case nat_int bs d3_def crc_def data_crc_def xs_def d2_def g c if_False by (rule refl)
  moreover have "\<exists>d'. gap_add 3 gaptype d3 = (False, d')"
    using r f1 by (intro gap_add_succeeds) (simp add: d3_def d2_def m flip: g)
  ultimately show ?thesis by auto
qed

lemma sectors_add_succeeds:
  assumes "on_track d" "index b \<le> length (content b)" "length ss * sector_length \<le> buffavail b \<or> 0 \<le> autofill"
    and "\<forall>p\<in>set (slots n interleave (length ss) pi). p < n" "idx + n * calc_sectorlen sector_length gaptype < c_bpt d"
    and "len (gaps ! gaptype) ! 2 \<le> len (gaps ! gaptype) ! 3"
  shows "\<exists>b' d'. sectors_add sd trk n sector_length gaptype interleave autofill idx ss pi b d = (False, b', d')"
  using assms
proof (induction ss arbitrary: pi b d)
  case (Cons s ss)
  define g where "g = gaps ! gaptype"
  define slen where "slen = calc_sectorlen sector_length gaptype"
  define e where "e = d\<lparr>at := idx + fst pi * slen\<rparr>"
  have sl: "slen = header_len gaptype + len g ! 2 + (sync_len g + mark_len g + 1) + sector_length + 2 + len g ! 3"
    by (simp add: slen_def calc_sectorlen_def header_len_def g_def Let_def)
  have "(fst pi + 1) * slen \<le> n * slen" using Cons.prems(4) by (intro mult_le_mono1) simp
  then have r: "idx + fst pi * slen + slen < c_bpt d" using Cons.prems(5) unfolding slen_def by simp
  have oe: "on_track e" "c_bpt e = c_bpt d" "at e = idx + fst pi * slen" using Cons.prems by (simp_all add: e_def)
  have ls: "sector_length \<le> buffavail b \<or> 0 \<le> autofill" using Cons.prems(3) by (auto simp: add_leD1)
  obtain d1 where 1: "id_add sd trk s (calc_lenid sector_length) gaptype False e = (False, d1)"
    using id_add_succeeds [OF oe(1)] r oe sl unfolding g_def by fastforce
  have f: "at d1 = at e + header_len gaptype + len g ! 2" "c_bpt d1 = c_bpt e" "on_track d1"
    using wrote_fields [OF id_add_wrote [OF oe(1) 1]] oe by (simp_all add: header_len_def g_def Let_def)
  have "\<exists>b1 d2. data_add (Some b) [] (int sector_length) False gaptype False autofill d1 = (False, b1, d2)"
  proof (rule data_add_succeeds [OF f(3) g_def Cons.prems(2) ls])
    show "at d1 + len g ! 2 + sync_len g + mark_len g + 1 < c_bpt d1" using r sl f oe Cons.prems(6) by (simp flip: g_def)
    show "at d1 + sync_len g + mark_len g + 1 + sector_length + 2 + len g ! 3 < c_bpt d1" using r sl f oe by simp
  qed
  then obtain b1 d2 where 2: "data_add (Some b) [] (int sector_length) False gaptype False autofill d1 = (False, b1, d2)" by blast
  note w = sector_add_wrote [OF oe(1) Cons.prems(2) 1 2]
  note fw = wrote_fields [OF w(1)]
  have "\<exists>b' d'. sectors_add sd trk n sector_length gaptype interleave autofill idx ss (next_slot n interleave pi) (the b1) d2 = (False, b', d')"
  proof (rule Cons.IH)
    show "on_track d2" "index (the b1) \<le> length (content (the b1))" "\<forall>p\<in>set (slots n interleave (length ss) (next_slot n interleave pi)). p < n"
      "idx + n * calc_sectorlen sector_length gaptype < c_bpt d2" "len (gaps ! gaptype) ! 2 \<le> len (gaps ! gaptype) ! 3"
      using Cons.prems w(2) fw oe by simp_all
    show "length ss * sector_length \<le> buffavail (the b1) \<or> 0 \<le> autofill"
      using Cons.prems(2,3) w(2) by (auto simp: buffavail_def file_rest_def)
  qed
  then show ?case using 1 2 by (simp add: e_def slen_def Let_def)
qed simp

lemma trackgen_succeeds:
  assumes b: "index b \<le> length (content b)" "n * sector_length \<le> buffavail b \<or> 0 \<le> autofill"
    and r: "start_len gaptype preindex + n * calc_sectorlen sector_length gaptype < c_bpt (DISK_SET_TRACK sd trk d)"
    and ps: "\<forall>p\<in>set (slots n interleave n (0, 0)). p < n" and g: "len (gaps ! gaptype) ! 2 \<le> len (gaps ! gaptype) ! 3"
  shows "\<exists>b' d'. trackgen sd trk base n sector_length preindex gaptype interleave autofill b d = (False, b', d')"
proof -
  define d0 where "d0 = (DISK_SET_TRACK sd trk d)\<lparr>at := 0\<rparr>"
  define g where "g = gaps ! gaptype"
  have o: "on_track d0" "at d0 = 0" "c_bpt d0 = c_bpt (DISK_SET_TRACK sd trk d)" by (simp_all add: d0_def)
  have sl: "start_len gaptype preindex = (if preindex then preindex_len gaptype else 0) + len g ! 1"
    by (simp add: start_len_def start_cells_def preindex_len_def g_def Let_def)
  have "\<exists>d1. (if preindex then preindex_add gaptype d0 else (False, d0)) = (False, d1)"
  proof (cases preindex)
    case True
    have "\<exists>d1. gap_add 0 gaptype d0 = (False, d1)"
      using r o sl True by (intro gap_add_succeeds) (simp add: preindex_len_def Let_def)
    then show ?thesis using r o sl True by (auto simp: preindex_add_def Let_def)
  qed simp
  then obtain d1 where 1: "(if preindex then preindex_add gaptype d0 else (False, d0)) = (False, d1)" by blast
  define pre where "pre = (if preindex then gap_cells g 0 @ sync_cells g @ [(0xfc, mark g < 0)] else [])"
  have w1: "wrote pre d0 d1" using 1 preindex_wrote [OF o(1), of gaptype d1] o by (auto simp: pre_def g_def wrote_nothing split: if_splits)
  note f1 = wrote_fields [OF w1]
  have lp: "length pre = (if preindex then preindex_len gaptype else 0)" by (simp add: pre_def preindex_len_def g_def Let_def)
  have "\<exists>d2. postindex_add gaptype d1 = (False, d2)"
    using r f1 o sl lp unfolding postindex_add_def by (intro gap_add_succeeds) (simp flip: g_def)
  then obtain d2 where 2: "postindex_add gaptype d1 = (False, d2)" by blast
  have "wrote (gap_cells g 1) d1 d2" unfolding g_def using 2 f1 o by (intro gap_add_wrote) (simp_all add: postindex_add_def)
  note f2 = wrote_fields [OF this]
  have idx: "at d2 = start_len gaptype preindex" "c_bpt d2 = c_bpt d0" "on_track d2" using f1 f2 o sl lp by simp_all
  have "\<exists>b3 d3. sectors_add sd trk n sector_length gaptype interleave autofill (at d2) [base..<base + n] (0, 0) b d2 = (False, b3, d3)"
    using assms idx o by (intro sectors_add_succeeds) simp_all
  then obtain b3 d3 where 3: "sectors_add sd trk n sector_length gaptype interleave autofill (at d2) [base..<base + n] (0, 0) b d2 = (False, b3, d3)" by blast
  have c3: "c_bpt d3 = c_bpt d2" using same_place_fields [OF sectors_add_same_place [OF 3 idx(3) b(1)]] by simp
  then have "\<exists>d'. gap4_add gaptype (d3\<lparr>at := at d2 + n * calc_sectorlen sector_length gaptype\<rparr>) = (False, d')"
    using r idx o by (simp add: gap4_add_def)
  then show ?thesis using 1 2 3 by (auto simp: trackgen_def Let_def d0_def)
qed

section \<open>All tracks of a disk\<close>

definition record_len :: "disk \<Rightarrow> nat \<Rightarrow> nat" where
  "record_len d k = 3 + c_bpt (DISK_SET_TRACK_IDX k d) + 3 * DISK_CLEN (c_bpt (DISK_SET_TRACK_IDX k d))"

text \<open>Every record has its place.\<close>

definition wf_disk :: "disk \<Rightarrow> bool" where
  "wf_disk d \<longleftrightarrow> (\<forall>k < sides d * cylinders d. record_len d k \<le> tlen d)"

definition agree_record :: "nat \<Rightarrow> disk \<Rightarrow> disk \<Rightarrow> bool" where
  "agree_record k d d' \<longleftrightarrow> tlen d' = tlen d \<and> (\<forall>x. k * tlen d \<le> x \<and> x < k * tlen d + record_len d k \<longrightarrow> disk_data d' x = disk_data d x)"

lemma set_track_fields:
  "track (DISK_SET_TRACK_IDX k d) = 3 + k * tlen d" "disk_data (DISK_SET_TRACK_IDX k d) = disk_data d"
  "c_bpt (DISK_SET_TRACK_IDX k d) = unat (disk_data d (k * tlen d)) + 256 * unat (disk_data d (k * tlen d + 1))"
  "clocks (DISK_SET_TRACK_IDX k d) = 3 + k * tlen d + c_bpt (DISK_SET_TRACK_IDX k d)"
  "fm (DISK_SET_TRACK_IDX k d) = 3 + k * tlen d + c_bpt (DISK_SET_TRACK_IDX k d) + DISK_CLEN (c_bpt (DISK_SET_TRACK_IDX k d))"
  "weak (DISK_SET_TRACK_IDX k d) = 3 + k * tlen d + c_bpt (DISK_SET_TRACK_IDX k d) + 2 * DISK_CLEN (c_bpt (DISK_SET_TRACK_IDX k d))"
  "tlen (DISK_SET_TRACK_IDX k d) = tlen d" "sides (DISK_SET_TRACK_IDX k d) = sides d" "cylinders (DISK_SET_TRACK_IDX k d) = cylinders d"
  "bpt (DISK_SET_TRACK_IDX k d) = bpt d" "density (DISK_SET_TRACK_IDX k d) = density d" "disk_type (DISK_SET_TRACK_IDX k d) = disk_type d"
  "status (DISK_SET_TRACK_IDX k d) = status d" "at (DISK_SET_TRACK_IDX k d) = at d"
  by (simp_all add: DISK_SET_TRACK_IDX_def Let_def)

lemma agree_record_c_bpt: "agree_record k d d' \<Longrightarrow> c_bpt (DISK_SET_TRACK_IDX k d') = c_bpt (DISK_SET_TRACK_IDX k d)"
proof -
  assume a: "agree_record k d d'"
  have "3 \<le> record_len d k" by (simp add: record_len_def)
  then have "disk_data d' (k * tlen d + j) = disk_data d (k * tlen d + j)" if "j < 3" for j
    using a that by (simp add: agree_record_def)
  from this [of 0] this [of 1] a show ?thesis by (simp add: agree_record_def set_track_fields(3))
qed

lemma agree_record_view:
  assumes a: "agree_record k d d'" and j: "j < c_bpt (DISK_SET_TRACK_IDX k d)"
  shows "track_byte (DISK_SET_TRACK_IDX k d') j = track_byte (DISK_SET_TRACK_IDX k d) j"
    "clock_mark (DISK_SET_TRACK_IDX k d') j = clock_mark (DISK_SET_TRACK_IDX k d) j"
proof -
  note c = agree_record_c_bpt [OF a]
  have "3 + k * tlen d + j < k * tlen d + record_len d k" using j by (simp add: record_len_def)
  then show "track_byte (DISK_SET_TRACK_IDX k d') j = track_byte (DISK_SET_TRACK_IDX k d) j"
    using a by (simp add: track_byte_def set_track_fields(1,2) agree_record_def)
  have "j div 8 < DISK_CLEN (c_bpt (DISK_SET_TRACK_IDX k d))" by (rule div8_lt) fact
  then have "3 + k * tlen d + c_bpt (DISK_SET_TRACK_IDX k d) + j div 8 < k * tlen d + record_len d k" by (simp add: record_len_def)
  then show "clock_mark (DISK_SET_TRACK_IDX k d') j = clock_mark (DISK_SET_TRACK_IDX k d) j"
    using a by (simp add: clock_mark_def bitmap_test_def set_track_fields(2,4) agree_record_def c)
qed

lemma holds_view:
  assumes "c_bpt d' = c_bpt d" "\<And>j. j < c_bpt d \<Longrightarrow> track_byte d' j = track_byte d j \<and> clock_mark d' j = clock_mark d j"
  shows "holds d' k xs = holds d k xs" "j \<le> c_bpt d \<Longrightarrow> clear d' i j = clear d i j"
  using assms by (auto simp: holds_def clear_def)

lemma formatted_view:
  assumes c: "c_bpt d' = c_bpt d" "\<And>j. j < c_bpt d \<Longrightarrow> track_byte d' j = track_byte d j \<and> clock_mark d' j = clock_mark d j"
    and o: "on_track d = on_track d'"
  shows "formatted gaptype sd trk base sector_length ps pre dat d' = formatted gaptype sd trk base sector_length ps pre dat d"
  using holds_view(1) [of d' d, OF c] holds_view(2) [of d' d "c_bpt d", OF c] c(1) o by (simp add: formatted_def Let_def)

lemma formatted_agree:
  "agree_record k d d' \<Longrightarrow> formatted gaptype sd trk base sector_length ps pre dat (DISK_SET_TRACK_IDX k d') =
     formatted gaptype sd trk base sector_length ps pre dat (DISK_SET_TRACK_IDX k d)"
  using agree_record_c_bpt agree_record_view by (intro formatted_view) auto

text \<open>A track is written within its record, after the three bytes of its head and before the FM and weak marks.\<close>

definition region :: "disk \<Rightarrow> nat \<Rightarrow> nat set" where
  "region d k = {track (DISK_SET_TRACK_IDX k d)..<fm (DISK_SET_TRACK_IDX k d)}"

definition wrote_tracks :: "nat set \<Rightarrow> disk \<Rightarrow> disk \<Rightarrow> bool" where
  "wrote_tracks K d d' \<longleftrightarrow> sides d' = sides d \<and> cylinders d' = cylinders d \<and> tlen d' = tlen d \<and> bpt d' = bpt d \<and>
     density d' = density d \<and> disk_type d' = disk_type d \<and> status d' = status d \<and>
     (\<forall>x. (\<forall>k\<in>K. x \<notin> region d k) \<longrightarrow> disk_data d' x = disk_data d x)"

lemma record_disjoint:
  assumes "wf_disk d" "k < sides d * cylinders d" "x \<in> region d k" "i * tlen d \<le> x" "x < i * tlen d + tlen d"
  shows "i = k" "k * tlen d + 3 \<le> x" "x < fm (DISK_SET_TRACK_IDX k d)"
proof -
  have x: "k * tlen d + 3 \<le> x" "x < k * tlen d + tlen d" "x < fm (DISK_SET_TRACK_IDX k d)"
    using assms(1-3) by (auto simp: wf_disk_def region_def set_track_fields record_len_def dest!: spec [of _ k])
  show "k * tlen d + 3 \<le> x" "x < fm (DISK_SET_TRACK_IDX k d)" by fact+
  have "i * tlen d < (k + 1) * tlen d" "k * tlen d < (i + 1) * tlen d" using x assms(4,5) by simp_all
  then have "i < k + 1" "k < i + 1" by (meson mult_less_cancel2)+
  then show "i = k" by simp
qed

lemma wrote_tracks_elsewhere:
  assumes w: "wrote_tracks K d d'" and wf: "wf_disk d" and K: "\<forall>k\<in>K. k < sides d * cylinders d" and i: "i < sides d * cylinders d" "i \<notin> K"
  shows "agree_record i d d'"
proof -
  have "disk_data d' x = disk_data d x" if "i * tlen d \<le> x" "x < i * tlen d + record_len d i" for x
  proof -
    have "x < i * tlen d + tlen d" using wf i(1) that(2) by (auto simp: wf_disk_def dest!: spec [of _ i])
    then have "\<forall>k\<in>K. x \<notin> region d k" using record_disjoint(1) [OF wf _ _ that(1)] K i(2) by blast
    then show ?thesis using w by (simp add: wrote_tracks_def)
  qed
  then show ?thesis using w by (simp add: agree_record_def wrote_tracks_def)
qed

text \<open>The head of a record and its FM and weak marks are never written.\<close>

lemma wrote_tracks_head:
  assumes w: "wrote_tracks K d d'" and wf: "wf_disk d" and K: "\<forall>k\<in>K. k < sides d * cylinders d" and i: "i < sides d * cylinders d"
  shows "c_bpt (DISK_SET_TRACK_IDX i d') = c_bpt (DISK_SET_TRACK_IDX i d)" "region d' i = region d i"
    "j < 3 \<Longrightarrow> disk_data d' (i * tlen d + j) = disk_data d (i * tlen d + j)"
    "fm (DISK_SET_TRACK_IDX i d) \<le> x \<Longrightarrow> x < i * tlen d + record_len d i \<Longrightarrow> disk_data d' x = disk_data d x"
proof -
  have t: "3 \<le> tlen d" "record_len d i \<le> tlen d" using wf i by (auto simp: wf_disk_def record_len_def dest!: spec [of _ i])
  have h: "disk_data d' (i * tlen d + j) = disk_data d (i * tlen d + j)" if "j < 3" for j
  proof -
    have "\<forall>k\<in>K. i * tlen d + j \<notin> region d k"
      using record_disjoint [OF wf, of _ "i * tlen d + j" i] K that t(1) by fastforce
    then show ?thesis using w by (simp add: wrote_tracks_def)
  qed
  then show "j < 3 \<Longrightarrow> disk_data d' (i * tlen d + j) = disk_data d (i * tlen d + j)" .
  have tl: "tlen d' = tlen d" using w by (simp add: wrote_tracks_def)
  show c: "c_bpt (DISK_SET_TRACK_IDX i d') = c_bpt (DISK_SET_TRACK_IDX i d)"
    using h [of 0] h [of 1] by (simp add: set_track_fields tl)
  show "region d' i = region d i" using c by (simp add: region_def set_track_fields(1,5) tl)
  show "disk_data d' x = disk_data d x" if x: "fm (DISK_SET_TRACK_IDX i d) \<le> x" "x < i * tlen d + record_len d i"
  proof -
    have "i * tlen d \<le> x" "x < i * tlen d + tlen d" using x t by (simp_all add: set_track_fields(5))
    then have "\<forall>k\<in>K. x \<notin> region d k" using record_disjoint [OF wf, of _ x i] K x(1) by fastforce
    then show ?thesis using w by (simp add: wrote_tracks_def)
  qed
qed

lemma wrote_tracks_wf: "wrote_tracks K d d' \<Longrightarrow> wf_disk d \<Longrightarrow> \<forall>k\<in>K. k < sides d * cylinders d \<Longrightarrow> wf_disk d'"
  using wrote_tracks_head(1) [of K d d'] by (simp add: wf_disk_def record_len_def wrote_tracks_def)

lemma wrote_tracks_trans:
  assumes "wrote_tracks K d d'" "wrote_tracks L d' d''" "wf_disk d" "\<forall>k\<in>K \<union> L. k < sides d * cylinders d"
  shows "wrote_tracks (K \<union> L) d d''"
proof -
  have "region d' k = region d k" if "k \<in> L" for k using wrote_tracks_head(2) [OF assms(1,3)] assms(4) that by simp
  then show ?thesis using assms(1,2) unfolding wrote_tracks_def by simp
qed

lemma wrote_one_track:
  assumes "same_place (DISK_SET_TRACK_IDX k d) d'" shows "wrote_tracks {k} d d'"
  using assms same_place_fields [OF assms] by (auto simp: wrote_tracks_def region_def set_track_fields same_place_def not_less)

lemma same_place_set_track:
  assumes s: "same_place (DISK_SET_TRACK_IDX k d) d'" and wf: "wf_disk d" "k < sides d * cylinders d"
  shows "DISK_SET_TRACK_IDX k d' = d'"
proof -
  obtain m i where d': "d' = (DISK_SET_TRACK_IDX k d)\<lparr>disk_data := m, at := i\<rparr>" using s unfolding same_place_def by blast
  have "c_bpt (DISK_SET_TRACK_IDX k d') = c_bpt (DISK_SET_TRACK_IDX k d)"
    using wrote_tracks_head(1) [OF wrote_one_track [OF s] wf(1)] wf(2) by simp
  then show ?thesis unfolding d' by (simp add: DISK_SET_TRACK_IDX_def Let_def)
qed

definition tidx :: "disk \<Rightarrow> nat \<times> nat \<Rightarrow> nat" where
  "tidx d th = sides d * fst th + snd th"

lemma set_track_idx: "DISK_SET_TRACK (snd th) (fst th) d = DISK_SET_TRACK_IDX (tidx d th) d"
  by (simp add: DISK_SET_TRACK_def tidx_def)

definition on_disk :: "disk \<Rightarrow> (nat \<times> nat) list \<Rightarrow> bool" where
  "on_disk d ths \<longleftrightarrow> distinct ths \<and> (\<forall>th\<in>set ths. fst th < cylinders d \<and> snd th < sides d)"

lemma tidx_less: "fst th < cylinders d \<Longrightarrow> snd th < sides d \<Longrightarrow> tidx d th < sides d * cylinders d"
proof -
  assume a: "fst th < cylinders d" "snd th < sides d"
  then have "sides d * fst th + sides d \<le> sides d * cylinders d"
    using mult_le_mono2 [of "Suc (fst th)" "cylinders d" "sides d"] by simp
  with a show ?thesis by (simp add: tidx_def)
qed

lemma tidx_inj: "snd th < sides d \<Longrightarrow> snd th' < sides d \<Longrightarrow> tidx d th = tidx d th' \<Longrightarrow> th = th'"
proof -
  assume a: "snd th < sides d" "snd th' < sides d" "tidx d th = tidx d th'"
  from a(1,2) have "tidx d th div sides d = fst th" "tidx d th mod sides d = snd th" "tidx d th' div sides d = fst th'" "tidx d th' mod sides d = snd th'"
    by (simp_all add: tidx_def)
  with a(3) show "th = th'" by (metis prod_eq_iff)
qed

lemma wrote_tracks_nothing: "wrote_tracks {} d d"
  by (simp add: wrote_tracks_def)

lemma blank_view:
  assumes "agree_record k d d'" shows "blank (DISK_SET_TRACK_IDX k d') = blank (DISK_SET_TRACK_IDX k d)"
  using agree_record_c_bpt [OF assms] agree_record_view [OF assms] by (simp add: blank_def clear_def)

text \<open>Making the tracks of an image: all are made, and each holds its part of the file.\<close>

lemma gen_tracks_makes:
  assumes "on_disk d ths" "wf_disk d" "\<forall>th\<in>set ths. blank (DISK_SET_TRACK_IDX (tidx d th) d)"
    and "index b \<le> length (content b)" "length ths * (n * sector_length) \<le> buffavail b \<or> 0 \<le> autofill"
    and "\<forall>th\<in>set ths. start_len gaptype preindex + n * calc_sectorlen sector_length gaptype < c_bpt (DISK_SET_TRACK_IDX (tidx d th) d)"
    and ps: "distinct (slots n interleave n (0, 0))" "\<forall>p\<in>set (slots n interleave n (0, 0)). p < n"
    and g: "gap_ok (gaps ! gaptype)" "len (gaps ! gaptype) ! 2 \<le> len (gaps ! gaptype) ! 3"
  shows "\<exists>b' d'. gen_tracks base n sector_length preindex gaptype interleave autofill ths b d = (False, b', d') \<and>
    wrote_tracks (tidx d ` set ths) d d' \<and>
    (\<forall>j<length ths. formatted gaptype (snd (ths ! j)) (fst (ths ! j)) base sector_length (slots n interleave n (0, 0)) preindex
       (file_chunk (file_rest b (j * (n * sector_length))) autofill sector_length) (DISK_SET_TRACK_IDX (tidx d (ths ! j)) d'))"
  using assms(1-6)
proof (induction ths arbitrary: b d)
  case Nil
  then show ?case by (simp add: wrote_tracks_nothing)
next
  case (Cons th ths)
  define k where "k = tidx d th"
  have k: "k < sides d * cylinders d" using Cons.prems(1) by (simp add: on_disk_def k_def tidx_less)
  have nb: "n * sector_length \<le> buffavail b \<or> 0 \<le> autofill" using Cons.prems(5) by auto
  have r: "start_len gaptype preindex + n * calc_sectorlen sector_length gaptype < c_bpt (DISK_SET_TRACK (snd th) (fst th) d)"
    using Cons.prems(6) by (simp add: set_track_idx)
  obtain b1 d1 where 1: "trackgen (snd th) (fst th) base n sector_length preindex gaptype interleave autofill b d = (False, b1, d1)"
    using trackgen_succeeds [OF Cons.prems(4) nb r ps(2) g(2)] by blast
  have bl: "blank (DISK_SET_TRACK (snd th) (fst th) d)" using Cons.prems(3) by (simp add: set_track_idx)
  note t = trackgen_formats [OF 1 bl Cons.prems(4) g(1) ps]
  have sp: "same_place (DISK_SET_TRACK_IDX k d) d1" using t(2) by (simp add: set_track_idx k_def)
  note w1 = wrote_one_track [OF sp]
  have f: "sides d1 = sides d" "cylinders d1 = cylinders d" "tlen d1 = tlen d" using w1 by (simp_all add: wrote_tracks_def)
  have ti: "tidx d1 = tidx d" by (simp add: tidx_def fun_eq_iff f)
  have K: "\<forall>i\<in>{k}. i < sides d * cylinders d" using k by simp
  have wf1: "wf_disk d1" by (rule wrote_tracks_wf [OF w1 Cons.prems(2) K])
  have other: "agree_record (tidx d th') d d1" if "th' \<in> set ths" for th'
  proof -
    have "tidx d th' \<noteq> k" using that Cons.prems(1) tidx_inj [of th' d th] by (auto simp: on_disk_def k_def)
    moreover have "tidx d th' < sides d * cylinders d" using that Cons.prems(1) by (simp add: on_disk_def tidx_less)
    ultimately show ?thesis using wrote_tracks_elsewhere [OF w1 Cons.prems(2) K] by simp
  qed
  have b1: "b1 = file_rest b (n * sector_length)" by (rule t(3))
  have "\<exists>b' d'. gen_tracks base n sector_length preindex gaptype interleave autofill ths b1 d1 = (False, b', d') \<and>
    wrote_tracks (tidx d1 ` set ths) d1 d' \<and>
    (\<forall>j<length ths. formatted gaptype (snd (ths ! j)) (fst (ths ! j)) base sector_length (slots n interleave n (0, 0)) preindex
       (file_chunk (file_rest b1 (j * (n * sector_length))) autofill sector_length) (DISK_SET_TRACK_IDX (tidx d1 (ths ! j)) d'))"
  proof (rule Cons.IH)
    show "on_disk d1 ths" using Cons.prems(1) by (simp add: on_disk_def f)
    show "wf_disk d1" by (rule wf1)
    show "\<forall>th\<in>set ths. blank (DISK_SET_TRACK_IDX (tidx d1 th) d1)" using Cons.prems(3) blank_view [OF other] by (simp add: ti)
    show "index b1 \<le> length (content b1)" by (simp add: b1)
    show "length ths * (n * sector_length) \<le> buffavail b1 \<or> 0 \<le> autofill"
      using Cons.prems(4,5) by (auto simp: b1 buffavail_def file_rest_def)
    show "\<forall>th\<in>set ths. start_len gaptype preindex + n * calc_sectorlen sector_length gaptype < c_bpt (DISK_SET_TRACK_IDX (tidx d1 th) d1)"
      using Cons.prems(6) agree_record_c_bpt [OF other] by (simp add: ti)
  qed
  then obtain b' d' where 2: "gen_tracks base n sector_length preindex gaptype interleave autofill ths b1 d1 = (False, b', d')"
    and w2: "wrote_tracks (tidx d ` set ths) d1 d'"
    and fm: "\<And>j. j < length ths \<Longrightarrow> formatted gaptype (snd (ths ! j)) (fst (ths ! j)) base sector_length (slots n interleave n (0, 0)) preindex
       (file_chunk (file_rest b1 (j * (n * sector_length))) autofill sector_length) (DISK_SET_TRACK_IDX (tidx d (ths ! j)) d')"
    unfolding ti by blast
  have Ks: "\<forall>k\<in>tidx d ` set ths. k < sides d * cylinders d" using Cons.prems(1) by (auto simp: on_disk_def tidx_less)
  have w: "wrote_tracks (tidx d ` set (th # ths)) d d'"
  proof -
    have "\<forall>i\<in>{k} \<union> tidx d ` set ths. i < sides d * cylinders d" using K Ks by blast
    moreover have "tidx d ` set (th # ths) = {k} \<union> tidx d ` set ths" by (simp add: k_def)
    ultimately show ?thesis using wrote_tracks_trans [OF w1 w2 Cons.prems(2)] by metis
  qed
  have nk: "k \<notin> tidx d ` set ths"
  proof
    assume "k \<in> tidx d ` set ths"
    then obtain th' where "th' \<in> set ths" "tidx d th' = tidx d th" by (auto simp: k_def)
    moreover from this have "th' = th" using Cons.prems(1) by (intro tidx_inj) (simp_all add: on_disk_def)
    ultimately show False using Cons.prems(1) by (simp add: on_disk_def)
  qed
  have "agree_record k d1 d'" using wrote_tracks_elsewhere [OF w2 wf1 _ _ nk] Ks k f by simp
  from formatted_agree [OF this] have first: "formatted gaptype (snd th) (fst th) base sector_length (slots n interleave n (0, 0)) preindex
       (file_chunk b autofill sector_length) (DISK_SET_TRACK_IDX k d')"
    using t(1) same_place_set_track [OF sp Cons.prems(2) k] by simp
  have "file_rest b 0 = b" using Cons.prems(4) by (simp add: file_rest_def)
  then have "formatted gaptype (snd ((th # ths) ! j)) (fst ((th # ths) ! j)) base sector_length (slots n interleave n (0, 0)) preindex
       (file_chunk (file_rest b (j * (n * sector_length))) autofill sector_length) (DISK_SET_TRACK_IDX (tidx d ((th # ths) ! j)) d')"
    if j: "j < length (th # ths)" for j
    using first fm [of "j - 1"] j by (cases j) (simp_all add: k_def b1 file_rest_rest)
  moreover have "gen_tracks base n sector_length preindex gaptype interleave autofill (th # ths) b d = (False, b', d')"
    using 1 2 by simp
  ultimately show ?case using w by blast
qed

text \<open>A new disk has tracks of the same length, with nothing on them.\<close>

definition new_tracks :: "disk \<Rightarrow> bool" where
  "new_tracks d \<longleftrightarrow> tlen d = 4 + bpt d + 3 * DISK_CLEN (bpt d) \<and> 0 < bpt d \<and> bpt d < 65536 \<and>
     (\<forall>k < sides d * cylinders d. disk_data d (k * tlen d) = of_nat (bpt d) \<and> disk_data d (k * tlen d + 1) = of_nat (bpt d div 256) \<and>
        (\<forall>j. 2 \<le> j \<and> j < tlen d \<longrightarrow> disk_data d (k * tlen d + j) = 0))"

lemma new_tracks_length:
  assumes "new_tracks d" "k < sides d * cylinders d"
  shows "c_bpt (DISK_SET_TRACK_IDX k d) = bpt d"
proof -
  have "bpt d div 256 < 256" using assms(1) unfolding new_tracks_def by (intro less_mult_imp_div_less) simp
  then have "unat (of_nat (bpt d) :: u8) = bpt d mod 256" "unat (of_nat (bpt d div 256) :: u8) = bpt d div 256"
    by (simp_all add: unat_of_nat)
  moreover have "disk_data d (k * tlen d) = of_nat (bpt d)" "disk_data d (k * tlen d + 1) = of_nat (bpt d div 256)"
    using assms unfolding new_tracks_def by blast+
  ultimately show ?thesis by (simp add: set_track_fields(3))
qed

lemma new_tracks_wf: "new_tracks d \<Longrightarrow> wf_disk d"
  using new_tracks_length [of d] by (auto simp: wf_disk_def record_len_def) (simp add: new_tracks_def)

lemma new_tracks_blank:
  assumes "new_tracks d" "k < sides d * cylinders d"
  shows "blank (DISK_SET_TRACK_IDX k d)"
proof -
  have "\<not> clock_mark (DISK_SET_TRACK_IDX k d) j" if "j < bpt d" for j
  proof -
    have "3 + bpt d + j div 8 < tlen d" using div8_lt [OF that] assms(1) by (simp add: new_tracks_def)
    moreover have "2 \<le> 3 + bpt d + j div 8" by simp
    ultimately have "disk_data d (k * tlen d + (3 + bpt d + j div 8)) = 0" using assms unfolding new_tracks_def by blast
    then show ?thesis using new_tracks_length [OF assms] by (simp add: clock_mark_def bitmap_test_def set_track_fields(2,4) ac_simps)
  qed
  then show ?thesis using new_tracks_length [OF assms] by (simp add: blank_def clear_def)
qed

lemma update_tlens_step:
  assumes "0 < bpt d" "bpt d < 65536" "3 \<le> tlen d"
    and "\<forall>x. disk_data d x = (if \<exists>k<m. x = k * tlen d then of_nat (bpt d) else if \<exists>k<m. x = k * tlen d + 1 then of_nat (bpt d div 256) else 0)"
  defines "e \<equiv> DISK_SET_TRACK_IDX m d"
  defines "d' \<equiv> (if unat (disk_data e (track e - 3)) + 256 * unat (disk_data e (track e - 2)) = 0
        then put (track e - 2) (of_nat (bpt e div 256)) (put (track e - 3) (of_nat (bpt e)) e) else e)"
  shows "disk_data d' x = (if \<exists>k<Suc m. x = k * tlen d then of_nat (bpt d) else if \<exists>k<Suc m. x = k * tlen d + 1 then of_nat (bpt d div 256) else 0)"
    "tlen d' = tlen d" "bpt d' = bpt d" "sides d' = sides d" "cylinders d' = cylinders d" "density d' = density d" "disk_type d' = disk_type d"
proof -
  have lt: "k * tlen d + 1 < m * tlen d" if "k < m" for k
  proof -
    have "Suc k * tlen d \<le> m * tlen d" using that by (intro mult_le_mono1) simp
    then show ?thesis using assms(3) by simp
  qed
  have ne: "m * tlen d \<noteq> k * tlen d" "m * tlen d \<noteq> k * tlen d + 1" "m * tlen d + 1 \<noteq> k * tlen d" "m * tlen d + 1 \<noteq> k * tlen d + 1" if "k < m" for k
    using lt [OF that] by linarith+
  then have z: "disk_data d (m * tlen d) = 0" "disk_data d (m * tlen d + 1) = 0" using assms(4) by (metis, metis)
  have t: "track e - 3 = m * tlen d" "track e - 2 = m * tlen d + 1" "disk_data e = disk_data d" "bpt e = bpt d" by (simp_all add: e_def set_track_fields)
  have d': "d' = put (m * tlen d + 1) (of_nat (bpt d div 256)) (put (m * tlen d) (of_nat (bpt d)) e)"
    unfolding d'_def t z by simp
  show "tlen d' = tlen d" "bpt d' = bpt d" "sides d' = sides d" "cylinders d' = cylinders d" "density d' = density d" "disk_type d' = disk_type d"
    by (simp_all add: d' put_def e_def set_track_fields)
  show "disk_data d' x = (if \<exists>k<Suc m. x = k * tlen d then of_nat (bpt d) else if \<exists>k<Suc m. x = k * tlen d + 1 then of_nat (bpt d div 256) else 0)"
  proof -
    consider "x = m * tlen d" | "x = m * tlen d + 1" | "x \<noteq> m * tlen d" "x \<noteq> m * tlen d + 1" by blast
    then show ?thesis
    proof cases
      case 1
      then show ?thesis unfolding d' put_def by auto
    next
      case 2
      then have "\<not> (\<exists>k<Suc m. x = k * tlen d)" using ne(3) by (auto simp: less_Suc_eq)
      then show ?thesis using 2 unfolding d' put_def by auto
    next
      case 3
      then have e: "(\<exists>k<Suc m. x = k * tlen d) \<longleftrightarrow> (\<exists>k<m. x = k * tlen d)" "(\<exists>k<Suc m. x = k * tlen d + 1) \<longleftrightarrow> (\<exists>k<m. x = k * tlen d + 1)"
        by (auto simp: less_Suc_eq)
      have "disk_data d' x = disk_data d x" using 3 unfolding d' put_def by (simp add: t(3))
      then show ?thesis unfolding e using assms(4) by metis
    qed
  qed
qed

lemma disk_alloc_new:
  assumes "density d = DISK_DD" "0 < sides d" "0 < cylinders d"
  shows "new_tracks (disk_alloc d)" "status (disk_alloc d) = DISK_OK" "sides (disk_alloc d) = sides d" "cylinders (disk_alloc d) = cylinders d"
    "disk_type (disk_alloc d) = disk_type d" "bpt (disk_alloc d) = 6250"
proof -
  define e where "e = d\<lparr>density := DISK_DD, bpt := 6250, tlen := 4 + 6250 + 3 * DISK_CLEN 6250, disk_data := (\<lambda>x. 0)\<rparr>"
  define F where "F = (\<lambda>d i. let d = DISK_SET_TRACK_IDX i d in
        if unat (disk_data d (track d - 3)) + 256 * unat (disk_data d (track d - 2)) = 0
        then put (track d - 2) (of_nat (bpt d div 256)) (put (track d - 3) (of_nat (bpt d)) d) else d)"
  have F: "(\<forall>x. disk_data (foldl F e [0..<m]) x = (if \<exists>k<m. x = k * tlen e then of_nat (bpt e) else if \<exists>k<m. x = k * tlen e + 1 then of_nat (bpt e div 256) else 0)) \<and>
     tlen (foldl F e [0..<m]) = tlen e \<and> bpt (foldl F e [0..<m]) = bpt e \<and> sides (foldl F e [0..<m]) = sides e \<and>
     cylinders (foldl F e [0..<m]) = cylinders e \<and> density (foldl F e [0..<m]) = density e \<and> disk_type (foldl F e [0..<m]) = disk_type e" for m
  proof (induction m)
    case (Suc m)
    define f where "f = foldl F e [0..<m]"
    have f: "0 < bpt f" "bpt f < 65536" "3 \<le> tlen f" using Suc by (simp_all add: f_def e_def)
    have S: "tlen f = tlen e" "bpt f = bpt e" "sides f = sides e" "cylinders f = cylinders e" "density f = density e" "disk_type f = disk_type e"
      using Suc by (simp_all add: f_def)
    have x: "\<forall>x. disk_data f x = (if \<exists>k<m. x = k * tlen f then of_nat (bpt f) else if \<exists>k<m. x = k * tlen f + 1 then of_nat (bpt f div 256) else 0)"
      using conjunct1 [OF Suc] unfolding f_def [symmetric] S .
    define f' where "f' = foldl F e [0..<Suc m]"
    have f': "f' = (if unat (disk_data (DISK_SET_TRACK_IDX m f) (track (DISK_SET_TRACK_IDX m f) - 3))
          + 256 * unat (disk_data (DISK_SET_TRACK_IDX m f) (track (DISK_SET_TRACK_IDX m f) - 2)) = 0
        then put (track (DISK_SET_TRACK_IDX m f) - 2) (of_nat (bpt (DISK_SET_TRACK_IDX m f) div 256))
          (put (track (DISK_SET_TRACK_IDX m f) - 3) (of_nat (bpt (DISK_SET_TRACK_IDX m f))) (DISK_SET_TRACK_IDX m f))
        else DISK_SET_TRACK_IDX m f)"
      by (simp add: F_def f'_def f_def Let_def)
    note u = update_tlens_step [OF f x, folded f', unfolded S]
    show ?case unfolding f'_def [symmetric] u by simp
  qed (simp add: e_def)
  define r where "r = foldl F e [0..<sides d * cylinders d]"
  have "DISK_CLEN 6250 = 782" by (simp add: DISK_CLEN_def)
  then have a: "disk_alloc d = r\<lparr>status := DISK_OK\<rparr>"
    using assms by (simp add: disk_alloc_def disk_update_tlens_def r_def F_def e_def disk_bpt_def Let_def)
  note R = F [of "sides d * cylinders d", folded r_def]
  have len: "tlen e = 4 + 6250 + 3 * DISK_CLEN 6250" "bpt e = 6250" "sides e = sides d" "cylinders e = cylinders d" "disk_type e = disk_type d"
    by (simp_all add: e_def)
  show "status (disk_alloc d) = DISK_OK" "sides (disk_alloc d) = sides d" "cylinders (disk_alloc d) = cylinders d"
    "disk_type (disk_alloc d) = disk_type d" "bpt (disk_alloc d) = 6250" using R len by (simp_all add: a)
  have inj: "k = i" if "k * tlen e + j = i * tlen e + j'" "j < tlen e" "j' < tlen e" for k i j j'
    using that by (metis add.right_neutral add_diff_cancel_left' div_less div_mult_self3 less_nat_zero_code mult.commute nat_less_le)
  show "new_tracks (disk_alloc d)"
    unfolding new_tracks_def
  proof (intro conjI allI impI)
    fix k assume k: "k < sides (disk_alloc d) * cylinders (disk_alloc d)"
    have t3: "3 < tlen e" using len by simp
    show "disk_data (disk_alloc d) (k * tlen (disk_alloc d)) = of_nat (bpt (disk_alloc d))" using R len k by (auto simp: a)
    have "\<not> (\<exists>i < sides d * cylinders d. k * tlen e + 1 = i * tlen e)" using inj [of k 1 _ 0] t3 by auto
    then show "disk_data (disk_alloc d) (k * tlen (disk_alloc d) + 1) = of_nat (bpt (disk_alloc d) div 256)" using R len k by (auto simp: a)
    fix j assume j: "2 \<le> j \<and> j < tlen (disk_alloc d)"
    have "\<not> (\<exists>i < sides d * cylinders d. k * tlen e + j = i * tlen e)" "\<not> (\<exists>i < sides d * cylinders d. k * tlen e + j = i * tlen e + 1)"
      using inj [of k j _ 0] inj [of k j _ 1] t3 j R by (auto simp: a)
    then have "disk_data r (k * tlen e + j) = 0" using conjunct1 [OF R] by metis
    then show "disk_data (disk_alloc d) (k * tlen (disk_alloc d) + j) = 0" using R by (simp add: a)
  qed (use R len in \<open>simp_all add: a\<close>)
qed

text \<open>Two disks that differ at most in the selected track and the position on it.\<close>

definition same_disk :: "disk \<Rightarrow> disk \<Rightarrow> bool" where
  "same_disk d d' \<longleftrightarrow> disk_data d' = disk_data d \<and> sides d' = sides d \<and> cylinders d' = cylinders d \<and> tlen d' = tlen d \<and> bpt d' = bpt d \<and>
     density d' = density d \<and> disk_type d' = disk_type d \<and> status d' = status d"

lemma same_disk_refl [simp]: "same_disk d d"
  and same_disk_trans: "same_disk d d' \<Longrightarrow> same_disk d' d'' \<Longrightarrow> same_disk d d''"
  and same_disk_set [simp]: "same_disk d (DISK_SET_TRACK_IDX k d)" "same_disk d (DISK_SET_TRACK h t d)" "same_disk d (d\<lparr>at := i\<rparr>)"
  by (simp_all add: same_disk_def DISK_SET_TRACK_def set_track_fields)

lemma same_disk_agree: "same_disk d d' \<Longrightarrow> agree_record k d d'"
  by (simp add: same_disk_def agree_record_def)

lemma same_disk_tidx: "same_disk d d' \<Longrightarrow> tidx d' th = tidx d th"
  by (simp add: same_disk_def tidx_def)

text \<open>A disk all in MFM with no weak byte, as the images make it.\<close>

definition plain_marks :: "disk \<Rightarrow> bool" where
  "plain_marks d \<longleftrightarrow> (\<forall>k < sides d * cylinders d. 0 < c_bpt (DISK_SET_TRACK_IDX k d) \<and> disk_data d (k * tlen d + 2) = 0 \<and>
     (\<forall>j<2 * DISK_CLEN (c_bpt (DISK_SET_TRACK_IDX k d)). disk_data d (fm (DISK_SET_TRACK_IDX k d) + j) = 0))"

lemma new_tracks_plain: 
  assumes "new_tracks d" shows "plain_marks d"
  unfolding plain_marks_def
proof (intro allI impI conjI)
  fix k assume k: "k < sides d * cylinders d"
  note l = new_tracks_length [OF assms k]
  show "0 < c_bpt (DISK_SET_TRACK_IDX k d)" using assms l by (simp add: new_tracks_def)
  have z: "disk_data d (k * tlen d + j) = 0" if "2 \<le> j" "j < tlen d" for j using assms k that unfolding new_tracks_def by blast
  show "disk_data d (k * tlen d + 2) = 0" using z [of 2] assms by (simp add: new_tracks_def)
  fix j assume "j < 2 * DISK_CLEN (c_bpt (DISK_SET_TRACK_IDX k d))"
  then have "3 + bpt d + DISK_CLEN (bpt d) + j < tlen d" using assms l by (simp add: new_tracks_def)
  then show "disk_data d (fm (DISK_SET_TRACK_IDX k d) + j) = 0"
    using z [of "3 + bpt d + DISK_CLEN (bpt d) + j"] by (simp add: set_track_fields(5) l ac_simps)
qed

lemma wrote_tracks_plain:
  assumes w: "wrote_tracks K d d'" and wf: "wf_disk d" and K: "\<forall>k\<in>K. k < sides d * cylinders d" and p: "plain_marks d"
  shows "plain_marks d'"
  unfolding plain_marks_def
proof (intro allI impI)
  have f: "sides d' = sides d" "cylinders d' = cylinders d" "tlen d' = tlen d" using w by (simp_all add: wrote_tracks_def)
  fix k assume k: "k < sides d' * cylinders d'"
  then have k: "k < sides d * cylinders d" by (simp add: f)
  note h = wrote_tracks_head [OF w wf K k]
  have fm: "fm (DISK_SET_TRACK_IDX k d') = fm (DISK_SET_TRACK_IDX k d)" by (simp add: set_track_fields(5) h(1) f)
  have "disk_data d' (fm (DISK_SET_TRACK_IDX k d) + j) = disk_data d (fm (DISK_SET_TRACK_IDX k d) + j)"
    if "j < 2 * DISK_CLEN (c_bpt (DISK_SET_TRACK_IDX k d))" for j
    using that by (intro h(4)) (simp_all add: record_len_def set_track_fields(5))
  then show "0 < c_bpt (DISK_SET_TRACK_IDX k d') \<and> disk_data d' (k * tlen d' + 2) = 0 \<and>
     (\<forall>j<2 * DISK_CLEN (c_bpt (DISK_SET_TRACK_IDX k d')). disk_data d' (fm (DISK_SET_TRACK_IDX k d') + j) = 0)"
    using p k h(1) h(3) [of 2] unfolding plain_marks_def fm f by simp
qed

lemma foldl_or_zero: "\<forall>j\<in>set js. f j = (0::int) \<Longrightarrow> foldl (\<lambda>m j. m OR f j) 0 js = 0"
  by (induction js) auto

lemma foldl_or_all: "foldl (\<lambda>m j. m OR f j) (-1 :: int) js = -1"
  by (induction js) (simp_all add: bit.disj_one_left)

lemma DISK_CLEN_pos: "0 < n \<Longrightarrow> 0 < DISK_CLEN n"
  using div8_lt [of 0 n] by simp

text \<open>On such a disk the type bytes stay zero.\<close>

lemma track_mode_plain:
  assumes p: "plain_marks d" and k: "k < sides d * cylinders d"
  shows "same_disk d (track_mode (DISK_SET_TRACK_IDX k d))"
proof -
  define e where "e = DISK_SET_TRACK_IDX k d"
  define n where "n = DISK_CLEN (c_bpt e)"
  have c: "0 < n" using p k by (simp add: plain_marks_def n_def e_def DISK_CLEN_pos)
  have z: "disk_data e (fm e + j) = 0" if "j < 2 * n" for j using p k that by (simp add: plain_marks_def e_def n_def set_track_fields(2))
  have w: "weak e = fm e + n" by (simp add: e_def n_def set_track_fields(5,6))
  have mf: "foldl (\<lambda>m j. m OR NOT (uint (disk_data e (fm e + j)))) (0::int) (rev [0..<n]) = -1"
  proof -
    obtain m where m: "n = Suc m" using c by (cases n) auto
    have "disk_data e (fm e + m) = 0" using z [of m] m by simp
    then show ?thesis by (simp add: m foldl_or_all)
  qed
  have f: "foldl (\<lambda>m j. m OR uint (disk_data e (fm e + j))) (0::int) (rev [0..<n]) = 0" using z by (intro foldl_or_zero) simp
  have wk: "foldl (\<lambda>m j. m OR uint (disk_data e (weak e + j))) (0::int) (rev [0..<n]) = 0"
    using z [of "n + _"] by (intro foldl_or_zero) (simp add: w add.assoc)
  have t: "track e - 1 = k * tlen d + 2" "disk_data e (k * tlen d + 2) = 0" using p k by (simp_all add: e_def set_track_fields plain_marks_def)
  have "track_mode e = put (k * tlen d + 2) 0 e"
    using t by (simp add: track_mode_def Let_def mf f wk flip: n_def)
  also have "\<dots> = e" using t by (simp add: put_def fun_upd_idem)
  finally show ?thesis by (simp add: e_def)
qed

lemma plain_marks_same: "same_disk d d' \<Longrightarrow> plain_marks d' = plain_marks d"
  unfolding plain_marks_def using agree_record_c_bpt [OF same_disk_agree, of d d'] by (simp add: same_disk_def set_track_fields(5))

lemma update_tracks_mode_plain:
  assumes "plain_marks d" shows "same_disk d (update_tracks_mode d)"
proof -
  have "m \<le> cylinders d * sides d \<Longrightarrow> same_disk d (foldl (\<lambda>d i. track_mode (DISK_SET_TRACK_IDX i d)) d [0..<m])" for m
  proof (induction m)
    case (Suc m)
    define f where "f = foldl (\<lambda>d i. track_mode (DISK_SET_TRACK_IDX i d)) d [0..<m]"
    have s: "same_disk d f" using Suc by (simp add: f_def)
    have "same_disk f (track_mode (DISK_SET_TRACK_IDX m f))"
      using plain_marks_same [OF s] assms s Suc.prems by (intro track_mode_plain) (simp_all add: same_disk_def mult.commute)
    from same_disk_trans [OF s this] show ?case by (simp add: f_def)
  qed simp
  then show ?thesis by (simp add: update_tracks_mode_def)
qed

definition image_geom :: "nat \<Rightarrow> nat \<Rightarrow> nat \<Rightarrow> disk_geom" where
  "image_geom base n sector_length = \<lparr>geom_base = int base, geom_sectors = int n, geom_seclen = int (calc_lenid sector_length),
     geom_mfm = 1, oddities = 0, unf = -1\<rparr>"

text \<open>Every track of the disk holds the same number of sectors, from the files of \<open>dat\<close>.\<close>

definition all_formatted :: "nat \<Rightarrow> nat \<Rightarrow> nat \<Rightarrow> nat list \<Rightarrow> bool \<Rightarrow> (nat \<times> nat \<Rightarrow> nat \<Rightarrow> u8 list) \<Rightarrow> disk \<Rightarrow> bool" where
  "all_formatted gaptype base sector_length ps pre dat d \<longleftrightarrow> plain_marks d \<and> 0 < sides d \<and> 0 < cylinders d \<and>
     (\<forall>t<cylinders d. \<forall>h < sides d. formatted gaptype h t base sector_length ps pre (dat (t, h)) (DISK_SET_TRACK h t d))"

lemma formatted_same_disk:
  "same_disk d d' \<Longrightarrow> formatted gaptype sd trk base sector_length ps pre dat (DISK_SET_TRACK h t d') =
     formatted gaptype sd trk base sector_length ps pre dat (DISK_SET_TRACK h t d)"
proof -
  assume s: "same_disk d d'"
  then have "sides d' = sides d" by (simp add: same_disk_def)
  then show ?thesis unfolding DISK_SET_TRACK_def by (simp only: formatted_agree [OF same_disk_agree [OF s]])
qed

lemma all_formatted_same_disk:
  assumes "same_disk d d'" shows "all_formatted gaptype base sector_length ps pre dat d' = all_formatted gaptype base sector_length ps pre dat d"
  using formatted_same_disk [OF assms] plain_marks_same [OF assms] assms by (simp add: all_formatted_def same_disk_def)

lemma check_track_formatted:
  assumes f: "formatted gaptype sd trk base sector_length ps pre dat (DISK_SET_TRACK sd trk d)" and g: "gap_ok (gaps ! gaptype)"
    and gap2: "len (gaps ! gaptype) ! 2 > 0" "gap (gaps ! gaptype) = 0x4e" and n: "0 < length ps"
    and r: "base + length ps \<le> 256" and t: "trk < 256" and l: "calc_lenid sector_length < 256"
    and ty: "disk_data d (track d - 1) = 0" and x: "x \<in> {geom_init, image_geom base (length ps) sector_length}"
  shows "check_track_geom trk sd (x, d) = (image_geom base (length ps) sector_length, (DISK_SET_TRACK sd trk d)\<lparr>at := c_bpt (DISK_SET_TRACK sd trk d)\<rparr>)"
proof -
  note q = guess_formatted [OF f g gap2(1) n r t l, unfolded gap2(2)]
  have "check_track_geom trk sd (geom_init, d) = (image_geom base (length ps) sector_length, (DISK_SET_TRACK sd trk d)\<lparr>at := c_bpt (DISK_SET_TRACK sd trk d)\<rparr>)"
    unfolding check_track_geom_def geom_init_def prod.case ty q by (simp add: image_geom_def Let_def)
  moreover have "check_track_geom trk sd (image_geom base (length ps) sector_length, d) =
     (image_geom base (length ps) sector_length, (DISK_SET_TRACK sd trk d)\<lparr>at := c_bpt (DISK_SET_TRACK sd trk d)\<rparr>)"
    unfolding check_track_geom_def image_geom_def prod.case ty q by (simp add: image_geom_def Let_def)
  ultimately show ?thesis using x by blast
qed

lemma check_tracks_formatted:
  assumes a: "all_formatted gaptype base sector_length ps pre dat d" and g: "gap_ok (gaps ! gaptype)"
    and gap2: "len (gaps ! gaptype) ! 2 > 0" "gap (gaps ! gaptype) = 0x4e" and n: "0 < length ps"
    and r: "base + length ps \<le> 256" and t: "cylinders d \<le> 256" and l: "calc_lenid sector_length < 256"
    and ths: "\<forall>th\<in>set ths. fst th < cylinders d \<and> snd th < sides d"
    and s: "same_disk d e" "disk_data e (track e - 1) = 0" and x: "x \<in> {geom_init, image_geom base (length ps) sector_length}"
  shows "\<exists>e'. foldl (\<lambda>s (t, h). check_track_geom t h s) (x, e) ths =
     (if ths = [] then x else image_geom base (length ps) sector_length, e') \<and> same_disk d e'"
  using ths s x
proof (induction ths arbitrary: x e)
  case (Cons th ths)
  obtain t h where th: "th = (t, h)" by fastforce
  then have th': "t < cylinders d" "h < sides d" using Cons.prems(1) by simp_all
  define e1 where "e1 = (DISK_SET_TRACK h t e)\<lparr>at := c_bpt (DISK_SET_TRACK h t e)\<rparr>"
  have f: "formatted gaptype h t base sector_length ps pre (dat (t, h)) (DISK_SET_TRACK h t e)"
    using a th' formatted_same_disk [OF Cons.prems(2)] by (simp add: all_formatted_def)
  have 1: "check_track_geom t h (x, e) = (image_geom base (length ps) sector_length, e1)"
    unfolding e1_def using th' assms(7) by (intro check_track_formatted [OF f g gap2 n r _ l Cons.prems(3,4)]) simp
  have sd: "same_disk d e1" using Cons.prems(2) unfolding same_disk_def by (simp add: e1_def DISK_SET_TRACK_def set_track_fields)
  have "tidx d (t, h) < sides d * cylinders d" using th' by (simp add: tidx_less)
  then have "disk_data d (tidx d (t, h) * tlen d + 2) = 0" using a by (simp add: all_formatted_def plain_marks_def)
  then have "disk_data e1 (track e1 - 1) = 0"
    using Cons.prems(2) by (simp add: e1_def DISK_SET_TRACK_def set_track_fields same_disk_def tidx_def)
  from Cons.IH [OF _ sd this, of "image_geom base (length ps) sector_length"] Cons.prems(1) show ?case
    by (simp add: th 1)
qed simp

lemma disk_tracks_set: "set (disk_tracks d) = {0..<cylinders d} \<times> {0..<sides d}" "set (out_out_tracks d) = {0..<cylinders d} \<times> {0..<sides d}"
  by (auto simp: disk_tracks_def out_out_tracks_def)

lemma disk_tracks_nonempty: "0 < sides d \<Longrightarrow> 0 < cylinders d \<Longrightarrow> disk_tracks d \<noteq> []"
  using disk_tracks_set(1) [of d] by force

lemma check_formatted:
  assumes a: "all_formatted gaptype base sector_length ps pre dat d" and g: "gap_ok (gaps ! gaptype)"
    and gap2: "len (gaps ! gaptype) ! 2 > 0" "gap (gaps ! gaptype) = 0x4e" and n: "0 < length ps"
    and r: "base + length ps \<le> 256" and t: "cylinders d \<le> 256" and l: "calc_lenid sector_length < 256"
  shows "\<exists>d'. check_disk_geom d = (image_geom base (length ps) sector_length, d') \<and> same_disk d d'"
proof -
  define e where "e = (DISK_SET_TRACK_IDX 0 d)\<lparr>at := 0\<rparr>"
  have "0 < sides d * cylinders d" using a by (simp add: all_formatted_def)
  then have "disk_data d (0 * tlen d + 2) = 0" using a unfolding all_formatted_def plain_marks_def by blast
  then have "disk_data e (track e - 1) = 0" by (simp add: e_def set_track_fields numeral_2_eq_2)
  moreover have "same_disk d e" by (simp add: e_def same_disk_def set_track_fields)
  ultimately have "\<exists>e'. foldl (\<lambda>s (t, h). check_track_geom t h s) (geom_init, e) (disk_tracks d) =
     (image_geom base (length ps) sector_length, e') \<and> same_disk d e'"
    using check_tracks_formatted [OF a g gap2 n r t l, of "disk_tracks d" e geom_init] disk_tracks_nonempty [of d] a
    by (auto simp: disk_tracks_set all_formatted_def)
  then show ?thesis by (auto simp: check_disk_geom_def e_def image_geom_def)
qed

lemma save_formatted:
  assumes a: "all_formatted gaptype base sector_length ps pre dat d" and g: "gap_ok (gaps ! gaptype)"
    and r: "base + length ps \<le> 256" and l: "sector_length = 128 * 2 ^ seclen" 
    and ths: "\<forall>th\<in>set ths. fst th < cylinders d \<and> snd th < sides d" and s: "same_disk d e"
    and room: "length ths * (length ps * sector_length) \<le> room f"
  shows "\<exists>e'. save_tracks base (length ps) seclen ths e f =
     (False, e', f\<lparr>written := written f @ concat (map (\<lambda>th. concat (map (dat th) [0..<length ps])) ths),
       room := room f - length ths * (length ps * sector_length)\<rparr>) \<and> same_disk d e'"
  using ths s room
proof (induction ths arbitrary: e f)
  case (Cons th ths)
  obtain t h where th: "th = (t, h)" by fastforce
  have fm: "formatted gaptype h t base sector_length ps pre (dat (t, h)) (DISK_SET_TRACK h t e)"
    using a Cons.prems(1) th formatted_same_disk [OF Cons.prems(2)] by (simp add: all_formatted_def)
  define f1 where "f1 = f\<lparr>written := written f @ concat (map (dat th) [0..<length ps]), room := room f - length ps * sector_length\<rparr>"
  have "length ps * sector_length \<le> room f" using Cons.prems(3) by simp
  from savetrack_formatted [OF fm g r l this] obtain e1 i where
    1: "savetrack h t base (length ps) seclen e f = (False, e1, f1)" and e1: "e1 = (DISK_SET_TRACK h t e)\<lparr>at := i\<rparr>"
    by (auto simp: f1_def th)
  have sd: "same_disk d e1" using Cons.prems(2) unfolding same_disk_def by (simp add: e1 DISK_SET_TRACK_def set_track_fields)
  have "\<exists>e'. save_tracks base (length ps) seclen ths e1 f1 =
     (False, e', f1\<lparr>written := written f1 @ concat (map (\<lambda>th. concat (map (dat th) [0..<length ps])) ths),
       room := room f1 - length ths * (length ps * sector_length)\<rparr>) \<and> same_disk d e'"
    using Cons.prems sd by (intro Cons.IH) (simp_all add: f1_def)
  then show ?case by (auto simp: th 1) (simp add: f1_def th)
qed simp

lemma slots_in_order: "p + m \<le> n \<Longrightarrow> slots n 1 m (p, i) = [p..<p + m]"
proof (induction m arbitrary: p i)
  case (Suc m)
  show ?case
  proof (cases m)
    case (Suc k)
    then have "next_slot n 1 (p, i) = (p + 1, i)" using Suc.prems by (simp add: next_slot_def)
    then show ?thesis using Suc.IH [of "p + 1" i] Suc.prems by (simp add: upt_conv_Cons)
  qed simp
qed simp

lemma slots_distinct:
  "distinct (slots n NO_INTERLEAVE n (0, 0)) \<and> (\<forall>p\<in>set (slots n NO_INTERLEAVE n (0, 0)). p < n)"
  "distinct (slots 16 INTERLEAVE_2 16 (0, 0)) \<and> (\<forall>p\<in>set (slots 16 INTERLEAVE_2 16 (0, 0)). p < 16)"
  "distinct (slots 18 INTERLEAVE_OPUS 18 (0, 0)) \<and> (\<forall>p\<in>set (slots 18 INTERLEAVE_OPUS 18 (0, 0)). p < 18)"
    using slots_in_order [of 0 n n 0] apply (simp add: NO_INTERLEAVE_def)
   apply (simp add: INTERLEAVE_2_def eval_nat_numeral next_slot_def)
  apply (simp add: INTERLEAVE_OPUS_def eval_nat_numeral next_slot_def)
  done

lemma concat_upt:
  fixes f :: "nat \<Rightarrow> 'a"
  shows "concat (map (\<lambda>k. map (\<lambda>i. f (k * n + i)) [0..<n]) [0..<m]) = map f [0..<m * n]"
proof (induction m)
  case (Suc m)
  have "[0..<Suc m * n] = [0..<m * n] @ map (\<lambda>i. i + m * n) [0..<n]"
    using map_add_upt [of "m * n" n] upt_add_eq_append [of 0 "m * n" n] by (simp add: add.commute)
  then have "map f [0..<Suc m * n] = map f [0..<m * n] @ map (\<lambda>i. f (m * n + i)) [0..<n]"
    by (simp add: comp_def add.commute)
  with Suc show ?case by simp
qed simp

lemma chunks_concat:
  "concat (map (file_chunk b autofill n) [0..<m]) = map (file_byte b autofill) [0..<m * n]"
  using concat_upt [of "file_byte b autofill" n m] by (simp add: file_chunk_def [abs_def])

lemma tracks_distinct: "distinct (disk_tracks d)" "distinct (out_out_tracks d)" 
  "length (disk_tracks d) = sides d * cylinders d" "length (out_out_tracks d) = sides d * cylinders d"
proof -
  have p: "distinct [(x, y). x \<leftarrow> xs, y \<leftarrow> ys] \<and> distinct [(y, x). x \<leftarrow> xs, y \<leftarrow> ys] \<and> length [(x, y). x \<leftarrow> xs, y \<leftarrow> ys] = length ys * length xs
      \<and> length [(y, x). x \<leftarrow> xs, y \<leftarrow> ys] = length xs * length ys"
    if "distinct xs" "distinct ys" for xs ys :: "nat list"
    using that by (induction xs) (auto simp: distinct_map inj_on_def)
  show "distinct (disk_tracks d)" "distinct (out_out_tracks d)" 
    "length (disk_tracks d) = sides d * cylinders d" "length (out_out_tracks d) = sides d * cylinders d"
    using p [of "[0..<cylinders d]" "[0..<sides d]"] p [of "[0..<sides d]" "[0..<cylinders d]"]
    by (simp_all add: disk_tracks_def out_out_tracks_def)
qed

text \<open>A new disk filled from a file, in either order of the tracks.\<close>

lemma image_made:
  assumes d: "new_tracks d" "0 < sides d" "0 < cylinders d" and ths: "ths = disk_tracks d \<or> ths = out_out_tracks d"
    and b: "index b \<le> length (content b)" "length ths * (n * sector_length) \<le> buffavail b \<or> 0 \<le> autofill"
    and r: "start_len gaptype pre + n * calc_sectorlen sector_length gaptype < bpt d"
    and ps: "distinct (slots n interleave n (0, 0)) \<and> (\<forall>p\<in>set (slots n interleave n (0, 0)). p < n)"
    and g: "gap_ok (gaps ! gaptype)" "len (gaps ! gaptype) ! 2 \<le> len (gaps ! gaptype) ! 3"
  obtains b' d' dat where "gen_tracks base n sector_length pre gaptype interleave autofill ths b d = (False, b', d')"
    "all_formatted gaptype base sector_length (slots n interleave n (0, 0)) pre dat d'"
    "sides d' = sides d" "cylinders d' = cylinders d" "disk_type d' = disk_type d" "status d' = status d"
    "concat (map (\<lambda>th. concat (map (dat th) [0..<n])) ths) = map (file_byte b autofill) [0..<length ths * (n * sector_length)]"
proof -
  define S where "S = slots n interleave n (0, 0)"
  have od: "on_disk d ths" using ths tracks_distinct [of d] disk_tracks_set [of d] by (auto simp: on_disk_def)
  have all: "set ths = {0..<cylinders d} \<times> {0..<sides d}" using ths disk_tracks_set [of d] by auto
  have ti: "tidx d th < sides d * cylinders d" if "th \<in> set ths" for th using od that by (simp add: on_disk_def tidx_less)
  obtain b' d' where 1: "gen_tracks base n sector_length pre gaptype interleave autofill ths b d = (False, b', d')"
    and w: "wrote_tracks (tidx d ` set ths) d d'"
    and f: "\<And>j. j < length ths \<Longrightarrow> formatted gaptype (snd (ths ! j)) (fst (ths ! j)) base sector_length S pre
       (file_chunk (file_rest b (j * (n * sector_length))) autofill sector_length) (DISK_SET_TRACK_IDX (tidx d (ths ! j)) d')"
  proof -
    have "\<exists>b' d'. gen_tracks base n sector_length pre gaptype interleave autofill ths b d = (False, b', d') \<and>
      wrote_tracks (tidx d ` set ths) d d' \<and>
      (\<forall>j<length ths. formatted gaptype (snd (ths ! j)) (fst (ths ! j)) base sector_length (slots n interleave n (0, 0)) pre
         (file_chunk (file_rest b (j * (n * sector_length))) autofill sector_length) (DISK_SET_TRACK_IDX (tidx d (ths ! j)) d'))"
      using new_tracks_wf [OF d(1)] new_tracks_blank [OF d(1) ti] new_tracks_length [OF d(1) ti] b r ps g od
      by (intro gen_tracks_makes) simp_all
    then show thesis using that unfolding S_def by blast
  qed
  have fl: "sides d' = sides d" "cylinders d' = cylinders d" "disk_type d' = disk_type d" "status d' = status d"
    using w by (simp_all add: wrote_tracks_def)
  define pos where "pos = (\<lambda>th. THE j. j < length ths \<and> ths ! j = th)"
  have pos: "pos (ths ! j) = j" if "j < length ths" for j
    using that od unfolding pos_def on_disk_def by (intro the_equality) (auto simp: nth_eq_iff_index_eq)
  define dat where "dat = (\<lambda>th. file_chunk (file_rest b (pos th * (n * sector_length))) autofill sector_length)"
  have "formatted gaptype h t base sector_length S pre (dat (t, h)) (DISK_SET_TRACK h t d')" if "t < cylinders d'" "h < sides d'" for t h
  proof -
    have "(t, h) \<in> set ths" using that by (simp add: all fl)
    then obtain j where j: "j < length ths" "ths ! j = (t, h)" by (metis in_set_conv_nth)
    then show ?thesis using f [OF j(1)] pos [OF j(1)] by (simp add: dat_def DISK_SET_TRACK_def tidx_def fl)
  qed
  moreover have "plain_marks d'" using ti by (intro wrote_tracks_plain [OF w new_tracks_wf [OF d(1)] _ new_tracks_plain [OF d(1)]]) auto
  ultimately have a: "all_formatted gaptype base sector_length S pre dat d'" using d(2,3) by (simp add: all_formatted_def fl)
  have "map (\<lambda>th. concat (map (dat th) [0..<n])) ths =
    map (\<lambda>j. map (\<lambda>i. file_byte b autofill (j * (n * sector_length) + i)) [0..<n * sector_length]) [0..<length ths]"
  proof (rule nth_equalityI)
    fix j assume "j < length (map (\<lambda>th. concat (map (dat th) [0..<n])) ths)"
    then show "map (\<lambda>th. concat (map (dat th) [0..<n])) ths ! j =
      map (\<lambda>j. map (\<lambda>i. file_byte b autofill (j * (n * sector_length) + i)) [0..<n * sector_length]) [0..<length ths] ! j"
      using pos [of j] b(1) by (simp add: dat_def chunks_concat file_byte_rest)
  qed simp
  then have "concat (map (\<lambda>th. concat (map (dat th) [0..<n])) ths) = map (file_byte b autofill) [0..<length ths * (n * sector_length)]"
    by (simp add: concat_upt)
  then show thesis using that 1 a fl unfolding S_def by blast
qed

text \<open>Writing it back gives the bytes of the file.\<close>

lemma file_bytes_all:
  "index b + n = length (content b) \<Longrightarrow> map (file_byte b autofill) [0..<n] = drop (index b) (content b)"
  by (auto simp: file_byte_def intro!: nth_equalityI)

end
