(* ===== verification/Disk_Roundtrip.thy ===== *)
theory Disk_Roundtrip
  imports Disk_Whole
begin

text \<open>
  A disk image opened and written again: the steps that the formats share, and for each format of \<open>Disk_Images\<close>
  that can be opened the file that comes out.
\<close>

section \<open>What the formats share\<close>

lemma image_saved:
  assumes a: "all_formatted gaptype base sector_length ps pre dat d" and g: "gap_ok (gaps ! gaptype)"
    and gap2: "len (gaps ! gaptype) ! 2 > 0" "gap (gaps ! gaptype) = 0x4e" and n: "0 < length ps"
    and r: "base + length ps \<le> 256" and t: "cylinders d \<le> 256"
    and l: "sector_length = 128 * 2 ^ seclen" "calc_lenid sector_length = seclen" "seclen < 256"
    and s: "same_disk d e" and ths: "ths = disk_tracks d \<or> ths = out_out_tracks d"
    and room: "length ths * (length ps * sector_length) \<le> room f"
  obtains e2 e3 where "check_disk_geom e = (image_geom base (length ps) sector_length, e2)" "same_disk d e2"
    "disk_tracks (e2\<lparr>cylinders := cylinders d\<rparr>) = disk_tracks d" "out_out_tracks (e2\<lparr>cylinders := cylinders d\<rparr>) = out_out_tracks d"
    "save_tracks base (length ps) seclen ths e2 f = 
      (False, e3, f\<lparr>written := written f @ concat (map (\<lambda>th. concat (map (dat th) [0..<length ps])) ths),
        room := room f - length ths * (length ps * sector_length)\<rparr>)"
proof -
  have ae: "all_formatted gaptype base sector_length ps pre dat e" using a all_formatted_same_disk [OF s] by simp
  have ce: "cylinders e \<le> 256" using t s by (simp add: same_disk_def)
  obtain e2 where 1: "check_disk_geom e = (image_geom base (length ps) sector_length, e2)" and s2: "same_disk e e2"
    using check_formatted [OF ae g gap2 n r ce] l by auto
  have sd: "same_disk d e2" using same_disk_trans [OF s s2] .
  have "\<forall>th\<in>set ths. fst th < cylinders d \<and> snd th < sides d" using ths disk_tracks_set [of d] by auto
  from save_formatted [OF a g r l(1) this sd room] obtain e3 where
    "save_tracks base (length ps) seclen ths e2 f = 
      (False, e3, f\<lparr>written := written f @ concat (map (\<lambda>th. concat (map (dat th) [0..<length ps])) ths),
        room := room f - length ths * (length ps * sector_length)\<rparr>)" by blast
  moreover have "disk_tracks (e2\<lparr>cylinders := cylinders d\<rparr>) = disk_tracks d" "out_out_tracks (e2\<lparr>cylinders := cylinders d\<rparr>) = out_out_tracks d"
    using sd by (simp_all add: disk_tracks_def out_out_tracks_def same_disk_def)
  ultimately show thesis using that 1 sd by blast
qed

lemma gap_records:
  "gaps ! GAP_MGT_PLUSD = \<lparr>gap = 0x4e, sync = 0, sync_len = 12, mark = 0xa1, len = [0, 60, 22, 24]\<rparr>"
  "gaps ! GAP_TRDOS = \<lparr>gap = 0x4e, sync = 0, sync_len = 12, mark = 0xa1, len = [0, 10, 22, 60]\<rparr>"
  by (simp_all add: gaps_def GAP_MGT_PLUSD_def GAP_TRDOS_def)
lemma gap_tables:
  "gap_ok (gaps ! GAP_MGT_PLUSD)" "gap_ok (gaps ! GAP_TRDOS)" "len (gaps ! GAP_MGT_PLUSD) ! 2 = 22" "len (gaps ! GAP_TRDOS) ! 2 = 22"
  "len (gaps ! GAP_MGT_PLUSD) ! 3 = 24" "len (gaps ! GAP_TRDOS) ! 3 = 60" "gap (gaps ! GAP_MGT_PLUSD) = 0x4e" "gap (gaps ! GAP_TRDOS) = 0x4e"
  "start_len GAP_MGT_PLUSD pre = (if pre then 76 else 60)" "start_len GAP_TRDOS False = 10"
  "calc_sectorlen n GAP_MGT_PLUSD = n + 86" "calc_sectorlen n GAP_TRDOS = n + 122"
  by (simp_all add: gap_records gap_ok_def start_len_def start_cells_def calc_sectorlen_def mark_len_def Let_def)

lemma lenid_values: "calc_lenid 128 = 0" "calc_lenid 256 = 1" "calc_lenid 512 = 2" "calc_lenid 1024 = 3"
  by (simp_all add: calc_lenid.simps)

definition empty_file :: "nat \<Rightarrow> out_file" where
  "empty_file r = \<lparr>written = [], room = r\<rparr>"

lemma image_status_ok [simp]: "image_status (False, b, d) = d\<lparr>status := DISK_OK\<rparr>"
  by (simp add: image_status_def)

lemma all_formatted_status [simp]:
  "all_formatted gaptype base sector_length ps pre dat (d\<lparr>status := s\<rparr>) = all_formatted gaptype base sector_length ps pre dat d"
proof -
  have p: "DISK_SET_TRACK_IDX k (d\<lparr>status := s\<rparr>) = (DISK_SET_TRACK_IDX k d)\<lparr>status := s\<rparr>" for k
    by (simp add: DISK_SET_TRACK_IDX_def Let_def)
  have "formatted gaptype sd trk base sector_length ps pre x (e\<lparr>status := s\<rparr>) = formatted gaptype sd trk base sector_length ps pre x e" for sd trk x e
    by (rule formatted_view) (simp_all add: on_track_def track_byte_def clock_mark_def bitmap_test_def)
  then show ?thesis by (simp add: all_formatted_def plain_marks_def p DISK_SET_TRACK_def)
qed

lemma tracks_status [simp]: "disk_tracks (d\<lparr>status := s\<rparr>) = disk_tracks d" "out_out_tracks (d\<lparr>status := s\<rparr>) = out_out_tracks d"
  by (simp_all add: disk_tracks_def out_out_tracks_def)


text \<open>An image opened and written again, track by track: what every format below shares.\<close>

lemma image_cycle:
  assumes d: "density d = DISK_DD" "0 < sides d" "0 < cylinders d" "cylinders d \<le> 256"
    and ths: "ths = disk_tracks \<or> ths = out_out_tracks"
    and b: "index b \<le> length (content b)" "buffavail b = sides d * cylinders d * (n * sector_length)"
    and n: "0 < n" "base + n \<le> 256" and r: "(if pre then 76 else 60) + n * (sector_length + 86) < 6250"
    and ps: "distinct (slots n interleave n (0, 0)) \<and> (\<forall>p\<in>set (slots n interleave n (0, 0)). p < n)"
    and l: "sector_length = 128 * 2 ^ seclen" "calc_lenid sector_length = seclen" "seclen < 256"
    and room: "buffavail b \<le> room f"
  obtains d1 where "image_status (gen_tracks base n sector_length pre GAP_MGT_PLUSD interleave NO_AUTOFILL (ths (disk_alloc d)) b (disk_alloc d)) = d1"
    "status d1 = DISK_OK" "disk_type d1 = disk_type d" "sides d1 = sides d" "cylinders d1 = cylinders d" "\<And>e. same_disk d1 e \<Longrightarrow> same_disk e (update_tracks_mode e)"
    "\<And>e. same_disk d1 e \<Longrightarrow> \<exists>e2 e3. check_disk_geom e = (image_geom base n sector_length, e2) \<and> same_disk d1 e2 \<and>
      save_tracks base n seclen (ths (e2\<lparr>cylinders := cylinders d\<rparr>)) e2 f =
        (False, e3, f\<lparr>written := written f @ drop (index b) (content b), room := room f - buffavail b\<rparr>)"
proof -
  define d0 where "d0 = disk_alloc d"
  note A = disk_alloc_new [OF d(1-3), folded d0_def]
  have th: "ths d0 = disk_tracks d0 \<or> ths d0 = out_out_tracks d0" using ths by auto
  have lt: "length (ths d0) * (n * sector_length) = buffavail b" using th b(2) A(3,4) by (auto simp: tracks_distinct)
  obtain b' d' dat where 1: "gen_tracks base n sector_length pre GAP_MGT_PLUSD interleave NO_AUTOFILL (ths d0) b d0 = (False, b', d')"
    "all_formatted GAP_MGT_PLUSD base sector_length (slots n interleave n (0, 0)) pre dat d'"
    "sides d' = sides d0" "cylinders d' = cylinders d0" "disk_type d' = disk_type d0" "status d' = status d0"
    "concat (map (\<lambda>th. concat (map (dat th) [0..<n])) (ths d0)) = map (file_byte b NO_AUTOFILL) [0..<length (ths d0) * (n * sector_length)]"
  proof -
    have h: "0 < sides d0" "0 < cylinders d0" using d(2,3) A(3,4) by simp_all
    have i: "length (ths d0) * (n * sector_length) \<le> buffavail b \<or> 0 \<le> NO_AUTOFILL" by (simp add: lt)
    have r': "start_len GAP_MGT_PLUSD pre + n * calc_sectorlen sector_length GAP_MGT_PLUSD < bpt d0"
      "len (gaps ! GAP_MGT_PLUSD) ! 2 \<le> len (gaps ! GAP_MGT_PLUSD) ! 3" using r by (auto simp: gap_tables A(6))
    show thesis by (rule image_made [OF A(1) h th b(1) i r'(1) ps gap_tables(1) r'(2)]) (rule that)
  qed
  define d1 where "d1 = d'\<lparr>status := DISK_OK\<rparr>"
  have a: "all_formatted GAP_MGT_PLUSD base sector_length (slots n interleave n (0, 0)) pre dat d1" by (simp add: d1_def 1(2))
  have f1: "sides d1 = sides d" "cylinders d1 = cylinders d" "disk_type d1 = disk_type d" by (simp_all add: d1_def 1 A)
  have th1: "ths d1 = disk_tracks d1 \<or> ths d1 = out_out_tracks d1" and thd: "ths d1 = ths d0"
    using ths f1 A by (auto simp: disk_tracks_def out_out_tracks_def)
  have w: "concat (map (\<lambda>th. concat (map (dat th) [0..<n])) (ths d0)) = drop (index b) (content b)"
    using file_bytes_all [of b "buffavail b"] b(1) by (simp add: 1(7) lt buffavail_def)
  show thesis
  proof (rule that [of d1])
    show "same_disk e (update_tracks_mode e)" if "same_disk d1 e" for e
      using a plain_marks_same [OF that] by (intro update_tracks_mode_plain) (simp add: all_formatted_def)
    show "\<exists>e2 e3. check_disk_geom e = (image_geom base n sector_length, e2) \<and> same_disk d1 e2 \<and>
      save_tracks base n seclen (ths (e2\<lparr>cylinders := cylinders d\<rparr>)) e2 f =
        (False, e3, f\<lparr>written := written f @ drop (index b) (content b), room := room f - buffavail b\<rparr>)" if s: "same_disk d1 e" for e
    proof -
      have h: "0 < len (gaps ! GAP_MGT_PLUSD) ! 2" "0 < length (slots n interleave n (0, 0))"
        "base + length (slots n interleave n (0, 0)) \<le> 256" "cylinders d1 \<le> 256"
        using n d(4) f1 by (auto simp: gap_tables)
      have m: "length (ths d1) * (length (slots n interleave n (0, 0)) * sector_length) \<le> room f" using room by (simp add: lt thd)
      obtain e2 e3 where *: "check_disk_geom e = (image_geom base n sector_length, e2)" "same_disk d1 e2"
        "disk_tracks (e2\<lparr>cylinders := cylinders d1\<rparr>) = disk_tracks d1" "out_out_tracks (e2\<lparr>cylinders := cylinders d1\<rparr>) = out_out_tracks d1"
        "save_tracks base n seclen (ths d1) e2 f = (False, e3, f\<lparr>written := written f @ concat (map (\<lambda>th. concat (map (dat th) [0..<n])) (ths d1)),
          room := room f - length (ths d1) * (n * sector_length)\<rparr>)"
        by (rule image_saved [OF a gap_tables(1) h(1) gap_tables(7) h(2-4) l s th1 m, unfolded length_slots]) (rule that)
      have "ths (e2\<lparr>cylinders := cylinders d\<rparr>) = ths d1" using *(3,4) ths f1(2) by auto
      then show ?thesis using *(1,2,5) unfolding w thd lt by simp
    qed
  qed (simp_all add: 1(1,3-5) A(3-5) d1_def flip: d0_def)
qed

text \<open>Opening, and writing what was opened.\<close>

lemma same_disk_fields:
  "same_disk d d' \<Longrightarrow> disk_type d' = disk_type d \<and> status d' = status d \<and> sides d' = sides d \<and> cylinders d' = cylinders d"
  by (simp add: same_disk_def)

lemma disk_write_opened:
  assumes d: "status d = DISK_OK" "disk_type d \<noteq> DISK_TYPE_NONE"
    and p: "\<And>e. same_disk d e \<Longrightarrow> same_disk e (update_tracks_mode e)"
    and w: "\<And>e. same_disk d e \<Longrightarrow> \<exists>e'. write_image e f = Some (e', f') \<and> status e' = DISK_OK"
  shows "\<exists>d2. disk_write name True True ((update_tracks_mode (d\<lparr>dirty := False\<rparr>))\<lparr>status := DISK_OK\<rparr>) f = Some (d2, f') \<and> status d2 = DISK_OK"
proof -
  define e where "e = (update_tracks_mode (d\<lparr>dirty := False\<rparr>))\<lparr>status := DISK_OK\<rparr>"
  have c: "same_disk d (d\<lparr>dirty := False\<rparr>)" by (simp add: same_disk_def)
  have e: "same_disk d e" using same_disk_trans [OF c p [OF c]] d by (simp add: e_def same_disk_def)
  from w [OF same_disk_trans [OF e p [OF e]]] obtain e' where
    "write_image (update_tracks_mode e) f = Some (e', f')" "status e' = DISK_OK" by blast
  then show ?thesis
    unfolding e_def [symmetric] using d same_disk_fields [OF e] by (simp add: disk_write_def position_context_restore_def Let_def)
qed

text \<open>A disk structure before anything is opened.\<close>

definition no_disk :: disk where
  "no_disk = \<lparr>sides = 0, cylinders = 0, bpt = 0, wrprot = False, dirty = False, have_weak = False, status = DISK_OK, disk_data = (\<lambda>x. 0),
     tlen = 0, c_bpt = 0, track = 0, clocks = 0, fm = 0, weak = 0, at = 0, disk_type = DISK_TYPE_NONE, density = DISK_DENS_AUTO\<rparr>"

lemma image_geom_fields [simp]:
  "geom_base (image_geom base n l) = int base" "geom_sectors (image_geom base n l) = int n" "geom_seclen (image_geom base n l) = int (calc_lenid l)"
  "oddities (image_geom base n l) = 0" "used_cylinders (image_geom base n l) d = cylinders d"
  by (simp_all add: image_geom_def used_cylinders_def)

text \<open>C32. An image of one of the sizes of IMG and MGT (ten sectors of 512 bytes) or OPD (eighteen of 256) opens as a
  disk that writes to the same file, byte for byte, whatever the file holds.\<close>

theorem img_image_roundtrip:
  assumes geo: "img_geometry (length f) = Some (s, c, n, l)"
    and ty: "ty = ID_DISK_OPD \<and> l = 256 \<or> ty \<in> {ID_DISK_IMG, ID_DISK_MGT} \<and> l = 512" and r: "length f \<le> r"
  shows "\<exists>d1 d2 out. disk_open_buffer ty access_ok preindex \<lparr>content = f, index = 0\<rparr> d = Some d1 \<and> status d1 = DISK_OK \<and>
    disk_write name True True d1 (empty_file r) = Some (d2, out) \<and> status d2 = DISK_OK \<and> written out = f"
proof -
  define t where "t = (if ty = ID_DISK_OPD then DISK_OPD else if ty = ID_DISK_MGT then DISK_MGT else DISK_IMG)"
  define d0 where "d0 = d\<lparr>wrprot := \<not> access_ok, disk_type := t, sides := s, cylinders := c, density := DISK_DD\<rparr>"
  define b where "b = \<lparr>content = f, index = 0 :: nat\<rparr>"
  define base :: nat where "base = (if t = DISK_OPD then 0 else 1)"
  define il where "il = (if t = DISK_OPD then INTERLEAVE_OPUS else NO_INTERLEAVE)"
  define ths where "ths = (if t = DISK_IMG then out_out_tracks else disk_tracks)"
  define sl :: nat where "sl = (if t = DISK_OPD then 1 else 2)"
  have g: "length f = s * c * (n * l)" "0 < s" "0 < c" "c = 40 \<or> c = 80" "n = 10 \<and> l = 512 \<or> n = 18 \<and> l = 256"
    using geo by (auto simp: img_geometry_def split: if_splits)
  have tt: "t = DISK_OPD \<and> l = 256 \<and> n = 18 \<or> (t = DISK_IMG \<or> t = DISK_MGT) \<and> l = 512 \<and> n = 10" using ty g(5) by (auto simp: t_def)
  have h: "density d0 = DISK_DD" "0 < sides d0" "0 < cylinders d0" "cylinders d0 \<le> 256" "ths = disk_tracks \<or> ths = out_out_tracks"
    "index b \<le> length (content b)" "buffavail b = sides d0 * cylinders d0 * (n * l)" "0 < n" "base + n \<le> 256" 
    "(if False then 76 else 60) + n * (l + 86) < 6250" "l = 128 * 2 ^ sl" "calc_lenid l = sl" "sl < 256" "buffavail b \<le> room (empty_file r)"
    using g tt r by (auto simp: d0_def ths_def b_def buffavail_def base_def sl_def lenid_values empty_file_def)
  have S: "distinct (slots n il n (0, 0)) \<and> (\<forall>p\<in>set (slots n il n (0, 0)). p < n)"
    using tt slots_distinct by (auto simp: il_def)
  obtain d1 where o: "image_status (gen_tracks base n l False GAP_MGT_PLUSD il NO_AUTOFILL (ths (disk_alloc d0)) b (disk_alloc d0)) = d1"
    and d1: "status d1 = DISK_OK" "disk_type d1 = disk_type d0" "sides d1 = sides d0" "cylinders d1 = cylinders d0"
      "\<And>e. same_disk d1 e \<Longrightarrow> same_disk e (update_tracks_mode e)"
    and w: "\<And>e. same_disk d1 e \<Longrightarrow> \<exists>e2 e3. check_disk_geom e = (image_geom base n l, e2) \<and> same_disk d1 e2 \<and>
      save_tracks base n sl (ths (e2\<lparr>cylinders := cylinders d0\<rparr>)) e2 (empty_file r) =
        (False, e3, (empty_file r)\<lparr>written := written (empty_file r) @ drop (index b) (content b), room := room (empty_file r) - buffavail b\<rparr>)"
    by (rule image_cycle [OF h(1-10) S h(11-14)]) (rule that)
  define out where "out = (empty_file r)\<lparr>written := written (empty_file r) @ drop (index b) (content b), room := room (empty_file r) - buffavail b\<rparr>"
  have A: "disk_type (disk_alloc d0) = t" "status (disk_alloc d0) = DISK_OK" using disk_alloc_new [OF h(1-3)] by (simp_all add: d0_def)
  have "open_img_mgt_opd b (d\<lparr>wrprot := \<not> access_ok, disk_type := t\<rparr>) = image_status
     (if t = DISK_IMG then gen_tracks 1 n l False GAP_MGT_PLUSD NO_INTERLEAVE NO_AUTOFILL (out_out_tracks (disk_alloc d0)) b (disk_alloc d0)
      else gen_tracks (if t = DISK_MGT then 1 else 0) n l False GAP_MGT_PLUSD (if t = DISK_MGT then NO_INTERLEAVE else INTERLEAVE_OPUS)
        NO_AUTOFILL (disk_tracks (disk_alloc d0)) b (disk_alloc d0))"
  proof -
    have "d\<lparr>wrprot := \<not> access_ok, disk_type := t, sides := s, cylinders := c, density := DISK_DD\<rparr> = d0" "b\<lparr>index := 0\<rparr> = b"
      "img_geometry (length (content b)) = Some (s, c, n, l)" using geo by (simp_all add: d0_def b_def)
    then show ?thesis unfolding open_img_mgt_opd_def by (simp only: option.case prod.case Let_def A simp_thms if_False)
  qed
  also have "\<dots> = d1" using o tt by (auto simp: base_def il_def ths_def)
  finally have "open_img_mgt_opd b (d\<lparr>wrprot := \<not> access_ok, disk_type := t\<rparr>) = d1" .
  then have op: "disk_open_buffer ty access_ok preindex b d = Some ((update_tracks_mode (d1\<lparr>dirty := False\<rparr>))\<lparr>status := DISK_OK\<rparr>)"
    using ty d1(1) by (auto simp: disk_open_buffer_def t_def)
  have "\<exists>e'. write_image e (empty_file r) = Some (e', out) \<and> status e' = DISK_OK" if e: "same_disk d1 e" for e
  proof -
    obtain e2 e3 where 1: "check_disk_geom e = (image_geom base n l, e2)" "same_disk d1 e2"
      "save_tracks base n sl (ths (e2\<lparr>cylinders := c\<rparr>)) e2 (empty_file r) = (False, e3, out)"
      using w [OF e] by (auto simp: out_def d0_def)
    have f: "disk_type e = t" "disk_type e2 = t" "cylinders e2 = c" 
      using same_disk_fields [OF e] same_disk_fields [OF 1(2)] d1 by (simp_all add: d0_def)
    have "write_img_mgt_opd e (empty_file r) = (e3\<lparr>status := DISK_OK\<rparr>, out)"
      using 1(3) tt g(4) unfolding write_img_mgt_opd_def 1(1) prod.case Let_def
      by (elim disjE conjE) (simp_all add: f lenid_values base_def sl_def ths_def saved_status_def)
    then show ?thesis using tt by (auto simp: write_image_def f)
  qed
  from disk_write_opened [OF d1(1) _ d1(5) this, of name] have
    "\<exists>d2. disk_write name True True ((update_tracks_mode (d1\<lparr>dirty := False\<rparr>))\<lparr>status := DISK_OK\<rparr>) (empty_file r) = Some (d2, out) \<and> status d2 = DISK_OK"
    using tt by (auto simp: d1 d0_def)
  moreover have "written out = f" by (simp add: out_def empty_file_def b_def)
  ultimately show ?thesis unfolding b_def [symmetric] op by auto
qed

lemma img_image_roundtrip_witness:
  "\<exists>d1 d2 out. disk_open_buffer ID_DISK_MGT True False \<lparr>content = replicate 204800 0xa1, index = 0\<rparr> no_disk = Some d1 \<and> status d1 = DISK_OK \<and>
    disk_write ''a.mgt'' True True d1 (empty_file 300000) = Some (d2, out) \<and> status d2 = DISK_OK \<and> written out = replicate 204800 0xa1"
  by (rule img_image_roundtrip [where s = 1 and c = 40 and n = 10 and l = 512]) (simp_all add: img_geometry_def)


lemma sector_lengths:
  assumes "k \<in> {2, 4, 8, 16 :: nat}"
  shows "k * 64 = 128 * 2 ^ calc_lenid (k * 64)" "calc_lenid (k * 64) < 256"
  using assms by (auto simp: lenid_values)

lemma sad_header:
  assumes "h = sad_signature @ [s, c, n, k]"
  shows "length h = 22" "(h @ dat) ! 18 = s" "(h @ dat) ! 19 = c" "(h @ dat) ! 20 = n" "(h @ dat) ! 21 = k"
proof -
  have "length sad_signature = 18" by (simp add: sad_signature_def)
  then show "length h = 22" "(h @ dat) ! 18 = s" "(h @ dat) ! 19 = c" "(h @ dat) ! 20 = n" "(h @ dat) ! 21 = k"
    by (simp_all add: assms nth_append)
qed

text \<open>C33. A SAD image that fits its tracks opens and is written again with the same sectors. The sector length of
  the header is written as four times its code and read as a multiple of 64, which agree for 256 and 512 bytes only: the file of
  a disk with 128-byte sectors gets 0 there and that of 1024-byte sectors gets 12.\<close>

theorem sad_image_roundtrip:
  assumes f: "f = sad_signature @ [s, c, n, k] @ dat" and s: "s = 1 \<or> s = 2" and c: "1 \<le> unat c" "unat c \<le> 86"
    and n: "0 < unat n" "(if preindex then 76 else 60) + unat n * (unat k * 64 + 86) < 6250" and k: "unat k \<in> {2, 4, 8, 16}"
    and l: "length dat = unat s * unat c * (unat n * (unat k * 64))" and r: "length f \<le> r"
  shows "\<exists>d1 d2 out. disk_open_buffer ID_DISK_SAD access_ok preindex \<lparr>content = f, index = 0\<rparr> d = Some d1 \<and> status d1 = DISK_OK \<and>
    disk_write name True True d1 (empty_file r) = Some (d2, out) \<and> status d2 = DISK_OK \<and>
    written out = sad_signature @ [s, c, n, of_nat (calc_lenid (unat k * 64) * 4)] @ dat"
proof -
  define h where "h = sad_signature @ [s, c, n, k]"
  have fh: "f = h @ dat" by (simp add: f h_def)
  note H = sad_header(1) [OF h_def] sad_header(2-5) [OF h_def, of dat, folded fh]
  define L where "L = unat k * 64"
  define d0 where "d0 = d\<lparr>wrprot := \<not> access_ok, disk_type := DISK_SAD, sides := unat s, cylinders := unat c, density := DISK_DD\<rparr>"
  define b where "b = \<lparr>content = f, index = 22 :: nat\<rparr>"
  define hd' where "hd' = sad_signature @ [s, c, n, of_nat (calc_lenid L * 4)]"
  have lh: "length hd' = 22" unfolding hd'_def by (rule sad_header(1)) (rule refl)
  define g where "g = \<lparr>written = hd', room = r - 22\<rparr>"
  have rm: "22 + length dat \<le> r" using r H(1) by (simp add: fh)
  have hyp: "density d0 = DISK_DD" "0 < sides d0" "0 < cylinders d0" "cylinders d0 \<le> 256" "out_out_tracks = disk_tracks \<or> out_out_tracks = out_out_tracks"
    "index b \<le> length (content b)" "buffavail b = sides d0 * cylinders d0 * (unat n * L)" "0 < unat n" "1 + unat n \<le> 256"
    "(if preindex then 76 else 60) + unat n * (L + 86) < 6250" "L = 128 * 2 ^ calc_lenid L" "calc_lenid L = calc_lenid L" "calc_lenid L < 256"
    "buffavail b \<le> room g"
    using s c n l rm H(1) sector_lengths [OF k] unat_u8_bound [of n]
    by (auto simp: d0_def b_def buffavail_def fh L_def g_def)
  have S: "distinct (slots (unat n) NO_INTERLEAVE (unat n) (0, 0)) \<and> (\<forall>p\<in>set (slots (unat n) NO_INTERLEAVE (unat n) (0, 0)). p < unat n)"
    using slots_distinct(1) .
  obtain d1 where o: "image_status (gen_tracks 1 (unat n) L preindex GAP_MGT_PLUSD NO_INTERLEAVE NO_AUTOFILL (out_out_tracks (disk_alloc d0)) b (disk_alloc d0)) = d1"
    and d1: "status d1 = DISK_OK" "disk_type d1 = disk_type d0" "sides d1 = sides d0" "cylinders d1 = cylinders d0"
      "\<And>e. same_disk d1 e \<Longrightarrow> same_disk e (update_tracks_mode e)"
    and w: "\<And>e. same_disk d1 e \<Longrightarrow> \<exists>e2 e3. check_disk_geom e = (image_geom 1 (unat n) L, e2) \<and> same_disk d1 e2 \<and>
      save_tracks 1 (unat n) (calc_lenid L) (out_out_tracks (e2\<lparr>cylinders := cylinders d0\<rparr>)) e2 g =
        (False, e3, g\<lparr>written := written g @ drop (index b) (content b), room := room g - buffavail b\<rparr>)"
    by (rule image_cycle [OF hyp(1-10) S hyp(11-14)]) (rule that)
  define out where "out = g\<lparr>written := written g @ drop (index b) (content b), room := room g - buffavail b\<rparr>"
  have ng: "geom_fails (d\<lparr>wrprot := \<not> access_ok, disk_type := DISK_SAD, sides := unat s, cylinders := unat c\<rparr>) = False"
    using s c by (auto simp: geom_fails_def)
  have "open_sad preindex \<lparr>content = f, index = 0\<rparr> (d\<lparr>wrprot := \<not> access_ok, disk_type := DISK_SAD\<rparr>) = Some d1"
  proof -
    have A: "status (disk_alloc d0) = DISK_OK" using disk_alloc_new [OF hyp(1-3)] by simp
    show ?thesis using H rm o A ng by (simp add: open_sad_def buffavail_def fh L_def b_def Let_def flip: d0_def)
  qed
  then have op: "disk_open_buffer ID_DISK_SAD access_ok preindex \<lparr>content = f, index = 0\<rparr> d =
    Some ((update_tracks_mode (d1\<lparr>dirty := False\<rparr>))\<lparr>status := DISK_OK\<rparr>)"
    using d1(1) by (simp add: disk_open_buffer_def)
  have wh: "fwrite hd' (empty_file r) = (True, g)" using rm lh by (simp add: fwrite_def empty_file_def g_def)
  have "\<exists>e'. write_image e (empty_file r) = Some (e', out) \<and> status e' = DISK_OK" if e: "same_disk d1 e" for e
  proof -
    obtain e2 e3 where 1: "check_disk_geom e = (image_geom 1 (unat n) L, e2)" "same_disk d1 e2"
      "save_tracks 1 (unat n) (calc_lenid L) (out_out_tracks (e2\<lparr>cylinders := unat c\<rparr>)) e2 g = (False, e3, out)"
      using w [OF e] by (auto simp: out_def d0_def)
    have f: "disk_type e = DISK_SAD" "sides e2 = unat s" "cylinders e2 = unat c"
      using same_disk_fields [OF e] same_disk_fields [OF 1(2)] d1 by (simp_all add: d0_def)
    have "sad_signature @ [of_nat (sides e2), of_nat (cylinders e2), of_int (int (unat n)), of_int (int (calc_lenid L) * 4)] = hd'"
      by (simp add: hd'_def f)
    then have "write_sad e (empty_file r) = (e3\<lparr>status := DISK_OK\<rparr>, out)"
      using 1(3) wh by (simp add: write_sad_def 1(1) Let_def saved_status_def f)
    then show ?thesis by (auto simp: write_image_def f)
  qed
  from disk_write_opened [OF d1(1) _ d1(5) this, of name] have
    "\<exists>d2. disk_write name True True ((update_tracks_mode (d1\<lparr>dirty := False\<rparr>))\<lparr>status := DISK_OK\<rparr>) (empty_file r) = Some (d2, out) \<and> status d2 = DISK_OK"
    by (simp add: d1 d0_def)
  moreover have "written out = sad_signature @ [s, c, n, of_nat (calc_lenid (unat k * 64) * 4)] @ dat"
    using H(1) by (simp add: out_def g_def hd'_def L_def b_def fh)
  ultimately show ?thesis unfolding op by auto
qed

lemma sad_image_roundtrip_witness:
  "\<exists>d1 d2 out. disk_open_buffer ID_DISK_SAD True True \<lparr>content = sad_signature @ [2, 40, 5, 16] @ replicate 409600 0xe5, index = 0\<rparr> no_disk = Some d1 \<and>
    status d1 = DISK_OK \<and> disk_write ''a.sad'' True True d1 (empty_file 500000) = Some (d2, out) \<and> status d2 = DISK_OK \<and>
    written out = sad_signature @ [2, 40, 5, of_nat (calc_lenid (unat (16 :: u8) * 64) * 4)] @ replicate 409600 0xe5"
  by (rule sad_image_roundtrip) (simp_all add: sad_header(1) [OF refl, unfolded length_append] sad_signature_def)


text \<open>A D80 image, whose boot sector holds the numbers of sides, cylinders and sectors, opens as a disk that writes
  to the same file.\<close>

lemma d80_image_roundtrip:
  assumes s: "s = (if f ! 0xb1 AND 0x10 \<noteq> 0 then 2 else 1)" and c: "c = unat (f ! 0xb2)" "1 \<le> c" "c \<le> 83" and n: "n = unat (f ! 0xb3)" "1 \<le> n" "n \<le> 10"
    and l: "length f = s * c * (n * 512)" "length f \<le> r"
  shows "\<exists>d1 d2 out. disk_open_buffer ID_DISK_D80 access_ok preindex \<lparr>content = f, index = 0\<rparr> d = Some d1 \<and> status d1 = DISK_OK \<and>
    disk_write name True True d1 (empty_file r) = Some (d2, out) \<and> status d2 = DISK_OK \<and> written out = f"
proof -
  define d0 where "d0 = d\<lparr>wrprot := \<not> access_ok, disk_type := DISK_D80, sides := s, cylinders := c, density := DISK_DD\<rparr>"
  define b where "b = \<lparr>content = f, index = 0 :: nat\<rparr>"
  have s12: "s = 1 \<or> s = 2" using s by simp
  have hyp: "density d0 = DISK_DD" "0 < sides d0" "0 < cylinders d0" "cylinders d0 \<le> 256" "disk_tracks = disk_tracks \<or> disk_tracks = out_out_tracks"
    "index b \<le> length (content b)" "buffavail b = sides d0 * cylinders d0 * (n * 512)" "0 < n" "1 + n \<le> 256"
    "(if False then 76 else 60) + n * (512 + 86) < 6250" "(512::nat) = 128 * 2 ^ 2" "calc_lenid 512 = 2" "(2::nat) < 256"
    "buffavail b \<le> room (empty_file r)"
    using s12 c(2,3) n(2,3) l by (auto simp: d0_def b_def buffavail_def lenid_values empty_file_def)
  obtain d1 where o: "image_status (gen_tracks 1 n 512 False GAP_MGT_PLUSD NO_INTERLEAVE NO_AUTOFILL (disk_tracks (disk_alloc d0)) b (disk_alloc d0)) = d1"
    and d1: "status d1 = DISK_OK" "disk_type d1 = disk_type d0" "sides d1 = sides d0" "cylinders d1 = cylinders d0"
      "\<And>e. same_disk d1 e \<Longrightarrow> same_disk e (update_tracks_mode e)"
    and w: "\<And>e. same_disk d1 e \<Longrightarrow> \<exists>e2 e3. check_disk_geom e = (image_geom 1 n 512, e2) \<and> same_disk d1 e2 \<and>
      save_tracks 1 n 2 (disk_tracks (e2\<lparr>cylinders := cylinders d0\<rparr>)) e2 (empty_file r) =
        (False, e3, (empty_file r)\<lparr>written := written (empty_file r) @ drop (index b) (content b), room := room (empty_file r) - buffavail b\<rparr>)"
    by (rule image_cycle [OF hyp(1-10) slots_distinct(1) hyp(11-14)]) (rule that)
  define out where "out = (empty_file r)\<lparr>written := written (empty_file r) @ drop (index b) (content b), room := room (empty_file r) - buffavail b\<rparr>"
  have e: "(if f ! 0xb1 AND 0x10 \<noteq> 0 then 2 else 1) = s" "unat (f ! 0xb2) = c" "unat (f ! 0xb3) = n" using s c n by simp_all
  have "1 * 1 * (1 * 512) \<le> s * c * (n * 512)" by (intro mult_le_mono) (use s12 c(2) n(2) in auto)
  moreover have "buffavail b = s * c * (n * 512)" by (simp add: buffavail_def b_def l)
  ultimately have big: "\<not> buffavail b < 180" by linarith
  have bad: "(s < 1 \<or> s > 2 \<or> c > 83 \<or> n > 127) = False" using s12 c(3) n(3) by auto
  have "open_d40_d80 b (d\<lparr>wrprot := \<not> access_ok, disk_type := DISK_D80\<rparr>) = d1"
  proof -
    have A: "status (disk_alloc d0) = DISK_OK" using disk_alloc_new [OF hyp(1-3)] by simp
    have "d\<lparr>wrprot := \<not> access_ok, disk_type := DISK_D80, sides := s, cylinders := c, density := DISK_DD\<rparr> = d0"
      "index b = 0" "content b = f" by (simp_all add: d0_def b_def)
    moreover have b0: "b\<lparr>index := 0\<rparr> = b" by (simp add: b_def)
    ultimately show ?thesis using o A big bad by (simp add: open_d40_d80_def Let_def e b0)
  qed
  then have op: "disk_open_buffer ID_DISK_D80 access_ok preindex b d = Some ((update_tracks_mode (d1\<lparr>dirty := False\<rparr>))\<lparr>status := DISK_OK\<rparr>)"
    using d1(1) by (simp add: disk_open_buffer_def)
  have "\<exists>e'. write_image e (empty_file r) = Some (e', out) \<and> status e' = DISK_OK" if e: "same_disk d1 e" for e
  proof -
    obtain e2 e3 where 1: "check_disk_geom e = (image_geom 1 n 512, e2)" "same_disk d1 e2"
      "save_tracks 1 n 2 (disk_tracks (e2\<lparr>cylinders := c\<rparr>)) e2 (empty_file r) = (False, e3, out)"
      using w [OF e] by (auto simp: out_def d0_def)
    have f: "disk_type e = DISK_D80" "disk_type e2 = DISK_D80" "cylinders e2 = c"
      using same_disk_fields [OF e] same_disk_fields [OF 1(2)] d1 by (simp_all add: d0_def)
    have "write_d40_d80 e (empty_file r) = (e3\<lparr>status := DISK_OK\<rparr>, out)"
      using 1(3) c(3) by (simp add: write_d40_d80_def 1(1) Let_def saved_status_def f lenid_values)
    then show ?thesis by (auto simp: write_image_def f)
  qed
  from disk_write_opened [OF d1(1) _ d1(5) this, of name] have
    "\<exists>d2. disk_write name True True ((update_tracks_mode (d1\<lparr>dirty := False\<rparr>))\<lparr>status := DISK_OK\<rparr>) (empty_file r) = Some (d2, out) \<and> status d2 = DISK_OK"
    by (simp add: d1 d0_def)
  moreover have "written out = f" by (simp add: out_def empty_file_def b_def)
  ultimately show ?thesis unfolding b_def [symmetric] op by auto
qed

lemma d80_image_roundtrip_witness:
  "\<exists>d1 d2 out. disk_open_buffer ID_DISK_D80 True False \<lparr>content = replicate 8192 0x04, index = 0\<rparr> no_disk = Some d1 \<and> status d1 = DISK_OK \<and>
    disk_write ''a.d80'' True True d1 (empty_file 300000) = Some (d2, out) \<and> status d2 = DISK_OK \<and> written out = replicate 8192 0x04"
  by (rule d80_image_roundtrip [where s = 1 and c = 4 and n = 4]) (simp_all)


text \<open>The type byte of a track.\<close>

lemma foldl_or_none: "(foldl (\<lambda>m j. m OR uint (f j :: u8)) (0::int) js = 0) = (\<forall>j\<in>set js. f j = 0)"
proof -
  have "(foldl (\<lambda>m j. m OR uint (f j)) (z::int) js = 0) = (z = 0 \<and> (\<forall>j\<in>set js. f j = 0))" for z
    by (induction js arbitrary: z) (auto simp: or_eq_0_iff uint_0_iff)
  then show ?thesis by auto
qed

lemma foldl_or_not: "(foldl (\<lambda>m j. m OR NOT (uint (f j :: u8))) (0::int) js = 0) = (js = [])"
proof -
  have neg: "z < 0 \<Longrightarrow> foldl (\<lambda>m j. m OR NOT (uint (f j))) (z::int) js < 0" for z js
    by (induction js arbitrary: z) (auto simp: or_negative_int_iff)
  show ?thesis
  proof (cases js)
    case (Cons j js')
    have "0 OR NOT (uint (f j)) < (0::int)" by (simp add: not_negative_int_iff)
    from neg [OF this, of js'] Cons show ?thesis by simp
  qed simp
qed

text \<open>C34. The type byte of a track is recomputed as mixed when any FM mark is set and as MFM otherwise, never as FM: the complement
  of a mark byte is taken in \<open>int\<close> and is never zero.\<close>

theorem track_mode_byte:
  "let n = DISK_CLEN (c_bpt d); any_fm = (\<exists>j\<in>{0..<n}. disk_data d (fm d + j) \<noteq> 0); any_weak = (\<exists>j\<in>{0..<n}. disk_data d (weak d + j) \<noteq> 0);
     ty = (if n = 0 then disk_data d (track d - 1) else if any_fm then 0x02 else 0x00)
   in track_mode d = d\<lparr>disk_data := (disk_data d)(track d - 1 := if any_weak then ty OR 0x80 else ty), have_weak := any_weak \<or> have_weak d\<rparr>"
proof -
  define n where "n = DISK_CLEN (c_bpt d)"
  define F where "F = (\<exists>j\<in>{0..<n}. disk_data d (fm d + j) \<noteq> 0)"
  define W where "W = (\<exists>j\<in>{0..<n}. disk_data d (weak d + j) \<noteq> 0)"
  have c: "(foldl (\<lambda>m j. m OR NOT (uint (disk_data d (fm d + j)))) (0::int) (rev [0..<n]) = 0) = (n = 0)"
    "(foldl (\<lambda>m j. m OR uint (disk_data d (fm d + j))) (0::int) (rev [0..<n]) = 0) = (\<not> F)"
    "(foldl (\<lambda>m j. m OR uint (disk_data e (weak e + j))) (0::int) (rev [0..<n]) = 0) = (\<not> (\<exists>j\<in>{0..<n}. disk_data e (weak e + j) \<noteq> 0))" for e
    unfolding foldl_or_none foldl_or_not F_def by auto
  have fn: "F \<Longrightarrow> n \<noteq> 0" by (auto simp: F_def)
  show ?thesis
    unfolding track_mode_def Let_def n_def [symmetric] F_def [symmetric] W_def [symmetric] c
    using fn by (auto simp: put_def fun_upd_idem)
qed

end
