(* ===== verification/Startup.thy ===== *)
theory Startup
  imports Prelude "HOL-Library.Multiset"
begin

text \<open>
  The startup manager, \<open>infrastructure/startup_manager.c\<close>: modules register an initialisation and an end
  function with the modules they depend on; a run calls each initialisation when its dependencies have been
  called, and the end functions are called in the inverse order. The functions of the modules are parameters: they act on
  a state \<open>'s\<close> that does not contain the manager.
\<close>

section \<open>The arrays of GLib\<close>

text \<open>\<open>g_array_remove_index_fast\<close> moves the last element to the place of the one removed.\<close>

definition remove_index_fast :: "'a list \<Rightarrow> nat \<Rightarrow> 'a list" where
  "remove_index_fast xs i = (butlast xs)[i := last xs]"

lemma remove_index_fast_split:
  assumes "i < length xs"
  shows "mset (remove_index_fast xs i) = mset xs - {#xs ! i#}" "length (remove_index_fast xs i) = length xs - 1"
proof -
  obtain ys y where xs: "xs = ys @ [y]" using assms by (cases xs rule: rev_cases) auto
  show "mset (remove_index_fast xs i) = mset xs - {#xs ! i#}"
    using assms by (auto simp: xs remove_index_fast_def mset_update nth_append less_Suc_eq list_update_beyond)
qed (simp add: remove_index_fast_def)

lemma remove_index_fast_map: "i < length xs \<Longrightarrow> remove_index_fast (map f xs) i = map f (remove_index_fast xs i)"
  by (cases xs rule: rev_cases) (simp_all add: remove_index_fast_def map_update)

section \<open>The modules\<close>

datatype startup_manager_module =
    STARTUP_MANAGER_MODULE_AY | STARTUP_MANAGER_MODULE_BETA | STARTUP_MANAGER_MODULE_COVOX
  | STARTUP_MANAGER_MODULE_CREATOR | STARTUP_MANAGER_MODULE_DEBUGGER | STARTUP_MANAGER_MODULE_DIDAKTIK
  | STARTUP_MANAGER_MODULE_DISCIPLE | STARTUP_MANAGER_MODULE_DISPLAY | STARTUP_MANAGER_MODULE_DIVIDE
  | STARTUP_MANAGER_MODULE_DIVMMC | STARTUP_MANAGER_MODULE_EVENT | STARTUP_MANAGER_MODULE_FDD
  | STARTUP_MANAGER_MODULE_FULLER | STARTUP_MANAGER_MODULE_GENERAL_SOUND | STARTUP_MANAGER_MODULE_IF1
  | STARTUP_MANAGER_MODULE_IF2 | STARTUP_MANAGER_MODULE_JOYSTICK | STARTUP_MANAGER_MODULE_KEMPMOUSE
  | STARTUP_MANAGER_MODULE_KEYBOARD | STARTUP_MANAGER_MODULE_LIBSPECTRUM | STARTUP_MANAGER_MODULE_LIBXML2
  | STARTUP_MANAGER_MODULE_MACHINE | STARTUP_MANAGER_MODULE_MACHINES_PERIPH | STARTUP_MANAGER_MODULE_MELODIK
  | STARTUP_MANAGER_MODULE_MEMORY | STARTUP_MANAGER_MODULE_MEMPOOL | STARTUP_MANAGER_MODULE_MULTIFACE
  | STARTUP_MANAGER_MODULE_OPUS | STARTUP_MANAGER_MODULE_PHANTOM_TYPIST | STARTUP_MANAGER_MODULE_PLUSD
  | STARTUP_MANAGER_MODULE_PRINTER | STARTUP_MANAGER_MODULE_PROFILE | STARTUP_MANAGER_MODULE_PSG
  | STARTUP_MANAGER_MODULE_RZX | STARTUP_MANAGER_MODULE_SCLD | STARTUP_MANAGER_MODULE_SCREENSHOT
  | STARTUP_MANAGER_MODULE_SETTINGS_END | STARTUP_MANAGER_MODULE_SETUID | STARTUP_MANAGER_MODULE_SIMPLEIDE
  | STARTUP_MANAGER_MODULE_SLT | STARTUP_MANAGER_MODULE_SOUND | STARTUP_MANAGER_MODULE_SPECCYBOOT
  | STARTUP_MANAGER_MODULE_SPECDRUM | STARTUP_MANAGER_MODULE_SPECTRANET | STARTUP_MANAGER_MODULE_SPECTRUM
  | STARTUP_MANAGER_MODULE_TAPE | STARTUP_MANAGER_MODULE_TTX2000S | STARTUP_MANAGER_MODULE_TIMER
  | STARTUP_MANAGER_MODULE_ULA | STARTUP_MANAGER_MODULE_ULAPLUS | STARTUP_MANAGER_MODULE_USOURCE
  | STARTUP_MANAGER_MODULE_USPEECH | STARTUP_MANAGER_MODULE_Z80 | STARTUP_MANAGER_MODULE_ZXATASP
  | STARTUP_MANAGER_MODULE_ZXCF | STARTUP_MANAGER_MODULE_ZXMMC

record ('c, 's) registered_module =
  startup_module :: startup_manager_module
  dependencies :: "startup_manager_module list"
  init_fn :: "('c \<Rightarrow> 's \<Rightarrow> int \<times> 's) option"
  init_context :: 'c
  end_fn :: "('s \<Rightarrow> 's) option"

record ('c, 's) startup_manager =
  registered_modules :: "('c, 's) registered_module list"
  end_functions :: "('s \<Rightarrow> 's) list"

definition startup_manager_init :: "('c, 's) startup_manager" where
  "startup_manager_init = \<lparr>registered_modules = [], end_functions = []\<rparr>"

definition startup_manager_register ::
  "startup_manager_module \<Rightarrow> startup_manager_module list \<Rightarrow> ('c \<Rightarrow> 's \<Rightarrow> int \<times> 's) option \<Rightarrow> 'c \<Rightarrow> ('s \<Rightarrow> 's) option \<Rightarrow>
    ('c, 's) startup_manager \<Rightarrow> ('c, 's) startup_manager" where
  "startup_manager_register m deps init ctx end_function mgr = mgr\<lparr>registered_modules := registered_modules mgr @
     [\<lparr>startup_module = m, dependencies = deps, init_fn = init, init_context = ctx, end_fn = end_function\<rparr>]\<rparr>"

definition startup_manager_register_no_dependencies ::
  "startup_manager_module \<Rightarrow> ('c \<Rightarrow> 's \<Rightarrow> int \<times> 's) option \<Rightarrow> 'c \<Rightarrow> ('s \<Rightarrow> 's) option \<Rightarrow>
    ('c, 's) startup_manager \<Rightarrow> ('c, 's) startup_manager" where
  "startup_manager_register_no_dependencies m init ctx end_function mgr = startup_manager_register m [] init ctx end_function mgr"

text \<open>The first occurrence of a module among the dependencies of each module is taken away.\<close>

fun first_index :: "'a \<Rightarrow> 'a list \<Rightarrow> nat option" where
  "first_index x [] = None"
| "first_index x (y # ys) = (if y = x then Some 0 else map_option Suc (first_index x ys))"

definition remove_dependency :: "startup_manager_module \<Rightarrow> ('c, 's) registered_module list \<Rightarrow> ('c, 's) registered_module list" where
  "remove_dependency m rs = map (\<lambda>r. case first_index m (dependencies r) of
     None \<Rightarrow> r | Some j \<Rightarrow> r\<lparr>dependencies := remove_index_fast (dependencies r) j\<rparr>) rs"

definition call_init :: "('c, 's) registered_module \<Rightarrow> 's \<Rightarrow> int \<times> 's" where
  "call_init r s = (case init_fn r of None \<Rightarrow> (0, s) | Some f \<Rightarrow> f (init_context r) s)"

definition add_end :: "('c, 's) registered_module \<Rightarrow> ('s \<Rightarrow> 's) list \<Rightarrow> ('s \<Rightarrow> 's) list" where
  "add_end r es = (case end_fn r of None \<Rightarrow> es | Some f \<Rightarrow> es @ [f])"

text \<open>One pass over the array: an error, whether something was called, the manager and the state.\<close>

function startup_pass :: "nat \<Rightarrow> bool \<Rightarrow> ('c, 's) startup_manager \<Rightarrow> 's \<Rightarrow> int \<times> bool \<times> ('c, 's) startup_manager \<times> 's" where
  "startup_pass i progress_made mgr s =
    (if i < length (registered_modules mgr)
     then let r = registered_modules mgr ! i in
          if dependencies r = []
          then (case call_init r s of (error, s) \<Rightarrow>
                  if error \<noteq> 0 then (error, progress_made, mgr, s)
                  else startup_pass i True
                         \<lparr>registered_modules = remove_index_fast (remove_dependency (startup_module r) (registered_modules mgr)) i,
                          end_functions = add_end r (end_functions mgr)\<rparr> s)
          else startup_pass (i + 1) progress_made mgr s
     else (0, progress_made, mgr, s))"
  by pat_completeness auto
termination
  by (relation "measure (\<lambda>(i, p, mgr, s). length (registered_modules mgr) - i)")
    (auto simp: remove_index_fast_split(2) remove_dependency_def)

declare startup_pass.simps [simp del]

lemma remove_dependency_length [simp]: "length (remove_dependency m rs) = length rs"
  by (simp add: remove_dependency_def)

lemma startup_pass_length:
  "startup_pass i p mgr s = (e, p', mgr', s') \<Longrightarrow> length (registered_modules mgr') \<le> length (registered_modules mgr) \<and>
     (p' \<and> \<not> p \<longrightarrow> length (registered_modules mgr') < length (registered_modules mgr))"
proof (induction i p mgr s rule: startup_pass.induct)
  case (1 i p mgr s)
  show ?case
  proof (cases "i < length (registered_modules mgr) \<and> dependencies (registered_modules mgr ! i) = []")
    case True
    obtain e1 s1 where c: "call_init (registered_modules mgr ! i) s = (e1, s1)" by fastforce
    show ?thesis
    proof (cases "e1 = 0")
      case z: True
      have "length (registered_modules mgr') \<le> length (registered_modules mgr) - 1"
        using "1.IH"(1) [OF conjunct1 [OF True] refl conjunct2 [OF True] c [symmetric]] "1.prems" True c z
        by (subst (asm) (2) startup_pass.simps) (simp add: remove_index_fast_split(2) Let_def)
      then show ?thesis using True by auto
    next
      case False
      then show ?thesis using "1.prems" True c by (subst (asm) startup_pass.simps) (simp add: Let_def)
    qed
  next
    case False
    then show ?thesis using "1.IH"(2) "1.prems" by (subst (asm) (2) startup_pass.simps) (auto split: if_splits)
  qed
qed

text \<open>Passes until nothing is left or nothing was called; modules left over are an error.\<close>

function startup_manager_run :: "('c, 's) startup_manager \<Rightarrow> 's \<Rightarrow> int \<times> ('c, 's) startup_manager \<times> 's" where
  "startup_manager_run mgr s =
    (case startup_pass 0 False mgr s of (error, progress_made, mgr, s) \<Rightarrow>
       if error \<noteq> 0 then (error, mgr, s)
       else if progress_made \<and> registered_modules mgr \<noteq> [] then startup_manager_run mgr s
       else (if registered_modules mgr \<noteq> [] then 1 else 0, mgr, s))"
  by pat_completeness auto
termination
  by (relation "measure (\<lambda>(mgr, s). length (registered_modules mgr))") (auto dest!: startup_pass_length [OF sym])

declare startup_manager_run.simps [simp del]

definition startup_manager_end :: "('c, 's) startup_manager \<Rightarrow> ('c, 's) startup_manager" where
  "startup_manager_end mgr = \<lparr>registered_modules = [], end_functions = []\<rparr>"

text \<open>The end functions from the last to the first.\<close>

primrec run_end_from :: "nat \<Rightarrow> ('s \<Rightarrow> 's) list \<Rightarrow> 's \<Rightarrow> 's" where
  "run_end_from 0 fs s = s"
| "run_end_from (Suc i) fs s = run_end_from i fs ((fs ! i) s)"

definition startup_manager_run_end :: "('c, 's) startup_manager \<Rightarrow> 's \<Rightarrow> ('c, 's) startup_manager \<times> 's" where
  "startup_manager_run_end mgr s =
    (startup_manager_end mgr, run_end_from (length (end_functions mgr)) (end_functions mgr) s)"

section \<open>An order of the modules\<close>

text \<open>What a run should do: call the initialisations one after the other until one fails.\<close>

primrec run_inits :: "('c, 's) registered_module list \<Rightarrow> 's \<Rightarrow> int \<times> 's" where
  "run_inits [] s = (0, s)"
| "run_inits (r # rs) s = (case call_init r s of (error, s) \<Rightarrow> if error \<noteq> 0 then (error, s) else run_inits rs s)"

text \<open>Each module comes after its dependencies, given those already called.\<close>

primrec in_order :: "startup_manager_module set \<Rightarrow> ('c, 's) registered_module list \<Rightarrow> bool" where
  "in_order D [] = True"
| "in_order D (r # rs) = (set (dependencies r) \<subseteq> D \<and> in_order (insert (startup_module r) D) rs)"

definition ends :: "('c, 's) registered_module list \<Rightarrow> ('s \<Rightarrow> 's) list" where
  "ends rs = List.map_filter end_fn rs"

lemma ends_simps [simp]: "ends [] = []" "ends (rs @ rs') = ends rs @ ends rs'"
  by (simp_all add: ends_def map_filter_def)

lemma add_end_ends: "add_end r es = es @ ends [r]"
  by (simp add: add_end_def ends_def map_filter_def split: option.splits)

lemma in_order_append: "in_order D (rs @ rs') = (in_order D rs \<and> in_order (startup_module ` set rs \<union> D) rs')"
  by (induction rs arbitrary: D) (auto simp: ac_simps)

lemma run_inits_append:
  "run_inits (rs @ rs') s = (case run_inits rs s of (error, s) \<Rightarrow> if error \<noteq> 0 then (error, s) else run_inits rs' s)"
  by (induction rs arbitrary: s) (auto split: prod.splits)

lemma first_index_None: "first_index x ys = None \<longleftrightarrow> x \<notin> set ys"
  by (induction ys) auto

lemma first_index_Some: "first_index x ys = Some j \<Longrightarrow> j < length ys \<and> ys ! j = x"
  by (induction ys arbitrary: j) (auto split: if_splits)

lemma remove_dependency_removes:
  assumes "distinct ds" "first_index m ds = Some j"
  shows "set (remove_index_fast ds j) = set ds - {m}" "distinct (remove_index_fast ds j)"
proof -
  have "mset (remove_index_fast ds j) = mset (remove1 m ds)"
    using remove_index_fast_split(1) [of j ds] first_index_Some [OF assms(2)] by simp
  then show "set (remove_index_fast ds j) = set ds - {m}" "distinct (remove_index_fast ds j)"
    using assms(1) by (metis set_mset_mset set_remove1_eq, metis distinct_remove1 mset_eq_imp_distinct_iff)
qed

text \<open>What is left of the modules: their dependencies less those already called.\<close>

definition reduced_module :: "startup_manager_module set \<Rightarrow> ('c, 's) registered_module \<Rightarrow> ('c, 's) registered_module \<Rightarrow> bool" where
  "reduced_module D r c \<longleftrightarrow> startup_module c = startup_module r \<and> init_fn c = init_fn r \<and> init_context c = init_context r \<and>
     end_fn c = end_fn r \<and> set (dependencies c) = set (dependencies r) - D \<and> distinct (dependencies c)"

definition reduced :: "startup_manager_module set \<Rightarrow> ('c, 's) registered_module list \<Rightarrow> ('c, 's) registered_module list \<Rightarrow> bool" where
  "reduced D rs cs \<longleftrightarrow> list_all2 (reduced_module D) rs cs"

lemma reduced_module_remove:
  assumes "reduced_module D r c"
  shows "reduced_module (insert m D) r (case first_index m (dependencies c) of None \<Rightarrow> c
     | Some j \<Rightarrow> c\<lparr>dependencies := remove_index_fast (dependencies c) j\<rparr>)"
proof (cases "first_index m (dependencies c)")
  case None
  then have "set (dependencies c) - {m} = set (dependencies c)" by (simp add: first_index_None)
  then show ?thesis using assms None by (simp add: reduced_module_def) (metis Diff_insert)
next
  case (Some j)
  have d: "distinct (dependencies c)" using assms by (simp add: reduced_module_def)
  show ?thesis using assms remove_dependency_removes [OF d Some] by (auto simp: reduced_module_def Some)
qed

lemma reduced_remove_dependency: "reduced D rs cs \<Longrightarrow> reduced (insert m D) rs (remove_dependency m cs)"
  by (auto simp: reduced_def remove_dependency_def list_all2_conv_all_nth reduced_module_remove)

lemma reduced_remove_index:
  assumes "reduced D rs cs" "i < length cs" shows "reduced D (remove_index_fast rs i) (remove_index_fast cs i)"
proof -
  have l: "length rs = length cs" using assms(1) by (auto simp: reduced_def dest: list_all2_lengthD)
  then have "last rs = rs ! (length cs - 1)" "last cs = cs ! (length cs - 1)" using assms(2) by (subst last_conv_nth; auto)+
  with l assms show ?thesis
    unfolding reduced_def remove_index_fast_def list_all2_conv_all_nth
    by (cases "i < length cs - 1") (auto simp: nth_list_update nth_butlast list_update_beyond)
qed

text \<open>One pass calls some of the modules, in order, and leaves the rest reduced.\<close>

lemma startup_pass_order:
  assumes "startup_pass i p mgr s = (e, p', mgr', s')" "reduced D rs (registered_modules mgr)"
  shows "\<exists>order rest. mset rs = mset (order @ rest) \<and> in_order D order \<and> run_inits order s = (e, s') \<and>
    (e = 0 \<longrightarrow> reduced (startup_module ` set order \<union> D) rest (registered_modules mgr') \<and> end_functions mgr' = end_functions mgr @ ends order \<and>
       p' = (p \<or> order \<noteq> []) \<and> (order = [] \<longrightarrow> mgr' = mgr \<and> rest = rs \<and> (\<forall>c\<in>set (drop i (registered_modules mgr)). dependencies c \<noteq> [])))"
  using assms
proof (induction i p mgr s arbitrary: D rs rule: startup_pass.induct)
  case (1 i p mgr s)
  define cs where "cs = registered_modules mgr"
  show ?case
  proof (cases "i < length cs")
    case i: True
    define c where "c = cs ! i"
    show ?thesis
    proof (cases "dependencies c = []")
      case d: True
      obtain e1 s1 where ci: "call_init c s = (e1, s1)" by fastforce
      define r where "r = rs ! i"
      have rc: "reduced_module D r c" and l: "length rs = length cs"
        using "1.prems"(2) i by (auto simp: reduced_def r_def c_def cs_def list_all2_conv_all_nth)
      then have "call_init r s = call_init c s" for s by (cases "init_fn r") (simp_all add: reduced_module_def call_init_def)
      then have r: "set (dependencies r) \<subseteq> D" "call_init r = call_init c" "startup_module r = startup_module c" "ends [r] = ends [c]"
        using d rc by (simp_all add: reduced_module_def ends_def map_filter_def fun_eq_iff)
      show ?thesis
      proof (cases "e1 = 0")
        case z: True
        then have z': "\<not> e1 \<noteq> 0" by simp
        define mgr1 where "mgr1 = \<lparr>registered_modules = remove_index_fast (remove_dependency (startup_module c) cs) i,
          end_functions = add_end c (end_functions mgr)\<rparr>"
        have p1: "startup_pass i True mgr1 s1 = (e, p', mgr', s')"
          using "1.prems"(1) i d ci z by (subst (asm) startup_pass.simps) (simp add: cs_def c_def mgr1_def Let_def)
        have r1: "reduced (insert (startup_module c) D) (remove_index_fast rs i) (registered_modules mgr1)"
          unfolding mgr1_def using reduced_remove_index [OF reduced_remove_dependency [OF "1.prems"(2)], of i "startup_module c"] i by (simp add: cs_def)
        obtain order rest where o: "mset (remove_index_fast rs i) = mset (order @ rest)" "in_order (insert (startup_module c) D) order"
          "run_inits order s1 = (e, s')"
          "e = 0 \<longrightarrow> reduced (startup_module ` set order \<union> insert (startup_module c) D) rest (registered_modules mgr') \<and>
             end_functions mgr' = end_functions mgr1 @ ends order \<and> p'"
          using "1.IH"(1) [OF i [unfolded cs_def] refl d [unfolded c_def cs_def] ci [unfolded c_def cs_def, symmetric] z', of "insert (startup_module c) D" "remove_index_fast rs i"]
            z p1 r1 unfolding mgr1_def c_def cs_def by blast
        have "mset rs = mset ((r # order) @ rest)"
          using o(1) remove_index_fast_split(1) [of i rs] i l by (simp add: r_def) (metis insert_DiffM nth_mem_mset)
        moreover have "in_order D (r # order)" "run_inits (r # order) s = (e, s')" using o(2,3) r ci z by simp_all
        moreover have "e = 0 \<longrightarrow> reduced (startup_module ` set (r # order) \<union> D) rest (registered_modules mgr') \<and>
          end_functions mgr' = end_functions mgr @ ends (r # order) \<and> p' = (p \<or> r # order \<noteq> [])"
          using o(4) r ends_simps(2) [of "[r]" order] by (simp add: mgr1_def add_end_ends)
        ultimately show ?thesis by blast
      next
        case z: False
        have "e = e1 \<and> s' = s1" using "1.prems"(1) i d ci z by (subst (asm) startup_pass.simps) (simp add: cs_def c_def Let_def)
        moreover have "mset rs = mset ([r] @ remove_index_fast rs i)"
          using remove_index_fast_split(1) [of i rs] i l by (simp add: r_def)
        ultimately show ?thesis using r ci z by (intro exI [of _ "[r]"] exI [of _ "remove_index_fast rs i"]) simp
      qed
    next
      case False
      have "startup_pass (i + 1) p mgr s = (e, p', mgr', s')"
        using "1.prems"(1) i False by (subst (asm) startup_pass.simps) (simp add: cs_def c_def Let_def)
      from "1.IH"(2) [OF i [unfolded cs_def] refl False [unfolded c_def cs_def] this "1.prems"(2)]
      obtain order rest where o: "mset rs = mset (order @ rest)" "in_order D order" "run_inits order s = (e, s')"
        "e = 0 \<longrightarrow> reduced (startup_module ` set order \<union> D) rest (registered_modules mgr') \<and> end_functions mgr' = end_functions mgr @ ends order \<and>
         p' = (p \<or> order \<noteq> []) \<and> (order = [] \<longrightarrow> mgr' = mgr \<and> rest = rs \<and> (\<forall>c\<in>set (drop (i + 1) (registered_modules mgr)). dependencies c \<noteq> []))"
        by blast
      have "drop i cs = c # drop (i + 1) cs" using i by (simp add: c_def Cons_nth_drop_Suc)
      with o False show ?thesis by (intro exI [of _ order] exI [of _ rest]) (simp add: cs_def)
    qed
  next
    case False
    then have "e = 0 \<and> p' = p \<and> mgr' = mgr \<and> s' = s" using "1.prems"(1) by (subst (asm) startup_pass.simps) (simp add: cs_def)
    then show ?thesis using False "1.prems"(2) by (intro exI [of _ "[]"] exI [of _ rs]) (simp add: cs_def)
  qed
qed

lemma reduced_blocked:
  assumes "reduced D rs cs" "\<forall>c\<in>set cs. dependencies c \<noteq> []"
  shows "\<forall>r\<in>set rs. \<not> set (dependencies r) \<subseteq> D"
proof
  fix r assume "r \<in> set rs"
  then obtain i where i: "i < length rs" "rs ! i = r" by (auto simp: in_set_conv_nth)
  with assms have "reduced_module D r (cs ! i)" "dependencies (cs ! i) \<noteq> []" by (auto simp: reduced_def list_all2_conv_all_nth)
  then show "\<not> set (dependencies r) \<subseteq> D" by (auto simp: reduced_module_def) (metis Diff_eq_empty_iff set_empty)
qed

lemma startup_manager_run_order:
  assumes "startup_manager_run mgr s = (e, mgr', s')" "reduced D rs (registered_modules mgr)"
  shows "\<exists>order rest. mset rs = mset (order @ rest) \<and> in_order D order \<and>
    (run_inits order s = (e, s') \<and> e \<noteq> 0 \<or>
     run_inits order s = (0, s') \<and> end_functions mgr' = end_functions mgr @ ends order \<and> e = (if rest = [] then 0 else 1) \<and>
     (\<forall>r\<in>set rest. \<not> set (dependencies r) \<subseteq> startup_module ` set order \<union> D))"
  using assms
proof (induction mgr s arbitrary: D rs rule: startup_manager_run.induct)
  case (1 mgr s)
  obtain e1 p mgr1 s1 where p: "startup_pass 0 False mgr s = (e1, p, mgr1, s1)" by (metis prod_cases4)
  from startup_pass_order [OF p "1.prems"(2)] obtain order rest where o: "mset rs = mset (order @ rest)" "in_order D order" "run_inits order s = (e1, s1)"
    and z: "e1 = 0 \<Longrightarrow> reduced (startup_module ` set order \<union> D) rest (registered_modules mgr1) \<and> end_functions mgr1 = end_functions mgr @ ends order \<and>
      p = (order \<noteq> []) \<and> (order = [] \<longrightarrow> (\<forall>c\<in>set (registered_modules mgr). dependencies c \<noteq> []) \<and> mgr1 = mgr \<and> rest = rs)"
    by auto
  show ?case
  proof (cases "e1 = 0")
    case False
    then have "e = e1 \<and> s' = s1" using "1.prems"(1) p by (subst (asm) startup_manager_run.simps) simp
    with False o show ?thesis by blast
  next
    case e1: True
    note z = z [OF e1]
    have lr: "(rest = []) = (registered_modules mgr1 = [])" using z by (auto simp: reduced_def)
    show ?thesis
    proof (cases "p \<and> registered_modules mgr1 \<noteq> []")
      case True
      have r: "startup_manager_run mgr1 s1 = (e, mgr', s')"
        using "1.prems"(1) p e1 True by (subst (asm) startup_manager_run.simps) simp
      from "1.IH" [OF p [symmetric] refl refl _ True r conjunct1 [OF z]] e1
      obtain order2 rest2 where o2: "mset rest = mset (order2 @ rest2)" "in_order (startup_module ` set order \<union> D) order2"
        "run_inits order2 s1 = (e, s') \<and> e \<noteq> 0 \<or>
         run_inits order2 s1 = (0, s') \<and> end_functions mgr' = end_functions mgr1 @ ends order2 \<and> e = (if rest2 = [] then 0 else 1) \<and>
         (\<forall>r\<in>set rest2. \<not> set (dependencies r) \<subseteq> startup_module ` set order2 \<union> (startup_module ` set order \<union> D))" by auto
      have "mset rs = mset ((order @ order2) @ rest2)" "in_order D (order @ order2)" using o(1,2) o2(1,2) by (simp_all add: in_order_append)
      moreover have "run_inits (order @ order2) s = run_inits order2 s1" using o(3) e1 by (simp add: run_inits_append)
      moreover have "startup_module ` set (order @ order2) \<union> D = startup_module ` set order2 \<union> (startup_module ` set order \<union> D)" by auto
      ultimately show ?thesis using o2(3) z by (intro exI [of _ "order @ order2"] exI [of _ rest2]) (simp only: ends_simps append_assoc; blast)
    next
      case False
      have "e = (if rest = [] then 0 else 1)" "mgr' = mgr1" "s' = s1"
        using "1.prems"(1) p e1 False lr by (subst (asm) startup_manager_run.simps; auto)+
      moreover have "\<forall>r\<in>set rest. \<not> set (dependencies r) \<subseteq> startup_module ` set order \<union> D"
      proof (cases "order = []")
        case True
        then show ?thesis using z reduced_blocked [OF conjunct1 [OF z]] by simp
      next
        case n: False
        then show ?thesis using False z lr by simp
      qed
      ultimately show ?thesis using o z e1 by blast
    qed
  qed
qed

lemma run_end_from_all: "run_end_from (length fs) fs s = foldr (\<lambda>f s. f s) fs s"
proof -
  have "n \<le> length fs \<Longrightarrow> run_end_from n fs s = foldr (\<lambda>f s. f s) (take n fs) s" for n
    by (induction n arbitrary: s) (simp_all add: take_Suc_conv_app_nth)
  then show ?thesis by simp
qed

text \<open>The modules left over are those that no order could reach.\<close>

lemma in_order_maximal:
  assumes "in_order {} full" "mset full = mset (order @ rest)" "\<forall>r\<in>set rest. \<not> set (dependencies r) \<subseteq> startup_module ` set order"
  shows "rest = []"
proof (rule ccontr)
  assume "rest \<noteq> []"
  have s: "set full = set order \<union> set rest" using assms(2) by (metis set_append set_mset_mset)
  then obtain r where r: "r \<in> set full" "r \<in> set rest" using \<open>rest \<noteq> []\<close> by (cases rest) auto
  then have "\<exists>pre r post. full = pre @ r # post \<and> r \<in> set rest \<and> (\<forall>x\<in>set pre. x \<notin> set rest)"
    using split_list_first_prop [of full "\<lambda>r. r \<in> set rest"] by blast
  then obtain pre r post where f: "full = pre @ r # post" "r \<in> set rest" "\<forall>x\<in>set pre. x \<notin> set rest" by blast
  then have "set (dependencies r) \<subseteq> startup_module ` set pre" using assms(1) by (simp add: in_order_append)
  moreover have "set pre \<subseteq> set order" using f s by auto
  ultimately show False using assms(3) f(2) by blast
qed

lemma startup_order:
  assumes "\<forall>r\<in>set (registered_modules mgr). distinct (dependencies r)" "end_functions mgr = []"
  shows "\<exists>order rest e mgr' s'. startup_manager_run mgr s = (e, mgr', s') \<and> mset (registered_modules mgr) = mset (order @ rest) \<and> in_order {} order \<and>
    (run_inits order s = (e, s') \<and> e \<noteq> 0 \<or>
     run_inits order s = (0, s') \<and> e = (if rest = [] then 0 else 1) \<and>
     (rest = [] \<longleftrightarrow> (\<exists>full. mset full = mset (registered_modules mgr) \<and> in_order {} full)) \<and>
     (\<forall>r\<in>set rest. \<not> set (dependencies r) \<subseteq> startup_module ` set order) \<and>
     (\<forall>t. snd (startup_manager_run_end mgr' t) = foldr (\<lambda>f t. f t) (ends order) t))"
proof -
  obtain e mgr' s' where run: "startup_manager_run mgr s = (e, mgr', s')" by (metis prod_cases3)
  have "reduced {} (registered_modules mgr) (registered_modules mgr)"
    using assms(1) by (auto simp: reduced_def reduced_module_def list_all2_conv_all_nth)
  from startup_manager_run_order [OF run this] obtain order rest where
    o: "mset (registered_modules mgr) = mset (order @ rest)" "in_order {} order"
    and c: "run_inits order s = (e, s') \<and> e \<noteq> 0 \<or>
     run_inits order s = (0, s') \<and> end_functions mgr' = end_functions mgr @ ends order \<and> e = (if rest = [] then 0 else 1) \<and>
     (\<forall>r\<in>set rest. \<not> set (dependencies r) \<subseteq> startup_module ` set order)" by auto
  have "rest = [] \<longleftrightarrow> (\<exists>full. mset full = mset (registered_modules mgr) \<and> in_order {} full)"
    if "\<forall>r\<in>set rest. \<not> set (dependencies r) \<subseteq> startup_module ` set order"
    using o in_order_maximal [OF _ _ that] by (auto intro!: exI [of _ order])
  then show ?thesis
    using run o c assms(2) by (intro exI [of _ order] exI [of _ rest] exI [of _ e] exI [of _ mgr'] exI [of _ s'])
      (auto simp: startup_manager_run_end_def run_end_from_all)
qed

text \<open>Modules whose dependencies are all registered and have a lower rank can all be called.\<close>

lemma ranked_modules_complete:
  fixes rank :: "startup_manager_module \<Rightarrow> nat"
  assumes "\<forall>r\<in>set order \<union> set rest. \<forall>d\<in>set (dependencies r). d \<in> startup_module ` (set order \<union> set rest) \<and> rank d < rank (startup_module r)"
    and "\<forall>r\<in>set rest. \<not> set (dependencies r) \<subseteq> startup_module ` set order"
  shows "rest = []"
proof (rule ccontr)
  assume "rest \<noteq> []"
  then obtain x where "x \<in> set rest" by (cases rest) auto
  then obtain r where r: "r \<in> set rest" "\<forall>x\<in>set rest. rank (startup_module r) \<le> rank (startup_module x)"
    using ex_has_least_nat [of "\<lambda>x. x \<in> set rest" x "\<lambda>x. rank (startup_module x)"] by blast
  have "d \<in> startup_module ` set order" if d: "d \<in> set (dependencies r)" for d
  proof -
    have "r \<in> set order \<union> set rest" using r(1) by simp
    from bspec [OF bspec [OF assms(1) this] d]
    have "d \<in> startup_module ` (set order \<union> set rest)" "rank d < rank (startup_module r)" by blast+
    then obtain x where "x \<in> set order \<union> set rest" "startup_module x = d" "rank d < rank (startup_module r)" by (elim imageE) simp
    then show ?thesis using r(2) by (metis Un_iff image_eqI not_le)
  qed
  then show False using assms(2) r(1) by blast
qed

lemma run_inits_succeed: "(\<And>r s. r \<in> set rs \<Longrightarrow> fst (call_init r s) = 0) \<Longrightarrow> fst (run_inits rs s) = 0"
proof (induction rs arbitrary: s)
  case (Cons r rs)
  obtain s1 where "call_init r s = (0, s1)" using Cons.prems [of r s] by (cases "call_init r s") auto
  then show ?case using Cons by simp
qed simp

text \<open>A rearrangement of mapped elements comes from one of the elements.\<close>

lemma mset_map_names: "mset xs = mset (map f ys) \<Longrightarrow> \<exists>ys'. mset ys' = mset ys \<and> xs = map f ys'"
proof (induction xs arbitrary: ys)
  case (Cons x xs)
  then have "x \<in> f ` set ys" by (metis image_set list.set_intros(1) set_mset_mset)
  then obtain y where y: "y \<in> set ys" "x = f y" by auto
  then have "mset xs = mset (map f (remove1 y ys))"
  proof -
    have "mset (map f ys) = add_mset x (mset (map f (remove1 y ys)))"
      using y by (metis insert_DiffM image_mset_add_mset mset_map mset_remove1 set_mset_mset)
    then show ?thesis using Cons.prems by simp
  qed
  from Cons.IH [OF this] obtain zs where "mset zs = mset (remove1 y ys)" "xs = map f zs" by blast
  with y show ?case by (intro exI [of _ "y # zs"]) simp
qed simp

lemma ends_mset: "mset rs = mset rs' \<Longrightarrow> mset (ends rs) = mset (ends rs')"
  by (simp add: ends_def map_filter_def)

text \<open>C35. A run calls the initialisations of modules one after the other, each after those of all modules it depends on, and stops
  at the first that fails; modules are left over, and the result is an error, only when they cannot be put in such an order. The
  end functions are then run in the inverse order.\<close>

theorem startup_in_dependency_order:
  assumes "\<forall>r\<in>set (registered_modules mgr). distinct (dependencies r)" "end_functions mgr = []"
  shows "\<exists>order rest e mgr' s'. startup_manager_run mgr s = (e, mgr', s') \<and> mset (registered_modules mgr) = mset (order @ rest) \<and> in_order {} order \<and>
    (run_inits order s = (e, s') \<and> e \<noteq> 0 \<or>
     run_inits order s = (0, s') \<and> e = (if rest = [] then 0 else 1) \<and>
     (rest = [] \<longleftrightarrow> (\<exists>full. mset full = mset (registered_modules mgr) \<and> in_order {} full)) \<and>
     (\<forall>r\<in>set rest. \<not> set (dependencies r) \<subseteq> startup_module ` set order) \<and>
     (\<forall>t. snd (startup_manager_run_end mgr' t) = foldr (\<lambda>f t. f t) (ends order) t))"
  by (rule startup_order [OF assms])

text \<open>Two modules, the first of which needs the second; each adds a number to a list and takes it away.\<close>

definition demo_startup :: "(unit, nat list) startup_manager" where
  "demo_startup =
     startup_manager_register STARTUP_MANAGER_MODULE_DEBUGGER [STARTUP_MANAGER_MODULE_EVENT] (Some (\<lambda>c s. (0, 1 # s))) () (Some tl)
       (startup_manager_register_no_dependencies STARTUP_MANAGER_MODULE_EVENT (Some (\<lambda>c s. (0, 2 # s))) () (Some tl) startup_manager_init)"

lemma startup_in_dependency_order_witness:
  "\<exists>order rest e mgr' s'. startup_manager_run demo_startup [] = (e, mgr', s') \<and> mset (registered_modules demo_startup) = mset (order @ rest) \<and> in_order {} order \<and>
    (run_inits order [] = (e, s') \<and> e \<noteq> 0 \<or>
     run_inits order [] = (0, s') \<and> e = (if rest = [] then 0 else 1) \<and>
     (rest = [] \<longleftrightarrow> (\<exists>full. mset full = mset (registered_modules demo_startup) \<and> in_order {} full)) \<and>
     (\<forall>r\<in>set rest. \<not> set (dependencies r) \<subseteq> startup_module ` set order) \<and>
     (\<forall>t. snd (startup_manager_run_end mgr' t) = foldr (\<lambda>f t. f t) (ends order) t))"
  by (rule startup_in_dependency_order)
    (simp_all add: demo_startup_def startup_manager_register_def startup_manager_register_no_dependencies_def startup_manager_init_def)

end
