(* ===== verification/Startup_Modules.thy ===== *)
theory Startup_Modules
  imports Startup
begin

text \<open>
  What the modules register with the startup manager: the \<open>_register_startup\<close> function of every source file, and the
  list of \<open>fuse.c\<close> that calls them. The initialisation and end functions are parameters, by the name they have in the code.
\<close>

section \<open>The registrations\<close>

datatype startup_context = Null | Address string

record 's startup_functions =
  init_of :: "string \<Rightarrow> startup_context \<Rightarrow> 's \<Rightarrow> int \<times> 's"
  end_of :: "string \<Rightarrow> 's \<Rightarrow> 's"

type_synonym 's registration = "'s startup_functions \<Rightarrow> (startup_context, 's) startup_manager \<Rightarrow> (startup_context, 's) startup_manager"

definition ay_register_startup :: "'s registration" where
  "ay_register_startup F = startup_manager_register STARTUP_MANAGER_MODULE_AY
     [STARTUP_MANAGER_MODULE_DEBUGGER, STARTUP_MANAGER_MODULE_SETUID] (Some (init_of F ''ay_init'')) Null None"

definition beta_register_startup :: "'s registration" where
  "beta_register_startup F = startup_manager_register STARTUP_MANAGER_MODULE_BETA
     [STARTUP_MANAGER_MODULE_DEBUGGER, STARTUP_MANAGER_MODULE_MEMORY, STARTUP_MANAGER_MODULE_SETUID] (Some (init_of F ''beta_init'')) Null (Some (end_of F ''beta_end''))"

definition creator_register_startup :: "'s registration" where
  "creator_register_startup F = startup_manager_register STARTUP_MANAGER_MODULE_CREATOR
     [STARTUP_MANAGER_MODULE_SETUID] (Some (init_of F ''creator_init'')) Null (Some (end_of F ''creator_end''))"

definition covox_register_startup :: "'s registration" where
  "covox_register_startup F = startup_manager_register STARTUP_MANAGER_MODULE_COVOX
     [STARTUP_MANAGER_MODULE_SETUID] (Some (init_of F ''covox_init'')) Null None"

definition debugger_register_startup :: "'s registration" where
  "debugger_register_startup F = startup_manager_register STARTUP_MANAGER_MODULE_DEBUGGER
     [STARTUP_MANAGER_MODULE_EVENT, STARTUP_MANAGER_MODULE_MEMPOOL, STARTUP_MANAGER_MODULE_SETUID] (Some (init_of F ''debugger_init'')) Null (Some (end_of F ''debugger_end''))"

definition didaktik80_register_startup :: "'s registration" where
  "didaktik80_register_startup F = startup_manager_register STARTUP_MANAGER_MODULE_DIDAKTIK
     [STARTUP_MANAGER_MODULE_DEBUGGER, STARTUP_MANAGER_MODULE_MEMORY, STARTUP_MANAGER_MODULE_SETUID] (Some (init_of F ''didaktik80_init'')) Null (Some (end_of F ''didaktik80_end''))"

definition disciple_register_startup :: "'s registration" where
  "disciple_register_startup F = startup_manager_register STARTUP_MANAGER_MODULE_DISCIPLE
     [STARTUP_MANAGER_MODULE_DEBUGGER, STARTUP_MANAGER_MODULE_MEMORY, STARTUP_MANAGER_MODULE_SETUID] (Some (init_of F ''disciple_init'')) Null (Some (end_of F ''disciple_end''))"

definition display_register_startup :: "startup_context \<Rightarrow> 's registration" where
  "display_register_startup ctx F = startup_manager_register_no_dependencies STARTUP_MANAGER_MODULE_DISPLAY
     (Some (init_of F ''display_init_wrapper'')) ctx None"

definition divide_register_startup :: "'s registration" where
  "divide_register_startup F = startup_manager_register STARTUP_MANAGER_MODULE_DIVIDE
     [STARTUP_MANAGER_MODULE_DEBUGGER, STARTUP_MANAGER_MODULE_DISPLAY, STARTUP_MANAGER_MODULE_MEMORY, STARTUP_MANAGER_MODULE_SETUID] (Some (init_of F ''divide_init'')) Null (Some (end_of F ''divide_end''))"

definition divmmc_register_startup :: "'s registration" where
  "divmmc_register_startup F = startup_manager_register STARTUP_MANAGER_MODULE_DIVMMC
     [STARTUP_MANAGER_MODULE_DEBUGGER, STARTUP_MANAGER_MODULE_DISPLAY, STARTUP_MANAGER_MODULE_MEMORY, STARTUP_MANAGER_MODULE_SETUID] (Some (init_of F ''divmmc_init'')) Null (Some (end_of F ''divmmc_end''))"

definition event_register_startup :: "'s registration" where
  "event_register_startup F = startup_manager_register STARTUP_MANAGER_MODULE_EVENT
     [STARTUP_MANAGER_MODULE_SETUID] (Some (init_of F ''event_init'')) Null (Some (end_of F ''event_end''))"

definition fdd_register_startup :: "'s registration" where
  "fdd_register_startup F = startup_manager_register STARTUP_MANAGER_MODULE_FDD
     [STARTUP_MANAGER_MODULE_EVENT, STARTUP_MANAGER_MODULE_SETUID] (Some (init_of F ''fdd_init_events'')) Null None"

definition fuller_register_startup :: "'s registration" where
  "fuller_register_startup F = startup_manager_register STARTUP_MANAGER_MODULE_FULLER
     [STARTUP_MANAGER_MODULE_SETUID] (Some (init_of F ''fuller_init'')) Null None"

definition general_sound_register_startup :: "'s registration" where
  "general_sound_register_startup F = startup_manager_register STARTUP_MANAGER_MODULE_GENERAL_SOUND
     [STARTUP_MANAGER_MODULE_SETUID] (Some (init_of F ''gs_init'')) Null (Some (end_of F ''gs_end''))"

definition if1_register_startup :: "'s registration" where
  "if1_register_startup F = startup_manager_register STARTUP_MANAGER_MODULE_IF1
     [STARTUP_MANAGER_MODULE_DEBUGGER, STARTUP_MANAGER_MODULE_MEMORY, STARTUP_MANAGER_MODULE_SETUID] (Some (init_of F ''if1_init'')) Null (Some (end_of F ''if1_end''))"

definition if2_register_startup :: "'s registration" where
  "if2_register_startup F = startup_manager_register STARTUP_MANAGER_MODULE_IF2
     [STARTUP_MANAGER_MODULE_MEMORY, STARTUP_MANAGER_MODULE_SETUID] (Some (init_of F ''if2_init'')) Null (Some (end_of F ''if2_end''))"

definition joystick_register_startup :: "'s registration" where
  "joystick_register_startup F = startup_manager_register STARTUP_MANAGER_MODULE_JOYSTICK
     [STARTUP_MANAGER_MODULE_LIBSPECTRUM, STARTUP_MANAGER_MODULE_SETUID] (Some (init_of F ''joystick_init'')) (Address ''joystick_end'') None"

definition kempmouse_register_startup :: "'s registration" where
  "kempmouse_register_startup F = startup_manager_register STARTUP_MANAGER_MODULE_KEMPMOUSE
     [STARTUP_MANAGER_MODULE_SETUID] (Some (init_of F ''kempmouse_init'')) Null None"

definition keyboard_register_startup :: "'s registration" where
  "keyboard_register_startup F = startup_manager_register STARTUP_MANAGER_MODULE_KEYBOARD
     [STARTUP_MANAGER_MODULE_LIBSPECTRUM, STARTUP_MANAGER_MODULE_SETUID] (Some (init_of F ''keyboard_init'')) (Address ''keyboard_end'') None"

definition libspectrum_register_startup :: "'s registration" where
  "libspectrum_register_startup F = startup_manager_register STARTUP_MANAGER_MODULE_LIBSPECTRUM
     [STARTUP_MANAGER_MODULE_DISPLAY] (Some (init_of F ''fuse_libspectrum_init'')) Null None"

definition libxml2_register_startup :: "'s registration" where
  "libxml2_register_startup F = startup_manager_register STARTUP_MANAGER_MODULE_LIBXML2
     [STARTUP_MANAGER_MODULE_SETUID] (Some (init_of F ''libxml2_init'')) Null None"

definition machine_register_startup :: "'s registration" where
  "machine_register_startup F = startup_manager_register STARTUP_MANAGER_MODULE_MACHINE
     [STARTUP_MANAGER_MODULE_MEMORY, STARTUP_MANAGER_MODULE_SETUID] (Some (init_of F ''machine_init_machines'')) Null (Some (end_of F ''machine_end''))"

definition machines_periph_register_startup :: "'s registration" where
  "machines_periph_register_startup F = startup_manager_register STARTUP_MANAGER_MODULE_MACHINES_PERIPH
     [STARTUP_MANAGER_MODULE_SETUID] (Some (init_of F ''machines_periph_init'')) Null None"

definition melodik_register_startup :: "'s registration" where
  "melodik_register_startup F = startup_manager_register STARTUP_MANAGER_MODULE_MELODIK
     [STARTUP_MANAGER_MODULE_SETUID] (Some (init_of F ''melodik_init'')) Null None"

definition memory_register_startup :: "'s registration" where
  "memory_register_startup F = startup_manager_register STARTUP_MANAGER_MODULE_MEMORY
     [STARTUP_MANAGER_MODULE_SETUID] (Some (init_of F ''memory_init'')) Null (Some (end_of F ''memory_end''))"

definition mempool_register_startup :: "'s registration" where
  "mempool_register_startup F = startup_manager_register STARTUP_MANAGER_MODULE_MEMPOOL
     [STARTUP_MANAGER_MODULE_SETUID] (Some (init_of F ''mempool_init'')) Null (Some (end_of F ''mempool_end''))"

definition multiface_register_startup :: "'s registration" where
  "multiface_register_startup F = startup_manager_register STARTUP_MANAGER_MODULE_MULTIFACE
     [STARTUP_MANAGER_MODULE_DEBUGGER, STARTUP_MANAGER_MODULE_MEMORY, STARTUP_MANAGER_MODULE_SETUID] (Some (init_of F ''multiface_init'')) Null None"

definition opus_register_startup :: "'s registration" where
  "opus_register_startup F = startup_manager_register STARTUP_MANAGER_MODULE_OPUS
     [STARTUP_MANAGER_MODULE_DEBUGGER, STARTUP_MANAGER_MODULE_MEMORY, STARTUP_MANAGER_MODULE_SETUID] (Some (init_of F ''opus_init'')) Null (Some (end_of F ''opus_end''))"

definition phantom_typist_register_startup :: "'s registration" where
  "phantom_typist_register_startup F = startup_manager_register STARTUP_MANAGER_MODULE_PHANTOM_TYPIST
     [STARTUP_MANAGER_MODULE_SETUID] (Some (init_of F ''phantom_typist_init'')) Null None"

definition plusd_register_startup :: "'s registration" where
  "plusd_register_startup F = startup_manager_register STARTUP_MANAGER_MODULE_PLUSD
     [STARTUP_MANAGER_MODULE_DEBUGGER, STARTUP_MANAGER_MODULE_MEMORY, STARTUP_MANAGER_MODULE_SETUID] (Some (init_of F ''plusd_init'')) Null (Some (end_of F ''plusd_end''))"

definition printer_register_startup :: "'s registration" where
  "printer_register_startup F = startup_manager_register STARTUP_MANAGER_MODULE_PRINTER
     [STARTUP_MANAGER_MODULE_MACHINE, STARTUP_MANAGER_MODULE_SETUID] (Some (init_of F ''printer_init'')) Null (Some (end_of F ''printer_end''))"

definition profile_register_startup :: "'s registration" where
  "profile_register_startup F = startup_manager_register STARTUP_MANAGER_MODULE_PROFILE
     [STARTUP_MANAGER_MODULE_SETUID] (Some (init_of F ''profile_init'')) Null None"

definition psg_register_startup :: "'s registration" where
  "psg_register_startup F = startup_manager_register STARTUP_MANAGER_MODULE_PSG
     [STARTUP_MANAGER_MODULE_SETUID] (Some (init_of F ''psg_init'')) Null (Some (end_of F ''psg_end''))"

definition rzx_register_startup :: "'s registration" where
  "rzx_register_startup F = startup_manager_register STARTUP_MANAGER_MODULE_RZX
     [STARTUP_MANAGER_MODULE_DEBUGGER, STARTUP_MANAGER_MODULE_EVENT, STARTUP_MANAGER_MODULE_MACHINE, STARTUP_MANAGER_MODULE_SETUID] (Some (init_of F ''rzx_init'')) Null (Some (end_of F ''rzx_end''))"

definition scld_register_startup :: "'s registration" where
  "scld_register_startup F = startup_manager_register STARTUP_MANAGER_MODULE_SCLD
     [STARTUP_MANAGER_MODULE_SETUID] (Some (init_of F ''scld_init'')) Null None"

definition screenshot_register_startup :: "'s registration" where
  "screenshot_register_startup F = startup_manager_register STARTUP_MANAGER_MODULE_SCREENSHOT
     [STARTUP_MANAGER_MODULE_SETUID] None Null (Some (end_of F ''screenshot_end''))"

text \<open>Printed by \<open>settings.pl\<close>, which takes the Cocoa interface as an option.\<close>

definition settings_register_startup :: "bool \<Rightarrow> 's registration" where
  "settings_register_startup cocoa F = startup_manager_register STARTUP_MANAGER_MODULE_SETTINGS_END
     (if cocoa then [STARTUP_MANAGER_MODULE_MEMORY] else [STARTUP_MANAGER_MODULE_SETUID]) None Null (Some (end_of F ''settings_end''))"

definition setuid_register_startup :: "'s registration" where
  "setuid_register_startup F = startup_manager_register STARTUP_MANAGER_MODULE_SETUID
     [STARTUP_MANAGER_MODULE_DISPLAY, STARTUP_MANAGER_MODULE_LIBSPECTRUM] (Some (init_of F ''setuid_init'')) Null None"

definition simpleide_register_startup :: "'s registration" where
  "simpleide_register_startup F = startup_manager_register STARTUP_MANAGER_MODULE_SIMPLEIDE
     [STARTUP_MANAGER_MODULE_DISPLAY, STARTUP_MANAGER_MODULE_SETUID] (Some (init_of F ''simpleide_init'')) Null (Some (end_of F ''simpleide_end''))"

definition slt_register_startup :: "'s registration" where
  "slt_register_startup F = startup_manager_register STARTUP_MANAGER_MODULE_SLT
     [STARTUP_MANAGER_MODULE_SETUID] (Some (init_of F ''slt_init'')) Null None"

definition sound_register_startup :: "'s registration" where
  "sound_register_startup F = startup_manager_register STARTUP_MANAGER_MODULE_SOUND
     [STARTUP_MANAGER_MODULE_SETUID] None Null (Some (end_of F ''sound_end''))"

definition speccyboot_register_startup :: "'s registration" where
  "speccyboot_register_startup F = startup_manager_register STARTUP_MANAGER_MODULE_SPECCYBOOT
     [STARTUP_MANAGER_MODULE_DEBUGGER, STARTUP_MANAGER_MODULE_MEMORY, STARTUP_MANAGER_MODULE_SETUID] (Some (init_of F ''speccyboot_init'')) Null (Some (end_of F ''speccyboot_end''))"

definition specdrum_register_startup :: "'s registration" where
  "specdrum_register_startup F = startup_manager_register STARTUP_MANAGER_MODULE_SPECDRUM
     [STARTUP_MANAGER_MODULE_SETUID] (Some (init_of F ''specdrum_init'')) Null None"

definition spectranet_register_startup :: "'s registration" where
  "spectranet_register_startup F = startup_manager_register STARTUP_MANAGER_MODULE_SPECTRANET
     [STARTUP_MANAGER_MODULE_DEBUGGER, STARTUP_MANAGER_MODULE_MEMORY, STARTUP_MANAGER_MODULE_SETUID] (Some (init_of F ''spectranet_init'')) Null (Some (end_of F ''spectranet_end''))"

definition spectrum_register_startup :: "'s registration" where
  "spectrum_register_startup F = startup_manager_register STARTUP_MANAGER_MODULE_SPECTRUM
     [STARTUP_MANAGER_MODULE_DEBUGGER, STARTUP_MANAGER_MODULE_EVENT, STARTUP_MANAGER_MODULE_SETUID] (Some (init_of F ''spectrum_init'')) Null None"

definition tape_register_startup :: "'s registration" where
  "tape_register_startup F = startup_manager_register STARTUP_MANAGER_MODULE_TAPE
     [STARTUP_MANAGER_MODULE_DEBUGGER, STARTUP_MANAGER_MODULE_EVENT, STARTUP_MANAGER_MODULE_SETUID] (Some (init_of F ''tape_init'')) Null (Some (end_of F ''tape_end''))"

definition ttx2000s_register_startup :: "'s registration" where
  "ttx2000s_register_startup F = startup_manager_register STARTUP_MANAGER_MODULE_TTX2000S
     [STARTUP_MANAGER_MODULE_DEBUGGER, STARTUP_MANAGER_MODULE_MEMORY, STARTUP_MANAGER_MODULE_SETUID] (Some (init_of F ''ttx2000s_init'')) Null (Some (end_of F ''ttx2000s_end''))"

definition timer_register_startup :: "'s registration" where
  "timer_register_startup F = startup_manager_register STARTUP_MANAGER_MODULE_TIMER
     [STARTUP_MANAGER_MODULE_EVENT, STARTUP_MANAGER_MODULE_SETUID] (Some (init_of F ''timer_init'')) Null (Some (end_of F ''timer_end''))"

definition ula_register_startup :: "'s registration" where
  "ula_register_startup F = startup_manager_register STARTUP_MANAGER_MODULE_ULA
     [STARTUP_MANAGER_MODULE_DEBUGGER, STARTUP_MANAGER_MODULE_SETUID] (Some (init_of F ''ula_init'')) Null None"

definition ulaplus_register_startup :: "'s registration" where
  "ulaplus_register_startup F = startup_manager_register STARTUP_MANAGER_MODULE_ULAPLUS
     [STARTUP_MANAGER_MODULE_SETUID] (Some (init_of F ''ulaplus_init'')) Null None"

definition usource_register_startup :: "'s registration" where
  "usource_register_startup F = startup_manager_register STARTUP_MANAGER_MODULE_USOURCE
     [STARTUP_MANAGER_MODULE_MEMORY, STARTUP_MANAGER_MODULE_SETUID] (Some (init_of F ''usource_init'')) Null (Some (end_of F ''usource_end''))"

definition uspeech_register_startup :: "'s registration" where
  "uspeech_register_startup F = startup_manager_register STARTUP_MANAGER_MODULE_USPEECH
     [STARTUP_MANAGER_MODULE_DEBUGGER, STARTUP_MANAGER_MODULE_MEMORY, STARTUP_MANAGER_MODULE_SETUID] (Some (init_of F ''uspeech_init'')) Null (Some (end_of F ''uspeech_end''))"

definition z80_register_startup :: "'s registration" where
  "z80_register_startup F = startup_manager_register STARTUP_MANAGER_MODULE_Z80
     [STARTUP_MANAGER_MODULE_DEBUGGER, STARTUP_MANAGER_MODULE_EVENT, STARTUP_MANAGER_MODULE_SETUID] (Some (init_of F ''z80_init'')) Null None"

definition zxatasp_register_startup :: "'s registration" where
  "zxatasp_register_startup F = startup_manager_register STARTUP_MANAGER_MODULE_ZXATASP
     [STARTUP_MANAGER_MODULE_DEBUGGER, STARTUP_MANAGER_MODULE_DISPLAY, STARTUP_MANAGER_MODULE_MEMORY, STARTUP_MANAGER_MODULE_SETUID] (Some (init_of F ''zxatasp_init'')) Null (Some (end_of F ''zxatasp_end''))"

definition zxcf_register_startup :: "'s registration" where
  "zxcf_register_startup F = startup_manager_register STARTUP_MANAGER_MODULE_ZXCF
     [STARTUP_MANAGER_MODULE_DEBUGGER, STARTUP_MANAGER_MODULE_DISPLAY, STARTUP_MANAGER_MODULE_MEMORY, STARTUP_MANAGER_MODULE_SETUID] (Some (init_of F ''zxcf_init'')) Null (Some (end_of F ''zxcf_end''))"

definition zxmmc_register_startup :: "'s registration" where
  "zxmmc_register_startup F = startup_manager_register STARTUP_MANAGER_MODULE_ZXMMC
     [STARTUP_MANAGER_MODULE_DEBUGGER, STARTUP_MANAGER_MODULE_DISPLAY, STARTUP_MANAGER_MODULE_SETUID] (Some (init_of F ''zxmmc_init'')) Null (Some (end_of F ''zxmmc_end''))"

text \<open>The list in \<open>run_startup_manager\<close>.\<close>

definition fuse_startup :: "bool \<Rightarrow> 's startup_functions \<Rightarrow> (startup_context, 's) startup_manager" where
  "fuse_startup cocoa F = fold (\<lambda>register mgr. register mgr)
    [ay_register_startup F,
     beta_register_startup F,
     creator_register_startup F,
     covox_register_startup F,
     debugger_register_startup F,
     didaktik80_register_startup F,
     disciple_register_startup F,
     display_register_startup (Address ''display_context'') F,
     divide_register_startup F,
     divmmc_register_startup F,
     event_register_startup F,
     fdd_register_startup F,
     fuller_register_startup F,
     general_sound_register_startup F,
     if1_register_startup F,
     if2_register_startup F,
     joystick_register_startup F,
     kempmouse_register_startup F,
     keyboard_register_startup F,
     libspectrum_register_startup F,
     libxml2_register_startup F,
     machine_register_startup F,
     machines_periph_register_startup F,
     melodik_register_startup F,
     memory_register_startup F,
     mempool_register_startup F,
     multiface_register_startup F,
     opus_register_startup F,
     phantom_typist_register_startup F,
     plusd_register_startup F,
     printer_register_startup F,
     profile_register_startup F,
     psg_register_startup F,
     rzx_register_startup F,
     scld_register_startup F,
     screenshot_register_startup F,
     settings_register_startup cocoa F,
     setuid_register_startup F,
     simpleide_register_startup F,
     slt_register_startup F,
     sound_register_startup F,
     speccyboot_register_startup F,
     specdrum_register_startup F,
     spectranet_register_startup F,
     spectrum_register_startup F,
     tape_register_startup F,
     ttx2000s_register_startup F,
     timer_register_startup F,
     ula_register_startup F,
     ulaplus_register_startup F,
     usource_register_startup F,
     uspeech_register_startup F,
     z80_register_startup F,
     zxatasp_register_startup F,
     zxcf_register_startup F,
     zxmmc_register_startup F]
    startup_manager_init"

definition run_startup_manager :: "bool \<Rightarrow> 's startup_functions \<Rightarrow> 's \<Rightarrow> int \<times> (startup_context, 's) startup_manager \<times> 's" where
  "run_startup_manager cocoa F s = startup_manager_run (fuse_startup cocoa F) s"

section \<open>Every module can be started\<close>

lemmas fuse_registrations = 
  ay_register_startup_def
  beta_register_startup_def
  creator_register_startup_def
  covox_register_startup_def
  debugger_register_startup_def
  didaktik80_register_startup_def
  disciple_register_startup_def
  display_register_startup_def
  divide_register_startup_def
  divmmc_register_startup_def
  event_register_startup_def
  fdd_register_startup_def
  fuller_register_startup_def
  general_sound_register_startup_def
  if1_register_startup_def
  if2_register_startup_def
  joystick_register_startup_def
  kempmouse_register_startup_def
  keyboard_register_startup_def
  libspectrum_register_startup_def
  libxml2_register_startup_def
  machine_register_startup_def
  machines_periph_register_startup_def
  melodik_register_startup_def
  memory_register_startup_def
  mempool_register_startup_def
  multiface_register_startup_def
  opus_register_startup_def
  phantom_typist_register_startup_def
  plusd_register_startup_def
  printer_register_startup_def
  profile_register_startup_def
  psg_register_startup_def
  rzx_register_startup_def
  scld_register_startup_def
  screenshot_register_startup_def
  settings_register_startup_def
  setuid_register_startup_def
  simpleide_register_startup_def
  slt_register_startup_def
  sound_register_startup_def
  speccyboot_register_startup_def
  specdrum_register_startup_def
  spectranet_register_startup_def
  spectrum_register_startup_def
  tape_register_startup_def
  ttx2000s_register_startup_def
  timer_register_startup_def
  ula_register_startup_def
  ulaplus_register_startup_def
  usource_register_startup_def
  uspeech_register_startup_def
  z80_register_startup_def
  zxatasp_register_startup_def
  zxcf_register_startup_def
  zxmmc_register_startup_def

lemma startup_register_simps:
  "registered_modules (startup_manager_register m deps init ctx e mgr) = registered_modules mgr @
     [\<lparr>startup_module = m, dependencies = deps, init_fn = init, init_context = ctx, end_fn = e\<rparr>]"
  "end_functions (startup_manager_register m deps init ctx e mgr) = end_functions mgr"
  "registered_modules startup_manager_init = []" "end_functions startup_manager_init = []"
  by (simp_all add: startup_manager_register_def startup_manager_init_def)

text \<open>How far a module is from those with no dependencies.\<close>

definition startup_rank :: "startup_manager_module \<Rightarrow> nat" where
  "startup_rank m =
    (if m = STARTUP_MANAGER_MODULE_DISPLAY then 0 else if m = STARTUP_MANAGER_MODULE_LIBSPECTRUM then 1
     else if m = STARTUP_MANAGER_MODULE_SETUID then 2
     else if m \<in> {STARTUP_MANAGER_MODULE_EVENT, STARTUP_MANAGER_MODULE_MEMORY, STARTUP_MANAGER_MODULE_MEMPOOL} then 3
     else if m \<in> {STARTUP_MANAGER_MODULE_DEBUGGER, STARTUP_MANAGER_MODULE_MACHINE} then 4 else 5)"

definition fuse_end_names :: "string list" where
  "fuse_end_names = [''beta_end'', ''creator_end'', ''debugger_end'', ''didaktik80_end'', ''disciple_end'', ''divide_end'', ''divmmc_end'', ''event_end'', ''gs_end'', ''if1_end'', ''if2_end'', ''machine_end'', ''memory_end'', ''mempool_end'', ''opus_end'', ''plusd_end'', ''printer_end'', ''psg_end'', ''rzx_end'', ''screenshot_end'', ''settings_end'', ''simpleide_end'', ''sound_end'', ''speccyboot_end'', ''spectranet_end'', ''tape_end'', ''ttx2000s_end'', ''timer_end'', ''usource_end'', ''uspeech_end'', ''zxatasp_end'', ''zxcf_end'', ''zxmmc_end'']"

lemma fuse_startup_ends:
  "ends (registered_modules (fuse_startup cocoa F)) = map (end_of F) fuse_end_names"
  by (simp add: fuse_startup_def fuse_registrations startup_manager_register_no_dependencies_def startup_register_simps fuse_end_names_def
    ends_def map_filter_def)

lemma fuse_startup_modules:
  "map startup_module (registered_modules (fuse_startup cocoa F)) =
    [STARTUP_MANAGER_MODULE_AY,
     STARTUP_MANAGER_MODULE_BETA,
     STARTUP_MANAGER_MODULE_CREATOR,
     STARTUP_MANAGER_MODULE_COVOX,
     STARTUP_MANAGER_MODULE_DEBUGGER,
     STARTUP_MANAGER_MODULE_DIDAKTIK,
     STARTUP_MANAGER_MODULE_DISCIPLE,
     STARTUP_MANAGER_MODULE_DISPLAY,
     STARTUP_MANAGER_MODULE_DIVIDE,
     STARTUP_MANAGER_MODULE_DIVMMC,
     STARTUP_MANAGER_MODULE_EVENT,
     STARTUP_MANAGER_MODULE_FDD,
     STARTUP_MANAGER_MODULE_FULLER,
     STARTUP_MANAGER_MODULE_GENERAL_SOUND,
     STARTUP_MANAGER_MODULE_IF1,
     STARTUP_MANAGER_MODULE_IF2,
     STARTUP_MANAGER_MODULE_JOYSTICK,
     STARTUP_MANAGER_MODULE_KEMPMOUSE,
     STARTUP_MANAGER_MODULE_KEYBOARD,
     STARTUP_MANAGER_MODULE_LIBSPECTRUM,
     STARTUP_MANAGER_MODULE_LIBXML2,
     STARTUP_MANAGER_MODULE_MACHINE,
     STARTUP_MANAGER_MODULE_MACHINES_PERIPH,
     STARTUP_MANAGER_MODULE_MELODIK,
     STARTUP_MANAGER_MODULE_MEMORY,
     STARTUP_MANAGER_MODULE_MEMPOOL,
     STARTUP_MANAGER_MODULE_MULTIFACE,
     STARTUP_MANAGER_MODULE_OPUS,
     STARTUP_MANAGER_MODULE_PHANTOM_TYPIST,
     STARTUP_MANAGER_MODULE_PLUSD,
     STARTUP_MANAGER_MODULE_PRINTER,
     STARTUP_MANAGER_MODULE_PROFILE,
     STARTUP_MANAGER_MODULE_PSG,
     STARTUP_MANAGER_MODULE_RZX,
     STARTUP_MANAGER_MODULE_SCLD,
     STARTUP_MANAGER_MODULE_SCREENSHOT,
     STARTUP_MANAGER_MODULE_SETTINGS_END,
     STARTUP_MANAGER_MODULE_SETUID,
     STARTUP_MANAGER_MODULE_SIMPLEIDE,
     STARTUP_MANAGER_MODULE_SLT,
     STARTUP_MANAGER_MODULE_SOUND,
     STARTUP_MANAGER_MODULE_SPECCYBOOT,
     STARTUP_MANAGER_MODULE_SPECDRUM,
     STARTUP_MANAGER_MODULE_SPECTRANET,
     STARTUP_MANAGER_MODULE_SPECTRUM,
     STARTUP_MANAGER_MODULE_TAPE,
     STARTUP_MANAGER_MODULE_TTX2000S,
     STARTUP_MANAGER_MODULE_TIMER,
     STARTUP_MANAGER_MODULE_ULA,
     STARTUP_MANAGER_MODULE_ULAPLUS,
     STARTUP_MANAGER_MODULE_USOURCE,
     STARTUP_MANAGER_MODULE_USPEECH,
     STARTUP_MANAGER_MODULE_Z80,
     STARTUP_MANAGER_MODULE_ZXATASP,
     STARTUP_MANAGER_MODULE_ZXCF,
     STARTUP_MANAGER_MODULE_ZXMMC]"
  "end_functions (fuse_startup cocoa F) = []"
  by (simp_all add: fuse_startup_def fuse_registrations startup_manager_register_no_dependencies_def startup_register_simps)

lemma fuse_startup_dependencies:
  "list_all (\<lambda>r. distinct (dependencies r) \<and> (\<forall>d\<in>set (dependencies r). startup_rank d < startup_rank (startup_module r)) \<and>
     set (dependencies r) \<subseteq> {STARTUP_MANAGER_MODULE_DISPLAY, STARTUP_MANAGER_MODULE_LIBSPECTRUM, STARTUP_MANAGER_MODULE_SETUID,
       STARTUP_MANAGER_MODULE_EVENT, STARTUP_MANAGER_MODULE_MEMORY, STARTUP_MANAGER_MODULE_MEMPOOL, STARTUP_MANAGER_MODULE_DEBUGGER,
       STARTUP_MANAGER_MODULE_MACHINE}) (registered_modules (fuse_startup cocoa F))"
  by (simp add: fuse_startup_def fuse_registrations startup_manager_register_no_dependencies_def startup_register_simps startup_rank_def)

lemma fuse_startup_inits:
  "list_all (\<lambda>r. init_fn r = None \<or> (\<exists>n. init_fn r = Some (init_of F n))) (registered_modules (fuse_startup cocoa F))"
  by (simp add: fuse_startup_def fuse_registrations startup_manager_register_no_dependencies_def startup_register_simps) blast

text \<open>C36. If no initialisation fails, a start of the program calls every module, each after those it depends on, and its end calls
  the end functions in the inverse order. Those of the keyboard and of the joystick are not among them: both are registered in the place of
  the context.\<close>

theorem fuse_starts_and_ends:
  assumes ok: "\<forall>n c s. fst (init_of F n c s) = 0"
  shows "\<exists>order names mgr' s'. run_startup_manager cocoa F s = (0, mgr', s') \<and>
    mset order = mset (registered_modules (fuse_startup cocoa F)) \<and> in_order {} order \<and> run_inits order s = (0, s') \<and>
    mset names = mset fuse_end_names \<and> (\<forall>t. snd (startup_manager_run_end mgr' t) = foldr (end_of F) names t) \<and>
    ''keyboard_end'' \<notin> set names \<and> ''joystick_end'' \<notin> set names"
proof -
  let ?rs = "registered_modules (fuse_startup cocoa F)"
  note deps = fuse_startup_dependencies [of cocoa F, unfolded list_all_iff]
  have "\<forall>r\<in>set ?rs. distinct (dependencies r)" using deps by blast
  from startup_order [OF this fuse_startup_modules(2), of s] obtain order rest e mgr' s' where
    o: "run_startup_manager cocoa F s = (e, mgr', s')" "mset ?rs = mset (order @ rest)" "in_order {} order"
    and c: "run_inits order s = (e, s') \<and> e \<noteq> 0 \<or> run_inits order s = (0, s') \<and> e = (if rest = [] then 0 else 1) \<and>
     (\<forall>r\<in>set rest. \<not> set (dependencies r) \<subseteq> startup_module ` set order) \<and>
     (\<forall>t. snd (startup_manager_run_end mgr' t) = foldr (\<lambda>f t. f t) (ends order) t)"
    unfolding run_startup_manager_def by (elim exE conjE disjE) (blast intro: that)+
  have s: "set order \<union> set rest = set ?rs" using o(2) by (metis set_append set_mset_mset)
  have "fst (call_init r s) = 0" if "r \<in> set ?rs" for r s
    using that ok fuse_startup_inits [of F cocoa, unfolded list_all_iff] by (auto simp: call_init_def)
  then have "fst (run_inits order s) = 0" using s by (intro run_inits_succeed) blast
  with c have c: "run_inits order s = (0, s')" "e = (if rest = [] then 0 else 1)"
    "\<forall>r\<in>set rest. \<not> set (dependencies r) \<subseteq> startup_module ` set order"
    "\<forall>t. snd (startup_manager_run_end mgr' t) = foldr (\<lambda>f t. f t) (ends order) t" by auto
  have "\<forall>r\<in>set order \<union> set rest. \<forall>d\<in>set (dependencies r). d \<in> startup_module ` (set order \<union> set rest) \<and> startup_rank d < startup_rank (startup_module r)"
  proof -
    have "startup_module ` set ?rs = set (map startup_module ?rs)" by simp
    also have "{STARTUP_MANAGER_MODULE_DISPLAY, STARTUP_MANAGER_MODULE_LIBSPECTRUM, STARTUP_MANAGER_MODULE_SETUID,
       STARTUP_MANAGER_MODULE_EVENT, STARTUP_MANAGER_MODULE_MEMORY, STARTUP_MANAGER_MODULE_MEMPOOL, STARTUP_MANAGER_MODULE_DEBUGGER,
       STARTUP_MANAGER_MODULE_MACHINE} \<subseteq> \<dots>" unfolding fuse_startup_modules by simp
    finally show ?thesis unfolding s using deps by blast
  qed
  from ranked_modules_complete [OF this c(3)] have r: "rest = []" .
  then have m: "mset order = mset ?rs" using o(2) by simp
  then have "mset (ends order) = mset (map (end_of F) fuse_end_names)" using ends_mset fuse_startup_ends by metis
  then obtain names where n: "mset names = mset fuse_end_names" "ends order = map (end_of F) names" using mset_map_names by blast
  have "set names = set fuse_end_names" using n(1) by (metis set_mset_mset)
  then have k: "''keyboard_end'' \<notin> set names \<and> ''joystick_end'' \<notin> set names" by (simp add: fuse_end_names_def)
  have "\<forall>t. snd (startup_manager_run_end mgr' t) = foldr (end_of F) names t" using c(4) n(2) by (simp add: foldr_map comp_def)
  then show ?thesis using o c(1,2) m r n(1) k by auto
qed

text \<open>Functions that succeed and leave their names.\<close>

definition logged_functions :: "string list startup_functions" where
  "logged_functions = \<lparr>init_of = (\<lambda>n c s. (0, n # s)), end_of = (\<lambda>n s. n # s)\<rparr>"

lemma fuse_starts_and_ends_witness:
  "\<exists>order names mgr' s'. run_startup_manager False logged_functions [] = (0, mgr', s') \<and>
    mset order = mset (registered_modules (fuse_startup False logged_functions)) \<and> in_order {} order \<and> run_inits order [] = (0, s') \<and>
    mset names = mset fuse_end_names \<and> (\<forall>t. snd (startup_manager_run_end mgr' t) = foldr (end_of logged_functions) names t) \<and>
    ''keyboard_end'' \<notin> set names \<and> ''joystick_end'' \<notin> set names"
  by (rule fuse_starts_and_ends) (simp add: logged_functions_def)

end
