(* ===== verification/Gdb_Packets.thy ===== *)
theory Gdb_Packets
  imports Prelude
begin

text \<open>
  The packets of the GDB remote protocol: the deframer and the sender of \<open>debugger/packets.c\<close>, the
  hexadecimal and escape codings of \<open>debugger/gdbserver_utils.c\<close>, and the loop of \<open>debugger/gdbserver.c\<close> that feeds what the
  socket received to the deframer. Characters are bytes.
\<close>

section \<open>Hexadecimal\<close>

definition ascii :: "char \<Rightarrow> u8" where "ascii c = of_nat (of_char c)"

definition hex_nib :: "u8 \<Rightarrow> int" where
  "hex_nib c =
    (if c \<ge> ascii CHR ''0'' \<and> c \<le> ascii CHR ''9'' then uint (c - ascii CHR ''0'')
     else if c \<ge> ascii CHR ''a'' \<and> c \<le> ascii CHR ''f'' then uint (c - ascii CHR ''a'') + 10
     else if c \<ge> ascii CHR ''A'' \<and> c \<le> ascii CHR ''F'' then uint (c - ascii CHR ''A'') + 10 else -1)"

definition hexchars :: "u8 list" where "hexchars = map ascii ''0123456789abcdef''"

text \<open>The order of the tests differs from \<open>hex_nib\<close>; a \<open>char\<close> above 127 is negative and fails them all.\<close>

definition hex :: "u8 \<Rightarrow> int" where
  "hex ch =
    (if ch \<ge> ascii CHR ''a'' \<and> ch \<le> ascii CHR ''f'' then uint (ch - ascii CHR ''a'') + 10
     else if ch \<ge> ascii CHR ''0'' \<and> ch \<le> ascii CHR ''9'' then uint (ch - ascii CHR ''0'')
     else if ch \<ge> ascii CHR ''A'' \<and> ch \<le> ascii CHR ''F'' then uint (ch - ascii CHR ''A'') + 10 else -1)"

definition hex_digits :: "u8 \<Rightarrow> u8 list" where
  "hex_digits b = [hexchars ! unat (drop_bit 4 b), hexchars ! unat (b AND 0xf)]"

text \<open>The digits are followed by a zero byte.\<close>

definition mem2hex :: "u8 list \<Rightarrow> u8 list" where
  "mem2hex bs = concat (map hex_digits bs) @ [0]"

text \<open>\<open>buf\<close> is what the pointer reaches: it must hold two bytes for each result.\<close>

definition hex2byte :: "u8 \<Rightarrow> u8 \<Rightarrow> u8" where
  "hex2byte h l = push_bit 4 (of_int (hex h)) + of_int (hex l)"

fun hex2mem :: "u8 list \<Rightarrow> nat \<Rightarrow> u8 list" where
  "hex2mem buf 0 = []"
| "hex2mem (h # l # buf) (Suc n) = hex2byte h l # hex2mem buf n"
| "hex2mem buf (Suc n) = []"

text \<open>
  \<open>msg\<close> is the memory from the message on, \<open>len\<close> the length of the message: an escape at its very end takes the byte
  behind it. The result is the new content, which is written over the old.
\<close>

fun unescape_from :: "u8 list \<Rightarrow> nat \<Rightarrow> u8 list" where
  "unescape_from msg 0 = []"
| "unescape_from [] (Suc len) = []"
| "unescape_from (v # msg) (Suc len) =
    (if v \<noteq> ascii CHR ''}'' then v # unescape_from msg len
     else case msg of [] \<Rightarrow> [] | w # msg \<Rightarrow> (w XOR 0x20) # unescape_from msg (len - 1))"

section \<open>The deframer\<close>

datatype rsp_state_t = rsp_idle | rsp_in_payload | rsp_hash_hi | rsp_hash_lo

datatype packets_feed_result_t = PACKETS_FEED_NOT_CONSUMED | PACKETS_FEED_CONSUMED | PACKETS_FEED_COMPLETE | PACKETS_FEED_INTERRUPT

definition PACKET_BUF_SIZE :: nat where "PACKET_BUF_SIZE = 0x4000"
definition INTERRUPT_CHAR :: u8 where "INTERRUPT_CHAR = 3"

text \<open>The deframer, the array its buffer points to, the client's socket, and what was sent to it.\<close>

record packets =
  df_state :: rsp_state_t
  df_buf :: "u8 list"
  df_cap :: nat
  df_len :: nat
  df_csum :: u8
  df_hi :: int
  client_socket :: int
  sent :: "u8 list"

definition send_data :: "u8 list \<Rightarrow> packets \<Rightarrow> packets" where
  "send_data bs p = (if client_socket p < 0 then p else p\<lparr>sent := sent p @ bs\<rparr>)"

definition send_ack :: "packets \<Rightarrow> packets" where "send_ack p = send_data [ascii CHR ''+''] p"
definition send_nak :: "packets \<Rightarrow> packets" where "send_nak p = send_data [ascii CHR ''-''] p"

definition packets_reset :: "packets \<Rightarrow> packets" where
  "packets_reset p = p\<lparr>df_state := rsp_idle, df_cap := PACKET_BUF_SIZE, df_len := 0, df_csum := 0, df_hi := -1\<rparr>"

definition packets_get_packet :: "packets \<Rightarrow> u8 list" where
  "packets_get_packet p = df_buf p"

definition packets_get_packet_len :: "packets \<Rightarrow> nat" where
  "packets_get_packet_len p = df_len p"

definition packets_feed_byte :: "u8 \<Rightarrow> packets \<Rightarrow> packets_feed_result_t \<times> packets" where
  "packets_feed_byte b p =
    (case df_state p of
       rsp_idle \<Rightarrow>
         if b = ascii CHR ''$'' then (PACKETS_FEED_CONSUMED, p\<lparr>df_state := rsp_in_payload, df_len := 0, df_csum := 0\<rparr>)
         else if b = INTERRUPT_CHAR then (PACKETS_FEED_INTERRUPT, packets_reset p)
         else (PACKETS_FEED_NOT_CONSUMED, p)
     | rsp_in_payload \<Rightarrow>
         if b = ascii CHR ''#'' then (PACKETS_FEED_CONSUMED, p\<lparr>df_state := rsp_hash_hi\<rparr>)
         else if df_len p \<ge> df_cap p then (PACKETS_FEED_NOT_CONSUMED, packets_reset (send_nak p))
         else (PACKETS_FEED_CONSUMED, p\<lparr>df_buf := (df_buf p)[df_len p := b], df_len := df_len p + 1, df_csum := df_csum p + b\<rparr>)
     | rsp_hash_hi \<Rightarrow>
         if hex_nib b < 0 then (PACKETS_FEED_NOT_CONSUMED, packets_reset (send_nak p))
         else (PACKETS_FEED_CONSUMED, p\<lparr>df_hi := hex_nib b, df_state := rsp_hash_lo\<rparr>)
     | rsp_hash_lo \<Rightarrow>
         if df_hi p \<ge> 0 \<and> hex_nib b \<ge> 0 \<and> push_bit 4 (df_hi p) OR hex_nib b = uint (df_csum p)
         then (PACKETS_FEED_COMPLETE, send_ack (if df_len p < df_cap p then p\<lparr>df_buf := (df_buf p)[df_len p := 0]\<rparr> else p))
         else (PACKETS_FEED_NOT_CONSUMED, packets_reset (send_nak p)))"

text \<open>A packet to the client; nothing in the data is escaped.\<close>

definition checksum :: "u8 list \<Rightarrow> u8" where
  "checksum bs = foldl (+) 0 bs"

definition packet_bytes :: "u8 list \<Rightarrow> u8 list" where
  "packet_bytes bs = ascii CHR ''$'' # bs @ ascii CHR ''#'' # hex_digits (checksum bs)"

definition packet_send_message :: "u8 list \<Rightarrow> packets \<Rightarrow> packets" where
  "packet_send_message bs p = (if client_socket p < 0 then p else send_data (packet_bytes bs) p)"

section \<open>Reading from the socket\<close>

text \<open>What \<open>recv\<close> gave: an error or the end, nothing yet, or some bytes.\<close>

datatype recv_result = Recv_failed | Recv_would_block | Received "u8 list"

text \<open>\<open>process_packet\<close> and the setting of the debugger's mode are parameters, on a state \<open>'s\<close>.\<close>

definition feed_one :: "(packets \<Rightarrow> 's \<Rightarrow> packets \<times> 's) \<Rightarrow> ('s \<Rightarrow> 's) \<Rightarrow> packets \<times> 's \<Rightarrow> u8 \<Rightarrow> packets \<times> 's" where
  "feed_one process_packet halt = (\<lambda>(p, s) b.
    case packets_feed_byte b p of (result, p) \<Rightarrow>
      case result of
        PACKETS_FEED_COMPLETE \<Rightarrow> (case process_packet p s of (p, s) \<Rightarrow> (packets_reset p, s))
      | PACKETS_FEED_INTERRUPT \<Rightarrow> (p, halt s)
      | _ \<Rightarrow> (p, s))"

definition process_network :: "(packets \<Rightarrow> 's \<Rightarrow> packets \<times> 's) \<Rightarrow> ('s \<Rightarrow> 's) \<Rightarrow> recv_result \<Rightarrow> packets \<times> 's \<Rightarrow> int \<times> packets \<times> 's" where
  "process_network process_packet halt r ps =
    (case r of Recv_failed \<Rightarrow> (-1, ps) | Recv_would_block \<Rightarrow> (0, ps)
     | Received bs \<Rightarrow> (0, foldl (feed_one process_packet halt) ps bs))"

section \<open>Digits\<close>

lemma low_nibble: "(b :: u8) AND 0xf = take_bit 4 b"
  by (simp add: take_bit_eq_mask mask_numeral)

lemma nibbles: "unat (drop_bit 4 (b :: u8)) < 16" "unat (b AND 0xf) < 16"
proof -
  show "unat (drop_bit 4 b) < 16" using unat_u8_bound [of b] by (simp add: drop_bit_eq_div unat_div less_mult_imp_div_less)
  have "b AND 0xf \<le> 0xf" by (rule word_and_le1)
  then show "unat (b AND 0xf) < 16" by (simp add: word_le_nat_alt)
qed

lemma hex_nib_digit: "n < 16 \<Longrightarrow> hex_nib (hexchars ! n) = int n"
proof -
  assume "n < 16"
  then have "n \<in> {0, 1, 2, 3, 4, 5, 6, 7, 8, 9, 10, 11, 12, 13, 14, 15}" by simp presburger
  then show "hex_nib (hexchars ! n) = int n"
    by (elim insertE emptyE) (simp_all add: hexchars_def hex_nib_def ascii_def)
qed

lemma hex_is_hex_nib: "hex c = hex_nib c"
  by (auto simp: hex_def hex_nib_def ascii_def word_le_nat_alt)

lemma byte_nibbles: "push_bit 4 (uint (drop_bit 4 (b :: u8))) OR uint (b AND 0xf) = uint b"
  unfolding low_nibble by (rule bit_eqI) (auto simp: bit_simps dest: bit_imp_le_length)

lemma hex_nib_checksum: "push_bit 4 (hex_nib (hexchars ! unat (drop_bit 4 (b :: u8)))) OR hex_nib (hexchars ! unat (b AND 0xf)) = uint b"
  using byte_nibbles [of b] by (simp add: hex_nib_digit nibbles)

lemma hex2byte_digits: "hex2byte (hexchars ! unat (drop_bit 4 b)) (hexchars ! unat (b AND 0xf)) = b"
proof -
  have "push_bit 4 (drop_bit 4 b) + (b AND 0xf) = push_bit 4 (drop_bit 4 b) OR (b AND 0xf)"
    by (rule disjunctive_add) (auto simp: low_nibble bit_simps)
  also have "\<dots> = b" unfolding low_nibble by (rule bit_word_eqI) (auto simp: bit_simps)
  finally show ?thesis by (simp add: hex2byte_def hex_is_hex_nib hex_nib_digit nibbles)
qed

lemma hex2mem_digits: "hex2mem (concat (map hex_digits bs) @ rest) (length bs) = bs"
  by (induction bs) (simp_all add: hex_digits_def hex2byte_digits)

section \<open>A stream of packets\<close>

text \<open>
  What may come from a client: a byte between packets, a packet, or a packet whose last digit does not complete its checksum.
\<close>

datatype gdb_item = Noise u8 | Packet "u8 list" | Damaged "u8 list" u8 u8

primrec item_bytes :: "gdb_item \<Rightarrow> u8 list" where
  "item_bytes (Noise b) = [b]"
| "item_bytes (Packet bs) = packet_bytes bs"
| "item_bytes (Damaged bs h l) = ascii CHR ''$'' # bs @ [ascii CHR ''#'', h, l]"

definition payload_ok :: "u8 list \<Rightarrow> bool" where
  "payload_ok bs \<longleftrightarrow> ascii CHR ''#'' \<notin> set bs \<and> length bs \<le> PACKET_BUF_SIZE"

primrec item_ok :: "gdb_item \<Rightarrow> bool" where
  "item_ok (Noise b) = (b \<noteq> ascii CHR ''$'' \<and> b \<noteq> INTERRUPT_CHAR)"
| "item_ok (Packet bs) = payload_ok bs"
| "item_ok (Damaged bs h l) = (payload_ok bs \<and> hex_nib h \<ge> 0 \<and>
     \<not> (hex_nib l \<ge> 0 \<and> push_bit 4 (hex_nib h) OR hex_nib l = uint (checksum bs)))"

text \<open>A handler that answers a packet with some bytes, and what a stream does to it and to the client.\<close>

definition answer :: "(u8 list \<Rightarrow> 's \<Rightarrow> u8 list \<times> 's) \<Rightarrow> packets \<Rightarrow> 's \<Rightarrow> packets \<times> 's" where
  "answer handler p s = (case handler (take (packets_get_packet_len p) (packets_get_packet p)) s of (reply, s) \<Rightarrow> (send_data reply p, s))"

primrec deliver :: "(u8 list \<Rightarrow> 's \<Rightarrow> u8 list \<times> 's) \<Rightarrow> u8 list \<times> 's \<Rightarrow> gdb_item \<Rightarrow> u8 list \<times> 's" where
  "deliver handler os (Noise b) = os"
| "deliver handler os (Packet bs) = (case handler bs (snd os) of (reply, s) \<Rightarrow> (fst os @ ascii CHR ''+'' # reply, s))"
| "deliver handler os (Damaged bs h l) = (fst os @ [ascii CHR ''-''], snd os)"

definition packets_ready :: "packets \<Rightarrow> bool" where
  "packets_ready p \<longleftrightarrow> df_state p = rsp_idle \<and> df_cap p = PACKET_BUF_SIZE \<and> length (df_buf p) = PACKET_BUF_SIZE \<and> client_socket p \<ge> 0"

lemma feed_payload:
  assumes "df_state p = rsp_in_payload" "df_len p + length bs \<le> df_cap p" "df_cap p \<le> length (df_buf p)" "ascii CHR ''#'' \<notin> set bs"
  shows "\<exists>buf. foldl (feed_one pp halt) (p, s) bs =
      (p\<lparr>df_buf := buf, df_len := df_len p + length bs, df_csum := foldl (+) (df_csum p) bs\<rparr>, s) \<and>
    length buf = length (df_buf p) \<and> take (df_len p + length bs) buf = take (df_len p) (df_buf p) @ bs"
  using assms
proof (induction bs arbitrary: p)
  case Nil
  then show ?case by (intro exI [of _ "df_buf p"]) simp
next
  case (Cons b bs)
  define p1 where "p1 = p\<lparr>df_buf := (df_buf p)[df_len p := b], df_len := df_len p + 1, df_csum := df_csum p + b\<rparr>"
  have 1: "feed_one pp halt (p, s) b = (p1, s)"
    using Cons.prems by (auto simp: feed_one_def packets_feed_byte_def p1_def)
  have "df_state p1 = rsp_in_payload" "df_len p1 + length bs \<le> df_cap p1" "df_cap p1 \<le> length (df_buf p1)" "ascii CHR ''#'' \<notin> set bs"
    using Cons.prems by (auto simp: p1_def)
  from Cons.IH [OF this] obtain buf where b: "foldl (feed_one pp halt) (p1, s) bs =
      (p1\<lparr>df_buf := buf, df_len := df_len p1 + length bs, df_csum := foldl (+) (df_csum p1) bs\<rparr>, s)"
    "length buf = length (df_buf p1)" "take (df_len p1 + length bs) buf = take (df_len p1) (df_buf p1) @ bs" by blast
  have "take (df_len p1) (df_buf p1) = take (df_len p) (df_buf p) @ [b]"
    using Cons.prems by (simp add: p1_def take_Suc_conv_app_nth)
  with 1 b show ?case by (intro exI [of _ buf]) (simp add: p1_def)
qed

lemma feed_to_digits:
  assumes r: "packets_ready p" and bs: "payload_ok bs"
  shows "\<exists>p1. foldl (feed_one pp halt) (p, s) (ascii CHR ''$'' # bs @ [ascii CHR ''#'']) = (p1, s) \<and> df_state p1 = rsp_hash_hi \<and>
    df_len p1 = length bs \<and> df_csum p1 = checksum bs \<and> take (length bs) (df_buf p1) = bs \<and> length (df_buf p1) = PACKET_BUF_SIZE \<and>
    df_cap p1 = PACKET_BUF_SIZE \<and> client_socket p1 = client_socket p \<and> sent p1 = sent p"
proof -
  define p0 where "p0 = p\<lparr>df_state := rsp_in_payload, df_len := 0, df_csum := 0\<rparr>"
  have 0: "feed_one pp halt (p, s) (ascii CHR ''$'') = (p0, s)"
    using r by (simp add: feed_one_def packets_feed_byte_def packets_ready_def p0_def)
  have "df_state p0 = rsp_in_payload" "df_len p0 + length bs \<le> df_cap p0" "df_cap p0 \<le> length (df_buf p0)" "ascii CHR ''#'' \<notin> set bs"
    using r bs by (auto simp: p0_def packets_ready_def payload_ok_def)
  from feed_payload [OF this, of pp halt s] obtain buf where b: "foldl (feed_one pp halt) (p0, s) bs =
      (p0\<lparr>df_buf := buf, df_len := length bs, df_csum := checksum bs\<rparr>, s)" "length buf = length (df_buf p)" "take (length bs) buf = bs"
    by (auto simp: p0_def checksum_def)
  define p1 where "p1 = p0\<lparr>df_buf := buf, df_len := length bs, df_csum := checksum bs, df_state := rsp_hash_hi\<rparr>"
  have "feed_one pp halt (p0\<lparr>df_buf := buf, df_len := length bs, df_csum := checksum bs\<rparr>, s) (ascii CHR ''#'') = (p1, s)"
    by (simp add: feed_one_def packets_feed_byte_def p0_def p1_def)
  with 0 b r show ?thesis by (intro exI [of _ p1]) (simp add: p1_def p0_def packets_ready_def)
qed

lemma feed_item:
  assumes r: "packets_ready p" and i: "item_ok i"
  shows "\<exists>p'. foldl (feed_one (answer handler) halt) (p, s) (item_bytes i) = (p', snd (deliver handler (sent p, s) i)) \<and>
    packets_ready p' \<and> sent p' = fst (deliver handler (sent p, s) i)"
proof (cases i)
  case (Noise b)
  then show ?thesis using r i by (intro exI [of _ p]) (auto simp: feed_one_def packets_feed_byte_def packets_ready_def)
next
  case (Packet bs)
  from feed_to_digits [OF r, of bs "answer handler" halt s] i Packet obtain p1 where
    1: "foldl (feed_one (answer handler) halt) (p, s) (ascii CHR ''$'' # bs @ [ascii CHR ''#'']) = (p1, s)" "df_state p1 = rsp_hash_hi"
      "df_len p1 = length bs" "df_csum p1 = checksum bs" "take (length bs) (df_buf p1) = bs" "length (df_buf p1) = PACKET_BUF_SIZE"
      "df_cap p1 = PACKET_BUF_SIZE" "client_socket p1 = client_socket p" "sent p1 = sent p" by auto
  let ?h = "hexchars ! unat (drop_bit 4 (checksum bs))" let ?l = "hexchars ! unat (checksum bs AND 0xf)"
  have n: "hex_nib ?h \<ge> 0" "hex_nib ?l \<ge> 0" by (simp_all add: hex_nib_digit nibbles)
  define p2 where "p2 = p1\<lparr>df_hi := hex_nib ?h, df_state := rsp_hash_lo\<rparr>"
  have 2: "feed_one (answer handler) halt (p1, s) ?h = (p2, s)" using 1(2) n by (simp add: feed_one_def packets_feed_byte_def p2_def)
  define p3 where "p3 = send_ack (if df_len p2 < df_cap p2 then p2\<lparr>df_buf := (df_buf p2)[df_len p2 := 0]\<rparr> else p2)"
  have "packets_feed_byte ?l p2 = (PACKETS_FEED_COMPLETE, p3)"
    using 1(4) n hex_nib_checksum [of "checksum bs"] by (simp add: packets_feed_byte_def p2_def p3_def)
  moreover have "take (df_len p3) (df_buf p3) = bs" "client_socket p3 = client_socket p" "length (df_buf p3) = PACKET_BUF_SIZE"
    "sent p3 = sent p @ [ascii CHR ''+'']"
    using 1 r by (auto simp: p3_def p2_def send_ack_def send_data_def packets_ready_def)
  ultimately show ?thesis
    using 1(1) 2 r
    by (auto simp: Packet packet_bytes_def hex_digits_def feed_one_def answer_def packets_get_packet_def packets_get_packet_len_def
        packets_ready_def packets_reset_def send_data_def split: prod.splits)
next
  case (Damaged bs h l)
  from feed_to_digits [OF r, of bs "answer handler" halt s] i Damaged obtain p1 where
    1: "foldl (feed_one (answer handler) halt) (p, s) (ascii CHR ''$'' # bs @ [ascii CHR ''#'']) = (p1, s)" "df_state p1 = rsp_hash_hi"
      "df_csum p1 = checksum bs" "length (df_buf p1) = PACKET_BUF_SIZE"
      "df_cap p1 = PACKET_BUF_SIZE" "client_socket p1 = client_socket p" "sent p1 = sent p" by auto
  define p2 where "p2 = p1\<lparr>df_hi := hex_nib h, df_state := rsp_hash_lo\<rparr>"
  have 2: "feed_one (answer handler) halt (p1, s) h = (p2, s)" using 1(2) i by (simp add: feed_one_def packets_feed_byte_def p2_def Damaged)
  have 3: "feed_one (answer handler) halt (p2, s) l = (packets_reset (send_nak p2), s)"
    using 1(3) i by (auto simp: feed_one_def packets_feed_byte_def p2_def Damaged)
  show ?thesis
    using 1 2 3 r by (intro exI [of _ "packets_reset (send_nak p2)"])
      (simp add: Damaged p2_def packets_ready_def packets_reset_def send_nak_def send_data_def)
qed

lemma feed_items:
  assumes "packets_ready p" "list_all item_ok is"
  shows "\<exists>p'. foldl (feed_one (answer handler) halt) (p, s) (concat (map item_bytes is)) = (p', snd (foldl (deliver handler) (sent p, s) is)) \<and>
    packets_ready p' \<and> sent p' = fst (foldl (deliver handler) (sent p, s) is)"
  using assms
proof (induction "is" arbitrary: p s)
  case (Cons i "is")
  from feed_item [OF Cons.prems(1), of i handler halt s] Cons.prems(2) obtain p' where
    1: "foldl (feed_one (answer handler) halt) (p, s) (item_bytes i) = (p', snd (deliver handler (sent p, s) i))" "packets_ready p'"
      "sent p' = fst (deliver handler (sent p, s) i)" by auto
  from Cons.IH [OF 1(2), of "snd (deliver handler (sent p, s) i)"] Cons.prems(2) 1 show ?case by simp
qed auto

lemma feed_chunks:
  "foldl (\<lambda>ps bs. snd (process_network pp halt (Received bs) ps)) ps chunks = foldl (feed_one pp halt) ps (concat chunks)"
  by (induction chunks arbitrary: ps) (simp_all add: process_network_def)

text \<open>C37. Whatever way the bytes of a stream of packets, damaged packets and other bytes are cut up by the network, every packet
  is handled once and in order with exactly the bytes that \<open>packet_send_message\<close> framed and acknowledged before its answer,
  and every damaged one is refused and not handled.\<close>

theorem gdb_stream_delivered:
  assumes "packets_ready p" "list_all item_ok is" "concat chunks = concat (map item_bytes is)"
  shows "\<exists>p'. foldl (\<lambda>ps bs. snd (process_network (answer handler) halt (Received bs) ps)) (p, s) chunks =
      (p', snd (foldl (deliver handler) (sent p, s) is)) \<and>
    packets_ready p' \<and> sent p' = fst (foldl (deliver handler) (sent p, s) is)"
  unfolding feed_chunks assms(3) by (rule feed_items [OF assms(1,2)])

text \<open>The deframer after \<open>packets_init\<close>, with a client.\<close>

definition demo_packets :: packets where
  "demo_packets = packets_reset \<lparr>df_state = rsp_idle, df_buf = replicate PACKET_BUF_SIZE 0, df_cap = 0, df_len = 0, df_csum = 0, df_hi = 0,
     client_socket = 5, sent = []\<rparr>"

lemma gdb_stream_delivered_witness:
  "\<exists>p'. foldl (\<lambda>ps bs. snd (process_network (answer (\<lambda>bs s. (map ascii ''$OK#9a'', s @ [bs]))) id (Received bs) ps)) (demo_packets, [])
      [map ascii ''+$m40'', map ascii ''00,2#8'', map ascii ''f$g#00$#00''] =
      (p', [map ascii ''m4000,2'', []]) \<and> packets_ready p' \<and> sent p' = map ascii ''+$OK#9a-+$OK#9a''"
proof -
  have "list_all item_ok [Noise (ascii CHR ''+''), Packet (map ascii ''m4000,2''), Damaged (map ascii ''g'') (ascii CHR ''0'') (ascii CHR ''0''), Packet []]"
    by (simp add: payload_ok_def PACKET_BUF_SIZE_def INTERRUPT_CHAR_def ascii_def checksum_def hex_nib_def)
  moreover have "concat [map ascii ''+$m40'', map ascii ''00,2#8'', map ascii ''f$g#00$#00''] =
    concat (map item_bytes [Noise (ascii CHR ''+''), Packet (map ascii ''m4000,2''), Damaged (map ascii ''g'') (ascii CHR ''0'') (ascii CHR ''0''), Packet []])"
    by (simp add: packet_bytes_def hex_digits_def checksum_def ascii_def hexchars_def)
  moreover have "packets_ready demo_packets" by (simp add: packets_ready_def demo_packets_def packets_reset_def)
  ultimately show ?thesis
    using gdb_stream_delivered [of demo_packets "[Noise (ascii CHR ''+''), Packet (map ascii ''m4000,2''), Damaged (map ascii ''g'') (ascii CHR ''0'') (ascii CHR ''0''), Packet []]"
      "[map ascii ''+$m40'', map ascii ''00,2#8'', map ascii ''f$g#00$#00'']" "\<lambda>bs s. (map ascii ''$OK#9a'', s @ [bs])" id "[]"]
    by (simp add: demo_packets_def packets_reset_def)
qed

end
