(* ===== verification/Gdb_Server.thy ===== *)
theory Gdb_Server
  imports Gdb_Packets Z80_Core
begin

text \<open>
  What the GDB server does to the machine, \<open>debugger/gdbserver.c\<close>: the registers and the memory that a client reads
  and writes. A 16-bit value is in memory with its low byte first, as on the hosts the program runs on. The texts of the numbers of a
  packet are scanned by the C library; here an operation has them as numbers.
\<close>

section \<open>Registers\<close>

datatype gdb_register_t = GDB_REGISTER_AF | GDB_REGISTER_BC | GDB_REGISTER_DE | GDB_REGISTER_HL | GDB_REGISTER_SP | GDB_REGISTER_PC
  | GDB_REGISTER_IX | GDB_REGISTER_IY | GDB_REGISTER_AF2 | GDB_REGISTER_BC2 | GDB_REGISTER_DE2 | GDB_REGISTER_HL2 | GDB_REGISTER_IR
  | GDB_REGISTER_IFF1 | GDB_REGISTER_IFF2 | GDB_REGISTER_IM | GDB_REGISTER_CLOCKL | GDB_REGISTER_CLOCKH

definition gdb_registers :: "gdb_register_t list" where
  "gdb_registers = [GDB_REGISTER_AF, GDB_REGISTER_BC, GDB_REGISTER_DE, GDB_REGISTER_HL, GDB_REGISTER_SP, GDB_REGISTER_PC,
     GDB_REGISTER_IX, GDB_REGISTER_IY, GDB_REGISTER_AF2, GDB_REGISTER_BC2, GDB_REGISTER_DE2, GDB_REGISTER_HL2, GDB_REGISTER_IR,
     GDB_REGISTER_IFF1, GDB_REGISTER_IFF2, GDB_REGISTER_IM, GDB_REGISTER_CLOCKL, GDB_REGISTER_CLOCKH]"

definition GDB_REGISTER_COUNT :: nat where "GDB_REGISTER_COUNT = 18"

definition put_register :: "gdb_register_t \<Rightarrow> u16 \<Rightarrow> processor \<Rightarrow> processor" where
  "put_register reg v p =
    (case reg of
       GDB_REGISTER_AF \<Rightarrow> p\<lparr>AF := v\<rparr> | GDB_REGISTER_BC \<Rightarrow> p\<lparr>BC := v\<rparr> | GDB_REGISTER_DE \<Rightarrow> p\<lparr>DE := v\<rparr> | GDB_REGISTER_HL \<Rightarrow> p\<lparr>HL := v\<rparr>
     | GDB_REGISTER_SP \<Rightarrow> p\<lparr>SP := v\<rparr> | GDB_REGISTER_PC \<Rightarrow> p\<lparr>PC := v\<rparr> | GDB_REGISTER_IX \<Rightarrow> p\<lparr>IX := v\<rparr> | GDB_REGISTER_IY \<Rightarrow> p\<lparr>IY := v\<rparr>
     | GDB_REGISTER_AF2 \<Rightarrow> p\<lparr>AF2 := v\<rparr> | GDB_REGISTER_BC2 \<Rightarrow> p\<lparr>BC2 := v\<rparr> | GDB_REGISTER_DE2 \<Rightarrow> p\<lparr>DE2 := v\<rparr> | GDB_REGISTER_HL2 \<Rightarrow> p\<lparr>HL2 := v\<rparr>
     | GDB_REGISTER_IR \<Rightarrow> p\<lparr>regI := hi v, regR := v AND 0x7f, regR7 := ucast (v AND 0x80)\<rparr>
     | GDB_REGISTER_IFF1 \<Rightarrow> p\<lparr>IFF1 := lo v\<rparr> | GDB_REGISTER_IFF2 \<Rightarrow> p\<lparr>IFF2 := lo v\<rparr> | GDB_REGISTER_IM \<Rightarrow> p\<lparr>IM := lo v\<rparr>
     | GDB_REGISTER_CLOCKL \<Rightarrow> p\<lparr>CLOCKL := v\<rparr> | GDB_REGISTER_CLOCKH \<Rightarrow> p\<lparr>CLOCKH := v\<rparr>)"

definition take_register :: "gdb_register_t \<Rightarrow> processor \<Rightarrow> u16" where
  "take_register reg p =
    (case reg of
       GDB_REGISTER_AF \<Rightarrow> AF p | GDB_REGISTER_BC \<Rightarrow> BC p | GDB_REGISTER_DE \<Rightarrow> DE p | GDB_REGISTER_HL \<Rightarrow> HL p
     | GDB_REGISTER_SP \<Rightarrow> SP p | GDB_REGISTER_PC \<Rightarrow> PC p | GDB_REGISTER_IX \<Rightarrow> IX p | GDB_REGISTER_IY \<Rightarrow> IY p
     | GDB_REGISTER_AF2 \<Rightarrow> AF2 p | GDB_REGISTER_BC2 \<Rightarrow> BC2 p | GDB_REGISTER_DE2 \<Rightarrow> DE2 p | GDB_REGISTER_HL2 \<Rightarrow> HL2 p
     | GDB_REGISTER_IR \<Rightarrow> push_bit 8 (ucast (regI p)) OR ucast (regR7 p AND 0x80) OR (regR p AND 0x7f)
     | GDB_REGISTER_IFF1 \<Rightarrow> ucast (IFF1 p) | GDB_REGISTER_IFF2 \<Rightarrow> ucast (IFF2 p) | GDB_REGISTER_IM \<Rightarrow> ucast (IM p)
     | GDB_REGISTER_CLOCKL \<Rightarrow> CLOCKL p | GDB_REGISTER_CLOCKH \<Rightarrow> CLOCKH p)"

text \<open>\<open>None\<close> for a number that is no register.\<close>

definition set_register_value :: "int \<Rightarrow> u16 \<Rightarrow> processor \<Rightarrow> processor option" where
  "set_register_value reg v p = (if 0 \<le> reg \<and> reg < int GDB_REGISTER_COUNT then Some (put_register (gdb_registers ! nat reg) v p) else None)"

definition get_register_value :: "int \<Rightarrow> processor \<Rightarrow> u16 option" where
  "get_register_value reg p = (if 0 \<le> reg \<and> reg < int GDB_REGISTER_COUNT then Some (take_register (gdb_registers ! nat reg) p) else None)"

definition word_bytes :: "u16 list \<Rightarrow> u8 list" where
  "word_bytes ws = concat (map (\<lambda>w. [lo w, hi w]) ws)"

fun bytes_words :: "u8 list \<Rightarrow> u16 list" where
  "bytes_words (l # h # bs) = mkw h l # bytes_words bs"
| "bytes_words bs = []"

text \<open>The texts are those in the buffer of the response, to the zero byte at their end.\<close>

definition c_string :: "u8 list \<Rightarrow> u8 list" where
  "c_string = takeWhile (\<lambda>b. b \<noteq> 0)"

definition reply_text :: "string \<Rightarrow> u8 list" where
  "reply_text = map ascii"

definition action_get_registers :: "processor \<Rightarrow> u8 list" where
  "action_get_registers p = c_string (mem2hex (word_bytes (map (\<lambda>reg. take_register reg p) gdb_registers)))"

definition action_set_registers :: "u16 list \<Rightarrow> processor \<Rightarrow> processor" where
  "action_set_registers ws p = fold (\<lambda>(reg, w) p. put_register reg w p) (zip gdb_registers ws) p"

definition packet_G :: "u8 list \<Rightarrow> processor \<Rightarrow> u8 list \<times> processor" where
  "packet_G payload p =
    (if length (c_string payload) \<noteq> GDB_REGISTER_COUNT * 4 then (reply_text ''E01'', p)
     else (reply_text ''OK'', action_set_registers (bytes_words (hex2mem payload (GDB_REGISTER_COUNT * 2))) p))"

definition action_get_register :: "int \<Rightarrow> processor \<Rightarrow> u8 list" where
  "action_get_register reg p =
    (case get_register_value reg p of None \<Rightarrow> reply_text ''E01'' | Some w \<Rightarrow> c_string (mem2hex (word_bytes [w])))"

definition action_set_register :: "int \<Rightarrow> u16 \<Rightarrow> processor \<Rightarrow> u8 list \<times> processor" where
  "action_set_register reg w p =
    (case set_register_value reg w p of None \<Rightarrow> (reply_text ''E01'', p) | Some p \<Rightarrow> (reply_text ''OK'', p))"

section \<open>Memory\<close>

text \<open>Accesses go through the bus as those of the processor do, debugger and devices included; only the time is put back.\<close>

primrec get_mem_loop :: "('u, 'z) memory_state_scheme bus_devices \<Rightarrow> nat \<Rightarrow> u16 \<Rightarrow> ('u, 'z) memory_state_scheme \<Rightarrow> u8 list \<times> ('u, 'z) memory_state_scheme" where
  "get_mem_loop dev 0 address s = ([], s)"
| "get_mem_loop dev (Suc n) address s =
    (case readbyte dev address s of (b, s) \<Rightarrow>
       case get_mem_loop dev n (address + 1) s of (ds, s) \<Rightarrow> (hex_digits b @ ds, s))"

definition action_get_mem :: "('u, 'z) memory_state_scheme bus_devices \<Rightarrow> nat \<Rightarrow> nat \<Rightarrow> ('u, 'z) memory_state_scheme \<Rightarrow> u8 list \<times> ('u, 'z) memory_state_scheme" where
  "action_get_mem dev maddr mlen s =
    (case get_mem_loop dev mlen (of_nat maddr) s of (ds, s') \<Rightarrow> (c_string (ds @ [0]), s'\<lparr>tstates := tstates s\<rparr>))"

text \<open>\<open>None\<close> when the pointer leaves the memory it is given.\<close>

fun set_mem_loop :: "('u, 'z) memory_state_scheme bus_devices \<Rightarrow> nat \<Rightarrow> u8 list \<Rightarrow> u16 \<Rightarrow> ('u, 'z) memory_state_scheme \<Rightarrow> ('u, 'z) memory_state_scheme option" where
  "set_mem_loop dev 0 payload address s = Some s"
| "set_mem_loop dev (Suc n) (h # l # payload) address s = set_mem_loop dev n payload (address + 1) (writebyte dev address (hex2byte h l) s)"
| "set_mem_loop dev (Suc n) payload address s = None"

definition action_set_mem ::
  "('u, 'z) memory_state_scheme bus_devices \<Rightarrow> nat \<Rightarrow> nat \<Rightarrow> u8 list \<Rightarrow> ('u, 'z) memory_state_scheme \<Rightarrow> (u8 list \<times> ('u, 'z) memory_state_scheme) option" where
  "action_set_mem dev maddr mlen payload s =
    map_option (\<lambda>s'. (reply_text ''OK'', s'\<lparr>tstates := tstates s\<rparr>)) (set_mem_loop dev mlen payload (of_nat maddr) s)"

text \<open>The packets \<open>m\<close>, \<open>M\<close> and \<open>X\<close> behind their numbers; \<open>SZ\<close> is 2 and the product is taken in a \<open>size_t\<close>.\<close>

definition packet_m :: "('u, 'z) memory_state_scheme bus_devices \<Rightarrow> nat \<Rightarrow> nat \<Rightarrow> ('u, 'z) memory_state_scheme \<Rightarrow> u8 list \<times> ('u, 'z) memory_state_scheme" where
  "packet_m dev maddr mlen s = (if mlen * 2 * 2 mod 2 ^ 64 > 0x20000 then (reply_text ''E01'', s) else action_get_mem dev maddr mlen s)"

definition packet_X ::
  "('u, 'z) memory_state_scheme bus_devices \<Rightarrow> nat \<Rightarrow> nat \<Rightarrow> u8 list \<Rightarrow> nat \<Rightarrow> ('u, 'z) memory_state_scheme \<Rightarrow> (u8 list \<times> ('u, 'z) memory_state_scheme) option" where
  "packet_X dev maddr mlen payload available_len s =
    (let bytes = unescape_from payload available_len in
     if length bytes \<noteq> mlen then Some (reply_text ''E01'', s)
     else action_set_mem dev maddr mlen (bytes @ drop (length bytes) payload) s)"

section \<open>Reading back\<close>

lemma hex_digits_not_zero: "0 \<notin> set (concat (map hex_digits bs))"
proof -
  have "0 \<notin> set hexchars" "length hexchars = 16" by (simp_all add: hexchars_def ascii_def)
  then have h: "n < 16 \<Longrightarrow> hexchars ! n \<noteq> 0" for n by (metis nth_mem)
  have "0 \<notin> set (hex_digits b)" for b
    using h [OF nibbles(1) [of b]] h [OF nibbles(2) [of b]] by (simp add: hex_digits_def)
  then show ?thesis by auto
qed

lemma c_string_digits [simp]: "c_string (concat (map hex_digits bs) @ 0 # rest) = concat (map hex_digits bs)"
proof -
  have "takeWhile (\<lambda>b. b \<noteq> 0) (concat (map hex_digits bs) @ 0 # rest) = concat (map hex_digits bs) @ takeWhile (\<lambda>b. b \<noteq> 0) (0 # rest)"
    by (rule takeWhile_append2) (use hex_digits_not_zero [of bs] in metis)
  then show ?thesis by (simp add: c_string_def)
qed

lemma length_digits [simp]: "length (concat (map hex_digits bs)) = 2 * length bs"
  by (induction bs) (simp_all add: hex_digits_def)

lemma words_bytes: "bytes_words (word_bytes ws) = ws" "length (word_bytes ws) = 2 * length ws"
  by (induction ws) (simp_all add: word_bytes_def)

lemma lo_ucast [simp]: "lo (ucast (b :: u8)) = b"
  by (rule bit_word_eqI) (auto simp: lo_def bit_simps)

lemma ir_word: "push_bit 8 (ucast (hi v)) OR ucast (ucast (v AND 0x80) AND (0x80 :: u8)) OR (v AND 0x7f) = v"
proof (rule bit_word_eqI)
  fix n assume "n < LENGTH(16)"
  then have "n \<in> {0, 1, 2, 3, 4, 5, 6, 7, 8, 9, 10, 11, 12, 13, 14, 15}" by simp presburger
  then show "bit (push_bit 8 (ucast (hi v)) OR ucast (ucast (v AND 0x80) AND (0x80 :: u8)) OR (v AND 0x7f)) n = bit v n"
    by (elim insertE emptyE) (simp_all add: bit_simps hi_def)
qed

text \<open>C38. The answer to \<open>g\<close>, sent back in a \<open>G\<close> to a processor in any state, is accepted and makes it answer the same; what no register
  of the protocol names is left alone.\<close>

theorem gdb_registers_roundtrip:
  "let (reply, q') = packet_G (action_get_registers p @ 0 # rest) q
   in reply = reply_text ''OK'' \<and> action_get_registers q' = action_get_registers p \<and>
     memptr q' = memptr q \<and> halted q' = halted q \<and> Q q' = Q q \<and> interrupts_enabled_at q' = interrupts_enabled_at q"
proof -
  define ws where "ws = map (\<lambda>reg. take_register reg p) gdb_registers"
  have l: "length ws = GDB_REGISTER_COUNT" by (simp add: ws_def gdb_registers_def GDB_REGISTER_COUNT_def)
  have g: "action_get_registers p = concat (map hex_digits (word_bytes ws))" by (simp add: action_get_registers_def mem2hex_def ws_def)
  have "hex2mem (concat (map hex_digits (word_bytes ws)) @ 0 # rest) (length (word_bytes ws)) = word_bytes ws" by (rule hex2mem_digits)
  then have "packet_G (action_get_registers p @ 0 # rest) q = (reply_text ''OK'', action_set_registers ws q)"
    using l by (simp add: packet_G_def g words_bytes mult.commute [of _ 2])
  moreover define v where "v = take_register GDB_REGISTER_IR p"
  have ws: "ws = [AF p, BC p, DE p, HL p, SP p, PC p, IX p, IY p, AF2 p, BC2 p, DE2 p, HL2 p, v, ucast (IFF1 p), ucast (IFF2 p), ucast (IM p),
      CLOCKL p, CLOCKH p]" unfolding ws_def v_def gdb_registers_def by (simp add: take_register_def)
  have set: "action_set_registers ws q = q\<lparr>AF := AF p, BC := BC p, DE := DE p, HL := HL p, SP := SP p, PC := PC p, IX := IX p, IY := IY p,
      AF2 := AF2 p, BC2 := BC2 p, DE2 := DE2 p, HL2 := HL2 p, regI := hi v, regR := v AND 0x7f, regR7 := ucast (v AND 0x80),
      IFF1 := IFF1 p, IFF2 := IFF2 p, IM := IM p, CLOCKL := CLOCKL p, CLOCKH := CLOCKH p\<rparr>"
    by (simp add: action_set_registers_def ws gdb_registers_def put_register_def)
  moreover have "map (\<lambda>reg. take_register reg (action_set_registers ws q)) gdb_registers = ws"
    unfolding set using ir_word [of v] by (simp add: gdb_registers_def take_register_def ws and.assoc)
  then have "action_get_registers (action_set_registers ws q) = action_get_registers p"
    unfolding action_get_registers_def by (simp only: ws_def)
  moreover have "memptr (action_set_registers ws q) = memptr q \<and> halted (action_set_registers ws q) = halted q \<and>
      Q (action_set_registers ws q) = Q q \<and> interrupts_enabled_at (action_set_registers ws q) = interrupts_enabled_at q"
    unfolding set by simp
  ultimately show ?thesis by (simp only: Let_def prod.case)
qed


section \<open>Memory\<close>

text \<open>The debugger is at rest in the hooks of the bus, and no device answers in place of the mapped memory.\<close>

definition quiet_debugger :: "'s bus_devices \<Rightarrow> bool" where
  "quiet_debugger dev \<longleftrightarrow> (\<forall>a s. debugger_check_read dev a s = s \<and> debugger_check_write dev a s = s)"

definition mapped_bus :: "('u, 'z) memory_state_scheme \<Rightarrow> bool" where
  "mapped_bus s \<longleftrightarrow> \<not> opus_active s \<and> \<not> spectranet_romcs_active s \<and> \<not> ttx2000s_paged s \<and> \<not> uspeech_available s"

text \<open>Where an address is read from and written to, when that is one place of memory.\<close>

definition place :: "('u, 'z) memory_state_scheme \<Rightarrow> u16 \<Rightarrow> (mem_block \<times> nat) option" where
  "place s a = (if writes_through a s \<and> phys (write_mapping a s) a = phys (read_mapping a s) a then phys (read_mapping a s) a else None)"

definition same_tables :: "('u, 'z) memory_state_scheme \<Rightarrow> ('u, 'z) memory_state_scheme \<Rightarrow> bool" where
  "same_tables s' s \<longleftrightarrow> memory_map_read s' = memory_map_read s \<and> memory_map_write s' = memory_map_write s \<and>
     writable_roms s' = writable_roms s \<and> mapped_bus s' = mapped_bus s"

lemma same_tables_place: "same_tables s' s \<Longrightarrow> place s' a = place s a \<and> read_mapping a s' = read_mapping a s"
  by (simp add: same_tables_def place_def writes_through_def write_mapping_def read_mapping_def)

lemma readbyte_quiet:
  assumes "quiet_debugger dev" "mapped_bus s"
  shows "readbyte dev a s = (readbyte_internal a s, access_time (read_mapping a s) s)"
  using assms by (simp add: readbyte_def quiet_debugger_def mapped_bus_def Let_def)

lemma writebyte_quiet:
  assumes "quiet_debugger dev" "mapped_bus s" "display_hook_ok dev" "place s a = Some (b, i)"
  shows "same_tables (writebyte dev a v s) s" "mem (writebyte dev a v s) = (mem s)(b := (mem s b)(i := v))"
proof -
  define t where "t = access_time (write_mapping a s) s"
  define u where "u = memory_display_dirty dev a v t"
  have "memory_state.truncate u = memory_state.truncate t" using assms(3) by (simp add: display_hook_ok_def u_def)
  note tr = arg_cong [OF this]
  have m: "memory_map_read u = memory_map_read s" "memory_map_write u = memory_map_write s" "mem u = mem s"
      "writable_roms u = writable_roms s" "mapped_bus u = mapped_bus s"
    using tr [of memory_map_read] tr [of memory_map_write] tr [of mem] tr [of writable_roms] tr [of mapped_bus]
    by (simp_all add: memory_state.truncate_def t_def mapped_bus_def)
  have p: "writes_through a s" "phys (write_mapping a s) a = Some (b, i)"
    using assms(4) by (auto simp: place_def split: if_splits)
  have "writebyte dev a v s = u\<lparr>mem := store_at (page (write_mapping a s)) (page_offset a) v (mem u)\<rparr>"
    using assms(1,2) p(1)
    by (simp add: writebyte_def writebyte_internal_def writebyte_overlay_def writebyte_memory_def quiet_debugger_def mapped_bus_def
        writes_through_def Let_def t_def u_def)
  then have w: "writebyte dev a v s = u\<lparr>mem := (mem s)(b := (mem s b)(i := v))\<rparr>" using p(2) m by (simp add: store_phys)
  show "same_tables (writebyte dev a v s) s" "mem (writebyte dev a v s) = (mem s)(b := (mem s b)(i := v))"
    unfolding w using m by (simp_all add: same_tables_def mapped_bus_def)
qed

text \<open>The addresses of a block, with the wrap of a 16-bit address.\<close>

primrec addresses :: "u16 \<Rightarrow> nat \<Rightarrow> u16 list" where
  "addresses a 0 = []"
| "addresses a (Suc n) = a # addresses (a + 1) n"

lemma addresses_length [simp]: "length (addresses a n) = n"
  by (induction n arbitrary: a) simp_all

lemma set_mem_stores:
  assumes "quiet_debugger dev" "display_hook_ok dev" "mapped_bus s"
    "\<forall>x\<in>set (addresses a (length bs)). place s x \<noteq> None" "distinct (map (place s) (addresses a (length bs)))"
  shows "\<exists>s'. set_mem_loop dev (length bs) (concat (map hex_digits bs) @ rest) a s = Some s' \<and> same_tables s' s \<and>
    map (\<lambda>x. readbyte_internal x s') (addresses a (length bs)) = bs \<and>
    (\<forall>b i. Some (b, i) \<notin> set (map (place s) (addresses a (length bs))) \<longrightarrow> mem s' b i = mem s b i)"
  using assms(3-)
proof (induction bs arbitrary: a s)
  case Nil
  then show ?case by (simp add: same_tables_def)
next
  case (Cons v bs)
  obtain b i where bi: "place s a = Some (b, i)" using Cons.prems by auto
  define t where "t = writebyte dev a v s"
  have t: "same_tables t s" "mem t = (mem s)(b := (mem s b)(i := v))"
    using writebyte_quiet [OF assms(1) Cons.prems(1) assms(2) bi] by (simp_all add: t_def)
  then have pl: "place t x = place s x" "read_mapping x t = read_mapping x s" for x using same_tables_place by blast+
  then have plf: "place t = place s" by blast
  have "mapped_bus t" using t(1) Cons.prems(1) by (simp add: same_tables_def)
  then obtain s' where s': "set_mem_loop dev (length bs) (concat (map hex_digits bs) @ rest) (a + 1) t = Some s'" "same_tables s' t"
      "map (\<lambda>x. readbyte_internal x s') (addresses (a + 1) (length bs)) = bs"
      "\<forall>b i. Some (b, i) \<notin> set (map (place t) (addresses (a + 1) (length bs))) \<longrightarrow> mem s' b i = mem t b i"
    using Cons.IH [of t "a + 1"] Cons.prems by (auto simp: plf)
  have d: "Some (b, i) \<notin> set (map (place t) (addresses (a + 1) (length bs)))" using Cons.prems(3) bi by (simp add: plf)
  then have "mem s' b i = v" using s'(4) t(2) by simp
  moreover have "phys (read_mapping a s') a = Some (b, i)"
    using bi same_tables_place [OF s'(2), of a] pl(2) by (simp add: place_def split: if_splits)
  ultimately have "readbyte_internal a s' = v" by (simp add: readbyte_internal_def deref_phys)
  moreover have "mem s' c j = mem s c j" if "Some (c, j) \<notin> set (map (place s) (addresses a (length (v # bs))))" for c j
    using that s'(4) t(2) bi by (auto simp: plf)
  moreover have "same_tables s' s" using s'(2) t(1) by (simp add: same_tables_def)
  moreover have "set_mem_loop dev (length (v # bs)) (concat (map hex_digits (v # bs)) @ rest) a s = Some s'"
    using s'(1) by (simp add: hex_digits_def hex2byte_digits t_def)
  ultimately show ?case using s'(3) by (intro exI [of _ s'] conjI allI impI) simp_all
qed

lemma get_mem_reads:
  assumes "quiet_debugger dev" "mapped_bus s"
  shows "\<exists>t. get_mem_loop dev n a s = (concat (map hex_digits (map (\<lambda>x. readbyte_internal x s) (addresses a n))), s\<lparr>tstates := t\<rparr>)"
  using assms(2)
proof (induction n arbitrary: a s)
  case 0
  have "s = s\<lparr>tstates := tstates s\<rparr>" by simp
  then show ?case unfolding get_mem_loop.simps addresses.simps list.map concat.simps by blast
next
  case (Suc n)
  define u where "u = access_time (read_mapping a s) s"
  have u: "\<exists>t. u = s\<lparr>tstates := t\<rparr>" by (auto simp: u_def access_time_def Let_def)
  have i: "readbyte_internal x (s\<lparr>tstates := t\<rparr>) = readbyte_internal x s" for x t by (simp add: readbyte_internal_def read_mapping_def)
  have "mapped_bus u" using Suc.prems u by (auto simp: mapped_bus_def)
  from Suc.IH [OF this, of "a + 1"] show ?case
    using readbyte_quiet [OF assms(1) Suc.prems, of a] u i by (auto simp flip: u_def)
qed

text \<open>C39. Memory that a client writes with \<open>M\<close> is what it reads back with \<open>m\<close>: when each address of the block is one writable place
  and no two are the same place, the answer is the digits sent, all other memory and the paging are as they were, and both requests leave
  the machine's time where it was, the second one its whole state.\<close>

theorem gdb_memory_roundtrip:
  assumes "quiet_debugger dev" "display_hook_ok dev" "mapped_bus s" "length bs * 4 \<le> 0x20000"
    "\<forall>x\<in>set (addresses (of_nat maddr) (length bs)). place s x \<noteq> None" "distinct (map (place s) (addresses (of_nat maddr) (length bs)))"
  shows "\<exists>s'. action_set_mem dev maddr (length bs) (concat (map hex_digits bs) @ rest) s = Some (reply_text ''OK'', s') \<and>
    packet_m dev maddr (length bs) s' = (concat (map hex_digits bs), s') \<and> tstates s' = tstates s \<and> same_tables s' s \<and>
    (\<forall>b i. Some (b, i) \<notin> set (map (place s) (addresses (of_nat maddr) (length bs))) \<longrightarrow> mem s' b i = mem s b i)"
proof -
  obtain u where u: "set_mem_loop dev (length bs) (concat (map hex_digits bs) @ rest) (of_nat maddr) s = Some u" "same_tables u s"
      "map (\<lambda>x. readbyte_internal x u) (addresses (of_nat maddr) (length bs)) = bs"
      "\<forall>b i. Some (b, i) \<notin> set (map (place s) (addresses (of_nat maddr) (length bs))) \<longrightarrow> mem u b i = mem s b i"
    using set_mem_stores [OF assms(1-3,5,6)] by blast
  define s' where "s' = u\<lparr>tstates := tstates s\<rparr>"
  have st: "same_tables s' s" using u(2) by (simp add: s'_def same_tables_def mapped_bus_def)
  then have "mapped_bus s'" using assms(3) by (simp add: same_tables_def)
  then obtain t where t: "get_mem_loop dev (length bs) (of_nat maddr) s' =
      (concat (map hex_digits (map (\<lambda>x. readbyte_internal x s') (addresses (of_nat maddr) (length bs)))), s'\<lparr>tstates := t\<rparr>)"
    using get_mem_reads [OF assms(1)] by blast
  have "readbyte_internal x s' = readbyte_internal x u" for x by (simp add: s'_def readbyte_internal_def read_mapping_def)
  then have "get_mem_loop dev (length bs) (of_nat maddr) s' = (concat (map hex_digits bs), s'\<lparr>tstates := t\<rparr>)" using t u(3) by simp
  then have "packet_m dev maddr (length bs) s' = (concat (map hex_digits bs), s')"
    using assms(4) c_string_digits [of bs "[]"] by (simp add: packet_m_def action_get_mem_def)
  then show ?thesis using u(1,4) st by (simp add: action_set_mem_def s'_def)
qed


lemma page_of_bank: "(16 + n mod 8) div 8 = 2" "(16 + n mod 8) mod 8 = (n :: nat) mod 8"
  by presburger+

lemma mapped_ram:
  "read_mapping a (memory_map_16k 0x8000 (memory_map_ram blank_memory) 2 blank_memory) = (if unat a div 0x4000 = 2 then init_ram_page 2 (unat a div 2048 mod 8) blank_page else read_mapping a blank_memory)"
  "write_mapping a (memory_map_16k 0x8000 (memory_map_ram blank_memory) 2 blank_memory) = (if unat a div 0x4000 = 2 then init_ram_page 2 (unat a div 2048 mod 8) blank_page else write_mapping a blank_memory)"
  by (simp_all add: map_16k_reads blank_memory_facts page_of_bank)

lemma demo_bus:
  "quiet_debugger no_devices" "mapped_bus (memory_map_16k 0x8000 (memory_map_ram blank_memory) 2 blank_memory)"
proof -
  have "plain_bus (memory_map_16k 0x8000 (memory_map_ram blank_memory) 2 blank_memory)"
    using blank_memory_facts(3) aligned_slot(3) [of "0x8000"] by (simp add: memory_map_16k_def r16k.map_law plain_bus_def)
  then show "mapped_bus (memory_map_16k 0x8000 (memory_map_ram blank_memory) 2 blank_memory)" by (simp add: plain_bus_def mapped_bus_def)
qed (simp add: quiet_debugger_def no_devices_def)

lemma demo_place:
  "unat a div 0x4000 = 2 \<Longrightarrow> place (memory_map_16k 0x8000 (memory_map_ram blank_memory) 2 blank_memory) a =
     Some (RAM 2, unat a div 2048 mod 8 * 2048 + page_offset a)"
  by (simp add: place_def writes_through_def mapped_ram phys_def init_ram_page_def)

lemma gdb_memory_roundtrip_witness:
  "\<exists>s'. action_set_mem no_devices 0x87ff (Suc (Suc 0)) (concat (map hex_digits [0x3e, 0xc9]) @ [0])
      (memory_map_16k 0x8000 (memory_map_ram blank_memory) 2 blank_memory) = Some (reply_text ''OK'', s') \<and>
    packet_m no_devices 0x87ff (Suc (Suc 0)) s' = (concat (map hex_digits [0x3e, 0xc9]), s')"
  using gdb_memory_roundtrip [OF demo_bus(1) no_devices_ok demo_bus(2), of "[0x3e, 0xc9]" "0x87ff" "[0]"]
  by (simp add: demo_place page_offset_def) blast

text \<open>What \<open>hex2mem\<close> makes of a raw byte and the zero byte behind it.\<close>

lemma raw_byte_decoded: "hex2byte b 0 = b \<longleftrightarrow> b = 0xef"
proof -
  have "list_all (\<lambda>n. (hex2byte (of_nat n) 0 = of_nat n) = (n = 239)) [0..<256]" by code_simp
  moreover have "unat b < 2 ^ LENGTH(8)" by (rule unsigned_less)
  then have "unat b \<in> set [0..<256]" by simp
  ultimately have "(hex2byte (of_nat (unat b)) 0 = of_nat (unat b)) = (unat b = 239)" unfolding list_all_iff by blast
  moreover have "unat b = 239 \<longleftrightarrow> b = 239" by (auto dest: arg_cong [of _ _ "of_nat :: nat \<Rightarrow> u8"])
  ultimately show ?thesis by simp
qed

text \<open>The binary write \<open>X\<close> does not store the data: the bytes, unescaped, go to the routine that decodes hexadecimal digits, so that
  one byte written to a place of memory and accepted is not the byte that is then read there, whatever it is but 0xef.\<close>

lemma gdb_binary_write_decodes_hex:
  assumes "quiet_debugger dev" "display_hook_ok dev" "mapped_bus s" "place s (of_nat maddr) \<noteq> None" "b \<noteq> ascii CHR ''}''"
  shows "\<exists>s'. packet_X dev maddr 1 (b # 0 # rest) 1 s = Some (reply_text ''OK'', s') \<and>
    (readbyte_internal (of_nat maddr) s' = b \<longleftrightarrow> b = 0xef)"
proof -
  obtain c i where ci: "place s (of_nat maddr) = Some (c, i)" using assms(4) by auto
  define t where "t = writebyte dev (of_nat maddr) (hex2byte b 0) s"
  have t: "same_tables t s" "mem t = (mem s)(c := (mem s c)(i := hex2byte b 0))"
    using writebyte_quiet [OF assms(1,3,2) ci] by (simp_all add: t_def)
  have "phys (read_mapping (of_nat maddr) t) (of_nat maddr) = Some (c, i)"
    using ci same_tables_place [OF t(1), of "of_nat maddr"] by (simp add: place_def split: if_splits)
  then have "readbyte_internal (of_nat maddr) (t\<lparr>tstates := tstates s\<rparr>) = hex2byte b 0"
    by (simp add: readbyte_internal_def read_mapping_def deref_phys t(2))
  moreover have "packet_X dev maddr 1 (b # 0 # rest) 1 s = Some (reply_text ''OK'', t\<lparr>tstates := tstates s\<rparr>)"
    using assms(5) by (simp add: packet_X_def action_set_mem_def t_def)
  ultimately show ?thesis using raw_byte_decoded by simp
qed

lemma gdb_binary_write_decodes_hex_witness:
  "\<exists>s'. packet_X no_devices 0x8000 1 (0x3e # 0 # []) 1 (memory_map_16k 0x8000 (memory_map_ram blank_memory) 2 blank_memory) =
      Some (reply_text ''OK'', s') \<and> readbyte_internal 0x8000 s' \<noteq> 0x3e"
  using gdb_binary_write_decodes_hex [OF demo_bus(1) no_devices_ok demo_bus(2), of "0x8000" "0x3e" "[]"]
  by (simp add: demo_place ascii_def)

end
