(* ===== verification/Rectangles.thy ===== *)
theory Rectangles
  imports Prelude
begin

text \<open>
  The rectangles of the screen to be drawn again, \<open>rectangle.c\<close>, and their collection from the bits of the dirty cells of
  each line, \<open>update_dirty_rects\<close> of \<open>display_dirty.c\<close>. The growing arrays are lists.
\<close>

section \<open>The lists of rectangles\<close>

record rectangle =
  rect_x :: int
  rect_y :: int
  rect_w :: int
  rect_h :: int

text \<open>Those touched on the line before, and the others.\<close>

record rectangles =
  rectangle_active :: "rectangle list"
  rectangle_inactive :: "rectangle list"

fun extend_rectangle :: "int \<Rightarrow> int \<Rightarrow> rectangle list \<Rightarrow> rectangle list option" where
  "extend_rectangle x w [] = None"
| "extend_rectangle x w (r # rs) =
    (if rect_x r = x \<and> rect_w r = w then Some (r\<lparr>rect_h := rect_h r + 1\<rparr> # rs) else map_option ((#) r) (extend_rectangle x w rs))"

definition rectangle_add :: "int \<Rightarrow> int \<Rightarrow> int \<Rightarrow> rectangles \<Rightarrow> rectangles" where
  "rectangle_add y x w R = R\<lparr>rectangle_active :=
     (case extend_rectangle x w (rectangle_active R) of
        Some rs \<Rightarrow> rs | None \<Rightarrow> rectangle_active R @ [\<lparr>rect_x = x, rect_y = y, rect_w = w, rect_h = 1\<rparr>])\<rparr>"

text \<open>Two intervals, each a start and a length, overlap or touch.\<close>

definition overlap_or_touch :: "int \<Rightarrow> int \<Rightarrow> int \<Rightarrow> int \<Rightarrow> bool" where
  "overlap_or_touch a m b n \<longleftrightarrow> (a \<le> b \<and> b < a + m + 1) \<or> (b < a \<and> a < b + n + 1)"

text \<open>\<open>None\<close> when the source was merged with none.\<close>

fun compare_and_merge_rectangles :: "rectangle \<Rightarrow> rectangle list \<Rightarrow> rectangle list option" where
  "compare_and_merge_rectangles src [] = None"
| "compare_and_merge_rectangles src (z # zs) =
    (if rect_x z = rect_x src \<and> rect_w z = rect_w src \<and> rect_y z = rect_y src \<and> rect_h z = rect_h src then Some (z # zs)
     else if rect_x z = rect_x src \<and> rect_w z = rect_w src \<and> overlap_or_touch (rect_y z) (rect_h z) (rect_y src) (rect_h src)
     then Some (z\<lparr>rect_h := max (rect_y z + rect_h z) (rect_y src + rect_h src) - min (rect_y z) (rect_y src),
                  rect_y := min (rect_y z) (rect_y src)\<rparr> # zs)
     else if rect_y z = rect_y src \<and> rect_h z = rect_h src \<and> overlap_or_touch (rect_x z) (rect_w z) (rect_x src) (rect_w src)
     then Some (z\<lparr>rect_w := max (rect_x z + rect_w z) (rect_x src + rect_w src) - min (rect_x z) (rect_x src),
                  rect_x := min (rect_x z) (rect_x src)\<rparr> # zs)
     else map_option ((#) z) (compare_and_merge_rectangles src zs))"

text \<open>The loop over the active list: what is left of it, a height of 0 for a rectangle that is done, and the inactive list.\<close>

fun end_line_loop :: "int \<Rightarrow> int \<Rightarrow> rectangle list \<Rightarrow> rectangle list \<Rightarrow> rectangle list \<times> rectangle list" where
  "end_line_loop frame_rate y [] inactive = ([], inactive)"
| "end_line_loop frame_rate y (r # rs) inactive =
    (if rect_y r + rect_h r = y + 1 then
       (case end_line_loop frame_rate y rs inactive of (rs', inactive') \<Rightarrow> (r # rs', inactive'))
     else
       (case end_line_loop frame_rate y rs
           (case (if frame_rate > 1 then compare_and_merge_rectangles r inactive else None) of
              Some merged \<Rightarrow> merged | None \<Rightarrow> inactive @ [r]) of
         (rs', inactive') \<Rightarrow> (r\<lparr>rect_h := 0\<rparr> # rs', inactive')))"

definition rectangle_end_line :: "int \<Rightarrow> int \<Rightarrow> rectangles \<Rightarrow> rectangles" where
  "rectangle_end_line frame_rate y R =
    (case end_line_loop frame_rate y (rectangle_active R) (rectangle_inactive R) of
       (rs, inactive) \<Rightarrow> \<lparr>rectangle_active = filter (\<lambda>r. rect_h r \<noteq> 0) rs, rectangle_inactive = inactive\<rparr>)"

section \<open>From the dirty bits to rectangles\<close>

type_synonym u64 = "64 word"

text \<open>\<open>__builtin_ctzll\<close>; it is not called with 0.\<close>

definition ctz :: "'a::len word \<Rightarrow> nat" where
  "ctz v = length (takeWhile (\<lambda>n. \<not> bit v n) [0..<LENGTH('a)])"

lemma ctz_less: "\<not> bit v n" if "n < ctz v" for v :: "'a::len word"
proof -
  let ?t = "takeWhile (\<lambda>n. \<not> bit v n) [0..<LENGTH('a)]"
  have n: "n < length ?t" using that by (simp add: ctz_def)
  moreover have "length ?t \<le> LENGTH('a)" using length_takeWhile_le [of _ "[0..<LENGTH('a)]"] by simp
  ultimately have "?t ! n = n" by (simp add: takeWhile_nth)
  then show ?thesis using nth_mem [OF n] set_takeWhileD by metis
qed

lemma ctz_le: "ctz (v :: 'a::len word) \<le> LENGTH('a)"
  using length_takeWhile_le [of _ "[0..<LENGTH('a)]"] by (simp add: ctz_def)

lemma ctz_0 [simp]: "ctz (0 :: 'a::len word) = LENGTH('a)"
  by (simp add: ctz_def takeWhile_eq_all_conv [THEN iffD2])

lemma ctz_bit: "ctz v < LENGTH('a) \<and> bit v (ctz v)" if "v \<noteq> 0" for v :: "'a::len word"
proof -
  obtain n where "bit v n" using \<open>v \<noteq> 0\<close> by (auto simp: bit_eq_iff)
  then have n: "n < LENGTH('a)" "bit v n" by (simp_all add: bit_imp_le_length)
  have "ctz v < LENGTH('a)" using n ctz_less [of n v] by (meson linorder_not_less order_less_le_trans)
  moreover from this have "bit v (ctz v)"
    using nth_length_takeWhile [of "\<lambda>n. \<not> bit v n" "[0..<LENGTH('a)]"] by (simp add: ctz_def)
  ultimately show ?thesis ..
qed

lemma drop_bit_smaller: "0 < n \<Longrightarrow> v \<noteq> 0 \<Longrightarrow> unat (drop_bit n v) < unat (v :: 'a::len word)"
proof -
  assume "0 < n" "v \<noteq> 0"
  then have "0 < unat v" "(1 :: nat) < 2 ^ n" by (simp_all add: unat_gt_0 one_less_power del: One_nat_def)
  then have "unat v div 2 ^ n < unat v" by (simp add: div_less_iff_less_mult)
  then show ?thesis unfolding unat_drop_bit_eq by (simp add: drop_bit_eq_div)
qed

function dirty_line :: "int \<Rightarrow> u64 \<Rightarrow> int \<Rightarrow> rectangles \<Rightarrow> rectangles" where
  "dirty_line y dirty x R =
    (if dirty = 0 then R
     else let skip = ctz dirty; run = ctz (NOT (drop_bit skip dirty))
          in dirty_line y (drop_bit run (drop_bit skip dirty)) (x + int skip + int run) (rectangle_add y (x + int skip) (int run) R))"
  by pat_completeness auto

lemma run_positive: "dirty \<noteq> 0 \<Longrightarrow> 0 < ctz (NOT (drop_bit (ctz dirty) dirty))"
  using ctz_bit [of dirty] ctz_bit [of "NOT (drop_bit (ctz dirty) dirty)"]
  by (cases "NOT (drop_bit (ctz dirty) dirty) = 0") (auto simp: bit_simps intro!: Nat.gr0I)

termination dirty_line
proof (relation "measure (\<lambda>(y, dirty, x, R). unat dirty)", goal_cases)
  case (2 y dirty x R skip run)
  then show ?case using drop_bit_smaller [of "run + skip" dirty] run_positive [of dirty] by (simp add: drop_bit_drop_bit)
qed simp

declare dirty_line.simps [simp del]

text \<open>\<open>dirty y\<close> is \<open>display_is_dirty[ y ]\<close>; the rows are left clean.\<close>

definition update_dirty_rects :: "int \<Rightarrow> (nat \<Rightarrow> u64) \<Rightarrow> rectangles \<Rightarrow> (nat \<Rightarrow> u64) \<times> rectangles" where
  "update_dirty_rects frame_rate dirty R =
    (let R = fold (\<lambda>y R. rectangle_end_line frame_rate (int y) (dirty_line (int y) (dirty y) 0 R)) [0..<240] R
     in (\<lambda>y. if y < 240 then 0 else dirty y, rectangle_end_line frame_rate 240 R))"


section \<open>What the rectangles cover\<close>

definition span :: "int \<Rightarrow> int \<Rightarrow> int set" where "span a n = {a..<a + n}"

definition rect_cells :: "rectangle \<Rightarrow> (int \<times> int) set" where
  "rect_cells r = span (rect_x r) (rect_w r) \<times> span (rect_y r) (rect_h r)"

definition region :: "rectangle list \<Rightarrow> (int \<times> int) set" where
  "region rs = (\<Union>r\<in>set rs. rect_cells r)"

lemma region_simps [simp]: "region [] = {}" "region (r # rs) = rect_cells r \<union> region rs" "region (rs @ rs') = region rs \<union> region rs'"
  by (auto simp: region_def)

lemma span_merge: "overlap_or_touch a m b n \<Longrightarrow> 0 \<le> m \<Longrightarrow> 0 \<le> n \<Longrightarrow> span (min a b) (max (a + m) (b + n) - min a b) = span a m \<union> span b n"
  by (auto simp: overlap_or_touch_def span_def)

text \<open>Every rectangle has a positive size.\<close>

definition solid :: "rectangle list \<Rightarrow> bool" where
  "solid rs \<longleftrightarrow> (\<forall>r\<in>set rs. 0 < rect_w r \<and> 0 < rect_h r)"

lemma solid_simps [simp]: "solid []" "solid (r # rs) \<longleftrightarrow> 0 < rect_w r \<and> 0 < rect_h r \<and> solid rs" "solid (rs @ rs') \<longleftrightarrow> solid rs \<and> solid rs'"
  by (auto simp: solid_def)

lemma merge_region:
  "compare_and_merge_rectangles r zs = Some zs' \<Longrightarrow> solid zs \<Longrightarrow> 0 < rect_w r \<Longrightarrow> 0 < rect_h r \<Longrightarrow>
     region zs' = region zs \<union> rect_cells r \<and> solid zs'"
proof (induction zs arbitrary: zs')
  case (Cons z zs)
  consider (same) "rect_x z = rect_x r" "rect_w z = rect_w r" "rect_y z = rect_y r" "rect_h z = rect_h r"
    | (y) "rect_x z = rect_x r" "rect_w z = rect_w r" "overlap_or_touch (rect_y z) (rect_h z) (rect_y r) (rect_h r)"
        "zs' = z\<lparr>rect_h := max (rect_y z + rect_h z) (rect_y r + rect_h r) - min (rect_y z) (rect_y r), rect_y := min (rect_y z) (rect_y r)\<rparr> # zs"
    | (x) "rect_y z = rect_y r" "rect_h z = rect_h r" "overlap_or_touch (rect_x z) (rect_w z) (rect_x r) (rect_w r)"
        "zs' = z\<lparr>rect_w := max (rect_x z + rect_w z) (rect_x r + rect_w r) - min (rect_x z) (rect_x r), rect_x := min (rect_x z) (rect_x r)\<rparr> # zs"
    | (other) us where "compare_and_merge_rectangles r zs = Some us" "zs' = z # us"
    using Cons.prems(1) by (auto split: if_splits)
  then show ?case
  proof cases
    case same
    then show ?thesis using Cons.prems by (auto simp: rect_cells_def)
  next
    case y
    then show ?thesis using Cons.prems span_merge [OF y(3)] by (auto simp: rect_cells_def)
  next
    case x
    then show ?thesis using Cons.prems span_merge [OF x(3)] by (auto simp: rect_cells_def)
  next
    case other
    then show ?thesis using Cons.IH [OF other(1)] Cons.prems by auto
  qed
qed simp

lemma end_line_loop_region:
  "end_line_loop frame_rate y rs inactive = (rs', inactive') \<Longrightarrow> solid rs \<Longrightarrow> solid inactive \<Longrightarrow>
    region (filter (\<lambda>r. rect_h r \<noteq> 0) rs') \<union> region inactive' = region rs \<union> region inactive \<and> solid inactive' \<and>
    filter (\<lambda>r. rect_h r \<noteq> 0) rs' = filter (\<lambda>r. rect_y r + rect_h r = y + 1) rs"
proof (induction frame_rate y rs inactive arbitrary: rs' inactive' rule: end_line_loop.induct)
  case (2 frame_rate y r rs inactive)
  show ?case
  proof (cases "rect_y r + rect_h r = y + 1")
    case True
    obtain us qs where u: "end_line_loop frame_rate y rs inactive = (us, qs)" by fastforce
    have e: "rs' = r # us" "inactive' = qs" using "2.prems"(1) True u by simp_all
    have "solid rs" "rect_h r \<noteq> 0" using "2.prems"(2) by auto
    then show ?thesis using "2.IH"(1) [OF True u _ "2.prems"(3)] True by (simp add: e Un_assoc) metis
  next
    case False
    define i where "i = (case (if frame_rate > 1 then compare_and_merge_rectangles r inactive else None) of Some merged \<Rightarrow> merged | None \<Rightarrow> inactive @ [r])"
    have i: "region i = region inactive \<union> rect_cells r" "solid i"
      using merge_region [of r inactive] "2.prems" by (auto simp: i_def split: option.split if_split)
    obtain us qs where u: "end_line_loop frame_rate y rs i = (us, qs)" by fastforce
    note ih = "2.IH"(2) [OF False, folded i_def, OF u]
    have "rs' = r\<lparr>rect_h := 0\<rparr> # us" "inactive' = qs" using "2.prems" False u by (auto simp flip: i_def)
    then show ?thesis using ih i "2.prems" False by auto
  qed
qed simp

lemma rectangle_end_line_region:
  assumes "solid (rectangle_active R)" "solid (rectangle_inactive R)"
  shows "rectangle_active (rectangle_end_line frame_rate y R) = filter (\<lambda>r. rect_y r + rect_h r = y + 1) (rectangle_active R)"
    "solid (rectangle_inactive (rectangle_end_line frame_rate y R))"
    "region (rectangle_active (rectangle_end_line frame_rate y R)) \<union> region (rectangle_inactive (rectangle_end_line frame_rate y R)) =
      region (rectangle_active R) \<union> region (rectangle_inactive R)"
proof -
  obtain rs qs where e: "end_line_loop frame_rate y (rectangle_active R) (rectangle_inactive R) = (rs, qs)" by fastforce
  have l: "filter (\<lambda>r. rect_h r \<noteq> 0) rs = filter (\<lambda>r. rect_y r + rect_h r = y + 1) (rectangle_active R)" "solid qs"
    "region (filter (\<lambda>r. rect_y r + rect_h r = y + 1) (rectangle_active R)) \<union> region qs = region (rectangle_active R) \<union> region (rectangle_inactive R)"
    using end_line_loop_region [OF e assms] by metis+
  show "rectangle_active (rectangle_end_line frame_rate y R) = filter (\<lambda>r. rect_y r + rect_h r = y + 1) (rectangle_active R)"
    "solid (rectangle_inactive (rectangle_end_line frame_rate y R))"
    "region (rectangle_active (rectangle_end_line frame_rate y R)) \<union> region (rectangle_inactive (rectangle_end_line frame_rate y R)) =
      region (rectangle_active R) \<union> region (rectangle_inactive R)"
    using l by (simp_all add: rectangle_end_line_def e)
qed

text \<open>While a line is collected up to column \<open>x\<close>, a rectangle ends on the line before, or on this one with columns already seen.\<close>

definition growing :: "int \<Rightarrow> int \<Rightarrow> rectangle list \<Rightarrow> bool" where
  "growing y x rs \<longleftrightarrow> solid rs \<and> (\<forall>r\<in>set rs. rect_y r + rect_h r = y \<or> (rect_y r + rect_h r = y + 1 \<and> rect_x r < x))"

lemma growing_Cons [simp]: "growing y x (r # rs) \<longleftrightarrow>
    0 < rect_w r \<and> 0 < rect_h r \<and> (rect_y r + rect_h r = y \<or> (rect_y r + rect_h r = y + 1 \<and> rect_x r < x)) \<and> growing y x rs"
  by (auto simp: growing_def)

lemma growing_mono: "growing y x rs \<Longrightarrow> x \<le> x' \<Longrightarrow> growing y x' rs"
  by (auto simp: growing_def)

lemma extend_region:
  "extend_rectangle x w rs = Some rs' \<Longrightarrow> growing y x rs \<Longrightarrow> 0 < w \<Longrightarrow>
     region rs' = region rs \<union> span x w \<times> {y} \<and> growing y (x + 1) rs'"
proof (induction rs arbitrary: rs')
  case (Cons r rs)
  show ?case
  proof (cases "rect_x r = x \<and> rect_w r = w")
    case True
    then have "rect_y r + rect_h r = y" "0 < rect_h r" using Cons.prems(2) by auto
    then have "span (rect_y r) (rect_h r + 1) = span (rect_y r) (rect_h r) \<union> {y}" by (auto simp: span_def)
    moreover have "rs' = r\<lparr>rect_h := rect_h r + 1\<rparr> # rs" using True Cons.prems(1) by simp
    moreover have "growing y (x + 1) rs" using Cons.prems(2) growing_mono [of y x rs "x + 1"] by simp
    ultimately show ?thesis using True Cons.prems(2) \<open>rect_y r + rect_h r = y\<close> \<open>0 < rect_h r\<close>
      by (simp add: rect_cells_def) blast
  next
    case False
    then obtain us where "extend_rectangle x w rs = Some us" "rs' = r # us" using Cons.prems(1) by auto
    then show ?thesis using Cons.IH [of us] Cons.prems by auto
  qed
qed simp

lemma rectangle_add_region:
  assumes "growing y x (rectangle_active R)" "0 < w"
  shows "region (rectangle_active (rectangle_add y x w R)) = region (rectangle_active R) \<union> span x w \<times> {y}"
    "growing y (x + 1) (rectangle_active (rectangle_add y x w R))"
    "rectangle_inactive (rectangle_add y x w R) = rectangle_inactive R"
proof -
  have "growing y (x + 1) (rectangle_active R @ [\<lparr>rect_x = x, rect_y = y, rect_w = w, rect_h = 1\<rparr>])"
    using growing_mono [OF assms(1), of "x + 1"] assms(2) by (auto simp: growing_def)
  moreover have "span y 1 = {y}" by (auto simp: span_def)
  ultimately show "region (rectangle_active (rectangle_add y x w R)) = region (rectangle_active R) \<union> span x w \<times> {y}"
    "growing y (x + 1) (rectangle_active (rectangle_add y x w R))"
    "rectangle_inactive (rectangle_add y x w R) = rectangle_inactive R"
    using extend_region [OF _ assms] by (auto simp: rectangle_add_def rect_cells_def split: option.split)
qed


lemma dirty_bits:
  fixes dirty :: u64
  assumes "dirty \<noteq> 0"
  shows "{n. bit dirty n} = {ctz dirty..<ctz dirty + ctz (NOT (drop_bit (ctz dirty) dirty))} \<union>
    (+) (ctz dirty + ctz (NOT (drop_bit (ctz dirty) dirty))) ` {n. bit (drop_bit (ctz (NOT (drop_bit (ctz dirty) dirty))) (drop_bit (ctz dirty) dirty)) n}"
    (is "?A = {?s..<?s + ?r} \<union> ?B")
proof (rule set_eqI)
  fix n
  have "?r \<le> LENGTH(64)" by (rule ctz_le)
  then have run: "bit dirty n" if "?s \<le> n" "n < ?s + ?r"
    using that ctz_less [of "n - ?s" "NOT (drop_bit ?s dirty)"] by (auto simp: bit_simps)
  consider "n < ?s" | "?s \<le> n" "n < ?s + ?r" | m where "n = ?s + ?r + m" using nat_le_iff_add [of "?s + ?r" n] by fastforce
  then show "n \<in> ?A \<longleftrightarrow> n \<in> {?s..<?s + ?r} \<union> ?B"
    using ctz_less [of n dirty] run by cases (auto simp: bit_simps ac_simps)
qed

lemma dirty_line_region:
  "growing y x (rectangle_active R) \<Longrightarrow>
    region (rectangle_active (dirty_line y dirty x R)) = region (rectangle_active R) \<union> (\<lambda>n. (x + int n, y)) ` {n. bit dirty n} \<and>
    (\<exists>x'. growing y x' (rectangle_active (dirty_line y dirty x R))) \<and>
    rectangle_inactive (dirty_line y dirty x R) = rectangle_inactive R"
proof (induction y dirty x R rule: dirty_line.induct)
  case (1 y dirty x R)
  show ?case
  proof (cases "dirty = 0")
    case True
    then show ?thesis using "1.prems" dirty_line.simps [of y 0 x R] by auto
  next
    case False
    define skip where "skip = ctz dirty"
    define run where "run = ctz (NOT (drop_bit skip dirty))"
    define S where "S = rectangle_add y (x + int skip) (int run) R"
    have r: "0 < run" using run_positive [OF False] by (simp add: run_def skip_def)
    have d: "dirty_line y dirty x R = dirty_line y (drop_bit run (drop_bit skip dirty)) (x + int skip + int run) S"
      using False by (subst dirty_line.simps) (simp add: Let_def skip_def run_def S_def)
    note add = rectangle_add_region [of y "x + int skip" R "int run", folded S_def]
    have g: "growing y (x + int skip) (rectangle_active R)" using growing_mono [OF "1.prems"] by simp
    have "growing y (x + int skip + int run) (rectangle_active S)" using growing_mono [OF add(2)] g r by simp
    note ih = "1.IH" [OF False skip_def run_def, folded S_def, OF this]
    have "span (x + int skip) (int run) = (\<lambda>n. x + int n) ` {skip..<skip + run}"
    proof -
      have "k \<in> (\<lambda>n. x + int n) ` {skip..<skip + run}" if "k \<in> span (x + int skip) (int run)" for k
        using that by (intro image_eqI [of _ _ "nat (k - x)"]) (auto simp: span_def)
      then show ?thesis by (auto simp: span_def)
    qed
    then have "span (x + int skip) (int run) \<times> {y} = (\<lambda>n. (x + int n, y)) ` {skip..<skip + run}" by auto
    moreover have "{n. bit dirty n} = {skip..<skip + run} \<union> (+) (skip + run) ` {n. bit (drop_bit run (drop_bit skip dirty)) n}"
      using dirty_bits [OF False] by (simp add: skip_def run_def)
    then have "(\<lambda>n. (x + int n, y)) ` {n. bit dirty n} = (\<lambda>n. (x + int n, y)) ` {skip..<skip + run} \<union>
        (\<lambda>n. (x + int skip + int run + int n, y)) ` {n. bit (drop_bit run (drop_bit skip dirty)) n}"
      by (simp add: image_Un image_image add.assoc)
    ultimately show ?thesis using ih add g r unfolding d by (simp add: Un_assoc)
  qed
qed

lemma collected_lines:
  assumes "rectangle_active R = []" "solid (rectangle_inactive R)"
    and S: "S = fold (\<lambda>y R. rectangle_end_line frame_rate (int y) (dirty_line (int y) (dirty y) 0 R)) [0..<m] R"
  shows "solid (rectangle_active S) \<and> (\<forall>r\<in>set (rectangle_active S). rect_y r + rect_h r = int m) \<and> solid (rectangle_inactive S) \<and>
    region (rectangle_active S) \<union> region (rectangle_inactive S) =
      region (rectangle_inactive R) \<union> {(x, y). \<exists>a b. x = int a \<and> y = int b \<and> b < m \<and> bit (dirty b) a}"
  unfolding S
proof (induction m)
  case 0
  then show ?case using assms by simp
next
  case (Suc m)
  define T where "T = fold (\<lambda>y R. rectangle_end_line frame_rate (int y) (dirty_line (int y) (dirty y) 0 R)) [0..<m] R"
  define U where "U = dirty_line (int m) (dirty m) 0 T"
  have T: "growing (int m) 0 (rectangle_active T)" "solid (rectangle_inactive T)"
      "region (rectangle_active T) \<union> region (rectangle_inactive T) =
        region (rectangle_inactive R) \<union> {(x, y). \<exists>a b. x = int a \<and> y = int b \<and> b < m \<and> bit (dirty b) a}"
    using Suc.IH by (simp_all add: T_def growing_def)
  note l = dirty_line_region [OF T(1), of "dirty m", folded U_def]
  then obtain x' where g: "growing (int m) x' (rectangle_active U)" by blast
  have s: "solid (rectangle_active U)" "solid (rectangle_inactive U)" using g T(2) l by (simp_all add: growing_def)
  note e = rectangle_end_line_region [OF s, of frame_rate "int m"]
  have "solid (rectangle_active (rectangle_end_line frame_rate (int m) U)) \<and>
      (\<forall>r\<in>set (rectangle_active (rectangle_end_line frame_rate (int m) U)). rect_y r + rect_h r = int (Suc m))"
    using s(1) by (auto simp: e(1) solid_def)
  moreover have "region (rectangle_active U) \<union> region (rectangle_inactive U) =
      region (rectangle_inactive R) \<union> {(x, y). \<exists>a b. x = int a \<and> y = int b \<and> b < Suc m \<and> bit (dirty b) a}"
    using l T(3) by (auto simp: less_Suc_eq)
  moreover have "fold (\<lambda>y R. rectangle_end_line frame_rate (int y) (dirty_line (int y) (dirty y) 0 R)) [0..<Suc m] R =
      rectangle_end_line frame_rate (int m) U" by (simp add: T_def U_def)
  ultimately show ?case using e(2,3) by (simp only:) blast
qed

text \<open>C40. At the end of a frame the rectangles to draw cover the cells marked dirty and those of the rectangles that were still waiting, and
  no other cell, with any frame skip: merging rectangles loses and adds nothing. No cell is left dirty and no rectangle active.\<close>

theorem rectangles_cover_dirty_cells:
  assumes "rectangle_active R = []" "solid (rectangle_inactive R)" "update_dirty_rects frame_rate dirty R = (dirty', R')"
  shows "region (rectangle_inactive R') = region (rectangle_inactive R) \<union> {(x, y). \<exists>a b. x = int a \<and> y = int b \<and> b < 240 \<and> bit (dirty b) a} \<and>
    rectangle_active R' = [] \<and> solid (rectangle_inactive R') \<and> (\<forall>y. y < 240 \<longrightarrow> dirty' y = 0)"
proof -
  define S where "S = fold (\<lambda>y R. rectangle_end_line frame_rate (int y) (dirty_line (int y) (dirty y) 0 R)) [0..<240] R"
  note c = collected_lines [OF assms(1,2) S_def]
  have s: "solid (rectangle_active S)" "solid (rectangle_inactive S)" using c by simp_all
  note e = rectangle_end_line_region [OF s, of frame_rate 240]
  have "rectangle_active (rectangle_end_line frame_rate 240 S) = []" using c by (auto simp: e(1) filter_empty_conv)
  moreover have "R' = rectangle_end_line frame_rate 240 S" "dirty' = (\<lambda>y. if y < 240 then 0 else dirty y)"
    using assms(3) by (simp_all add: update_dirty_rects_def S_def)
  ultimately show ?thesis using c e by simp
qed

lemma rectangles_cover_dirty_cells_witness:
  "region (rectangle_inactive (snd (update_dirty_rects 2 (\<lambda>y. if y = 3 then 6 else 0) \<lparr>rectangle_active = [], rectangle_inactive = []\<rparr>))) =
    {(x, y). \<exists>a b. x = int a \<and> y = int b \<and> b < 240 \<and> bit (if b = 3 then 6 else 0 :: u64) a}"
proof -
  obtain d R where "update_dirty_rects 2 (\<lambda>y. if y = 3 then 6 else 0) \<lparr>rectangle_active = [], rectangle_inactive = []\<rparr> = (d, R)" by fastforce
  from rectangles_cover_dirty_cells [OF _ _ this] this show ?thesis by simp
qed

end
