(* ===== verification/Spec2Isabelle.thy ===== *)
theory Spec2Isabelle
  imports Z80_Alu Events Memory_Map Machine_Paging Z80_Core Sfifo Flash Expressions Z80_Variables Breakpoints Disassembler Disk_Roundtrip Startup_Modules Gdb_Server Rectangles
begin

text \<open>
  A verification library for the core of the FuseX emulator of the ZX Spectrum, translated from the sources under \<open>src/\<close>.

  \<^bold>\<open>The program.\<close> The processor (\<open>z80/\<close>) executes instructions on the memory (\<open>memory_pages.c\<close>), which a table of 2K pages maps for
  the machine in use (\<open>machines/\<close>). Time is counted in T-states; what happens at a time, the end of a frame among others, waits
  in the event queue (\<open>event.c\<close>). Peripherals answer in place of the mapped memory; one of them, the Spectranet, has a
  flash chip (\<open>peripherals/flash/\<close>). Floppy disks are images of formatted tracks (\<open>peripherals/disk/disk.c\<close>). Each frame ends with the
  sound going to a driver through a ring buffer (\<open>sound/sfifo.c\<close>) and the display going to the user interface (\<open>display*.c\<close>,
  \<open>rectangle.c\<close>). A debugger (\<open>debugger/\<close>) looks at every access; a client on the network can drive it. The modules start in
  the order of their dependencies (\<open>infrastructure/startup_manager.c\<close>).

  \<^bold>\<open>The theories.\<close> States are records, and a state of one component extends that of the component it uses: \<open>event_state\<close>,
  \<open>memory_state\<close>, then \<open>machine_state\<close>, the state of \<open>Z80_Core\<close> or \<open>display_state\<close>. What belongs to code that is not modelled is a parameter: a record of functions
  (\<open>bus_devices\<close>, \<open>paging_hooks\<close>, \<open>z80_hooks\<close>), of which a theorem assumes what the code relies on.
  \<^item> \<open>Prelude\<close>: the integer types, bits of words, and the locale \<open>step_machine\<close> of an invariant kept by steps.
  \<^item> \<open>Events\<close> (\<open>event.c\<close>): the queue is ordered and knows its first time; running it to the present ends.
  \<^item> \<open>Memory_Map\<close> (\<open>memory_pages.c\<close>): pages, banks, the pool, mapping, \<open>readbyte\<close> and \<open>writebyte\<close>; reading after writing through any mapping.
  \<^item> \<open>Machine_Paging\<close> (\<open>machines/\<close>, the memory ports, snapshots): a specification of the 128K paging that the code refines, the
    paging lock, the bounds of the tables, the round trip of a snapshot and the machine where it fails.
  \<^item> \<open>Z80_Alu\<close>, \<open>Z80_Core\<close>, \<open>Z80_Variables\<close> (\<open>z80/\<close>): flags with their arithmetic meaning, interrupts, stack, snapshots, and the registers as variables of the debugger.
  \<^item> \<open>Sfifo\<close> (\<open>sound/sfifo.c\<close>): bytes come out in order; the size loop and where it does not end.
  \<^item> \<open>Flash\<close> (\<open>am29f010.c\<close>, \<open>spectranet.c\<close>): the command cycles, programming and the file of the ROM.
  \<^item> \<open>Expressions\<close>, \<open>Breakpoints\<close>, \<open>Disassembler\<close> (\<open>debugger/\<close>): the printed expression reads back, a check is one pass over the breakpoints, breakpoints stay
    well typed and timed ones have their events, and the disassembly is local, ends, and lists forwards and backwards.
  \<^item> \<open>Gdb_Packets\<close>, \<open>Gdb_Server\<close> (\<open>packets.c\<close>, \<open>gdbserver_utils.c\<close>, \<open>gdbserver.c\<close>): packets however the stream is cut, registers and memory written and read back.
  \<^item> \<open>Disk_Crc\<close>, \<open>Disk_Track\<close>, \<open>Disk_Layout\<close>, \<open>Disk_Images\<close>, \<open>Disk_Whole\<close>, \<open>Disk_Roundtrip\<close> (\<open>disk.c\<close>, \<open>crc.c\<close>): the checksum, the layout of
    tracks and the images that open as a disk and are written again.
  \<^item> \<open>Startup\<close>, \<open>Startup_Modules\<close> (\<open>startup_manager.c\<close> and every \<open>_register_startup\<close>): the order of a start and of an end, and that the program's own registrations always start.
  \<^item> \<open>Rectangles\<close> (\<open>rectangle.c\<close>, \<open>display_dirty.c\<close>): the rectangles of a frame cover the dirty cells and no others.
  A theorem that holds only on some part of the inputs says so in its hypotheses, and is followed by a closed witness. Where the code does not do what it means to,
  the theorem states what it does.

  \<^bold>\<open>Interfaces.\<close> \<open>step_machine\<close> is extended by \<open>event_queue\<close> and \<open>paging_ports\<close>; \<open>region_map\<close> is the contract of the mapping functions, interpreted for
  2K, 4K, 8K and 16K; \<open>byte_queue\<close> that of the ring buffer; \<open>breakpoint_walk\<close> and \<open>quiet_variables\<close> those of the
  breakpoint list and of the system variables it evaluates, interpreted on the variables of the Z80.

  \<^bold>\<open>Loops.\<close> No fuel is used. A loop that may not end is a \<open>partial_function (option)\<close> whose \<open>None\<close> is that it runs for ever: \<open>event_do_events\<close>,
  \<open>event_force_events\<close>, \<open>strip_prefixes\<close> and \<open>next_size\<close>; where they end is a theorem. The others are total, most by a measure. \<open>None\<close> also stands for an access outside
  of an array where an operation could make one, in the flash chip, the disks and the GDB server.

  \<^bold>\<open>Not modelled.\<close> The opcodes themselves, which are generated from \<open>opcodes_*.dat\<close> (the macros they call are modelled); the disk controllers and the
  interfaces that page them in; sound synthesis, which is floating point; tapes, recordings and snapshot files, whose formats are those of a library; the user interfaces, their
  scalers and the drivers, whose result is what a toolkit shows or plays; the network controllers and file systems of the
  Spectranext, which are threads over third-party libraries; the vendored lwIP and parson; the disk formats UDI, FDI, CPC, TD0 and SCL; the
  automation and the unit tests. Memory management, threads and locks are left out of the parts that are modelled.
\<close>

end
